(* ===== verification/Prelude.thy ===== *)
theory Prelude
  imports
    Main
    "HOL-Library.Word"
    "HOL-Library.Char_ord"
    "HOL-Library.List_Lexorder"
    "HOL-Library.Option_ord"
    "HOL-Library.Product_Lexorder"
    "HOL-Library.Multiset"
begin

text \<open>
  Shared vocabulary of the development: machine integers, results, text and paths.

  A Rust \<open>str\<close> is a \<^typ>\<open>string\<close>, the list of its UTF-8 bytes, so \<open>length\<close> is \<open>str::len\<close>
  and the library's lexicographic order on lists of characters is both the derived \<open>Ord\<close> of
  Rust strings and SQLite's \<open>BINARY\<close> collation.  A \<open>Result\<close> is a sum with the error on the
  left.  Fixed-width integers are words.
\<close>

named_theorems row_simps "equations of the row-level storage updates"
named_theorems keeps_inv "operations that preserve a component's invariant"

section \<open>Machine integers\<close>

type_synonym u16 = "16 word"
type_synonym u32 = "32 word"
type_synonym u64 = "64 word"

text \<open>\<open>i64::try_from(b).unwrap_or(i64::MAX)\<close>, and back with \<open>u64::try_from(b).unwrap_or(0)\<close>.\<close>

definition i64_max :: int where
  "i64_max = 9223372036854775807"

definition i64_of_u64 :: "u64 \<Rightarrow> int" where
  "i64_of_u64 b = (if uint b \<le> i64_max then uint b else i64_max)"

definition u64_of_i64 :: "int \<Rightarrow> u64" where
  "u64_of_i64 i = (if 0 \<le> i then word_of_int i else 0)"

text \<open>\<open>u32::try_from(i).ok()\<close> on a 64-bit signed value.\<close>

definition u32_try_from :: "int \<Rightarrow> u32 option" where
  "u32_try_from i = (if 0 \<le> i \<and> i < 4294967296 then Some (word_of_int i) else None)"

lemma u64_i64_roundtrip: "uint b \<le> i64_max \<Longrightarrow> u64_of_i64 (i64_of_u64 b) = b"
  by (simp add: i64_of_u64_def u64_of_i64_def)

lemma i64_of_u64_nonneg: "0 \<le> i64_of_u64 b"
  by (simp add: i64_of_u64_def i64_max_def)

lemma i64_of_u64_le: "i64_of_u64 b \<le> i64_max"
  by (simp add: i64_of_u64_def)

lemma u32_try_from_uint [simp]: "u32_try_from (uint (w :: u32)) = Some w"
  using uint_lt2p [of w] by (simp add: u32_try_from_def)

lemma unat_add_no_wrap:
  fixes a b :: "'a::len word"
  shows "unat a + unat b < 2 ^ LENGTH('a) \<Longrightarrow> unat (a + b) = unat a + unat b"
  by (simp add: unat_word_ariths)

section \<open>Results\<close>

text \<open>The \<open>?\<close> operator: an error returns early.\<close>

fun bind_res :: "'e + 'a \<Rightarrow> ('a \<Rightarrow> 'e + 'b) \<Rightarrow> 'e + 'b" where
  "bind_res (Inl e) f = Inl e"
| "bind_res (Inr a) f = f a"

fun map_res :: "('a \<Rightarrow> 'b) \<Rightarrow> 'e + 'a \<Rightarrow> 'e + 'b" where
  "map_res f (Inl e) = Inl e"
| "map_res f (Inr a) = Inr (f a)"

fun map_err :: "('e \<Rightarrow> 'f) \<Rightarrow> 'e + 'a \<Rightarrow> 'f + 'a" where
  "map_err f (Inl e) = Inl (f e)"
| "map_err f (Inr a) = Inr a"

fun ok :: "'e + 'a \<Rightarrow> 'a option" where
  "ok (Inl e) = None"
| "ok (Inr a) = Some a"

fun ok_or :: "'e \<Rightarrow> 'a option \<Rightarrow> 'e + 'a" where
  "ok_or e None = Inl e"
| "ok_or e (Some a) = Inr a"

text \<open>\<open>Option::map(f).transpose()?\<close>: an absent value is fine, a present one must convert.\<close>

fun traverse_opt :: "('a \<Rightarrow> 'e + 'b) \<Rightarrow> 'a option \<Rightarrow> 'e + 'b option" where
  "traverse_opt f None = Inr None"
| "traverse_opt f (Some a) = map_res Some (f a)"

text \<open>\<open>iter.collect::<Result<Vec<_>, _>>()\<close>: the first error wins.\<close>

fun collect_res :: "('e + 'a) list \<Rightarrow> 'e + 'a list" where
  "collect_res [] = Inr []"
| "collect_res (r # rs) = bind_res r (\<lambda>a. map_res (\<lambda>as. a # as) (collect_res rs))"

text \<open>\<open>Option::or\<close>.\<close>

fun or_else :: "'a option \<Rightarrow> 'a option \<Rightarrow> 'a option" where
  "or_else (Some a) b = Some a"
| "or_else None b = b"

definition unwrap_or :: "'a \<Rightarrow> 'a option \<Rightarrow> 'a" where
  "unwrap_or d x = (case x of None \<Rightarrow> d | Some a \<Rightarrow> a)"

definition filter_opt :: "('a \<Rightarrow> bool) \<Rightarrow> 'a option \<Rightarrow> 'a option" where
  "filter_opt P x = (case x of None \<Rightarrow> None | Some a \<Rightarrow> if P a then Some a else None)"

lemma unwrap_or_simps [simp]: "unwrap_or d None = d" "unwrap_or d (Some a) = a"
  by (simp_all add: unwrap_or_def)

lemma filter_opt_simps [simp]:
  "filter_opt P None = None" "filter_opt P (Some a) = (if P a then Some a else None)"
  by (simp_all add: filter_opt_def)

lemma filter_opt_eq_Some_iff: "filter_opt P x = Some a \<longleftrightarrow> x = Some a \<and> P a"
  by (cases x) auto

lemma or_else_None [simp]: "or_else x None = x"
  by (cases x) simp_all

lemma or_else_assoc: "or_else (or_else a b) c = or_else a (or_else b c)"
  by (cases a) simp_all

lemma or_else_eq_None_iff [simp]: "or_else a b = None \<longleftrightarrow> a = None \<and> b = None"
  by (cases a) simp_all

lemma bind_res_Inr_iff: "bind_res r f = Inr b \<longleftrightarrow> (\<exists>a. r = Inr a \<and> f a = Inr b)"
  by (cases r) auto

lemma bind_res_Inl_iff:
  "bind_res r f = Inl e \<longleftrightarrow> r = Inl e \<or> (\<exists>a. r = Inr a \<and> f a = Inl e)"
  by (cases r) auto

lemma map_res_Inr_iff: "map_res f r = Inr b \<longleftrightarrow> (\<exists>a. r = Inr a \<and> b = f a)"
  by (cases r) auto

lemma map_res_Inl_iff [simp]: "map_res f r = Inl e \<longleftrightarrow> r = Inl e"
  by (cases r) auto

lemma map_err_Inr_iff [simp]: "map_err f r = Inr b \<longleftrightarrow> r = Inr b"
  by (cases r) auto

lemma map_err_Inl_iff: "map_err f r = Inl e \<longleftrightarrow> (\<exists>e'. r = Inl e' \<and> e = f e')"
  by (cases r) auto

lemma ok_or_Inr_iff [simp]: "ok_or e x = Inr a \<longleftrightarrow> x = Some a"
  by (cases x) auto

lemma ok_eq_Some_iff [simp]: "ok r = Some a \<longleftrightarrow> r = Inr a"
  by (cases r) auto

lemma traverse_opt_total: "(\<And>a. x = Some a \<Longrightarrow> \<exists>b. f a = Inr b) \<Longrightarrow> \<exists>y. traverse_opt f x = Inr y"
  by (cases x) (auto simp: map_res_Inr_iff)

lemma collect_res_Inr_iff:
  "collect_res rs = Inr as \<longleftrightarrow> list_all2 (\<lambda>r a. r = Inr a) rs as"
  by (induction rs arbitrary: as)
    (auto simp: bind_res_Inr_iff map_res_Inr_iff list_all2_Cons1)

lemma collect_res_total: "(\<And>r. r \<in> set rs \<Longrightarrow> \<exists>a. r = Inr a) \<Longrightarrow> \<exists>as. collect_res rs = Inr as"
  by (induction rs) (auto simp: bind_res_Inr_iff map_res_Inr_iff)

section \<open>Systems that come to rest\<close>

text \<open>
  A component that takes steps on its own: an invariant its steps keep, and an order in which
  every step goes down.  Whatever it is, it comes to rest from every good state and has no
  endless run.
\<close>

locale settling_system =
  fixes own_step :: "'s \<Rightarrow> 's \<Rightarrow> bool"
    and good :: "'s \<Rightarrow> bool"
    and below :: "('s \<times> 's) set"
  assumes well_founded: "wf below"
    and kept: "own_step s t \<Longrightarrow> good s \<Longrightarrow> good t"
    and goes_down: "own_step s t \<Longrightarrow> good s \<Longrightarrow> (t, s) \<in> below"
begin

definition at_rest :: "'s \<Rightarrow> bool" where
  "at_rest s \<longleftrightarrow> (\<forall>t. \<not> own_step s t)"

lemma good_runs: "own_step\<^sup>*\<^sup>* s t \<Longrightarrow> good s \<Longrightarrow> good t"
  by (induction rule: rtranclp_induct) (auto intro: kept)

lemma comes_to_rest: "good s \<Longrightarrow> \<exists>t. own_step\<^sup>*\<^sup>* s t \<and> at_rest t"
proof (induction s rule: wf_induct_rule [OF well_founded])
  case (1 s)
  show ?case
  proof (cases "at_rest s")
    case False
    then obtain u where u: "own_step s u" by (auto simp: at_rest_def)
    from 1(1) [OF goes_down [OF u 1(2)] kept [OF u 1(2)]] u show ?thesis
      by (meson converse_rtranclp_into_rtranclp)
  qed blast
qed

lemma no_endless_run: "good (f 0) \<Longrightarrow> \<exists>n. \<not> own_step (f n) (f (Suc n))"
proof (rule ccontr)
  assume start: "good (f 0)" and "\<not> (\<exists>n. \<not> own_step (f n) (f (Suc n)))"
  then have step: "own_step (f n) (f (Suc n))" for n by blast
  have "good (f n)" for n by (induction n) (use start step kept in blast)+
  then have "\<forall>n. (f (Suc n), f n) \<in> below" using goes_down step by blast
  with well_founded show False by (meson wf_iff_no_infinite_down_chain)
qed

end

end
