(* ===== verification/Strings_Paths.thy ===== *)
theory Strings_Paths
  imports Prelude
begin

text \<open>
  The \<open>str\<close> and \<open>std::path\<close> operations the program uses: ASCII classes, \<open>split\<close>,
  \<open>strip_prefix\<close>, decimal formatting, UTF-8 scalar boundaries, and Unix path joining and
  file names.
\<close>

section \<open>Characters\<close>

definition char_code :: "char \<Rightarrow> nat" where
  "char_code c = of_char c"

text \<open>\<open>char::is_ascii_alphanumeric\<close>.\<close>

definition ascii_alnum :: "char \<Rightarrow> bool" where
  "ascii_alnum c \<longleftrightarrow>
     (48 \<le> char_code c \<and> char_code c \<le> 57) \<or> (65 \<le> char_code c \<and> char_code c \<le> 90) \<or> (97 \<le> char_code c \<and> char_code c \<le> 122)"

text \<open>
  \<open>str::chars\<close> walks Unicode scalar values.  In valid UTF-8 every scalar value has exactly
  one byte that is not a continuation byte (\<open>10xxxxxx\<close>), and only ASCII scalars start with a
  byte below 128.
\<close>

definition utf8_continuation :: "char \<Rightarrow> bool" where
  "utf8_continuation c \<longleftrightarrow> 128 \<le> char_code c \<and> char_code c < 192"

definition scalar_heads :: "string \<Rightarrow> string" where
  "scalar_heads s = filter (\<lambda>c. \<not> utf8_continuation c) s"

lemma alnum_not_continuation: "ascii_alnum c \<Longrightarrow> \<not> utf8_continuation c"
  by (auto simp: ascii_alnum_def utf8_continuation_def)

section \<open>Decimal numbers\<close>

definition digit_char :: "nat \<Rightarrow> char" where
  "digit_char d = char_of (48 + d)"

definition digit_val :: "char \<Rightarrow> nat" where
  "digit_val c = char_code c - 48"

fun show_nat :: "nat \<Rightarrow> string" where
  "show_nat n = (if n < 10 then [digit_char n] else show_nat (n div 10) @ [digit_char (n mod 10)])"

declare show_nat.simps [simp del]

definition read_nat :: "string \<Rightarrow> nat" where
  "read_nat s = foldl (\<lambda>acc c. acc * 10 + digit_val c) 0 s"

lemma read_nat_snoc [simp]: "read_nat (s @ [c]) = read_nat s * 10 + digit_val c"
  by (simp add: read_nat_def)

lemma read_nat_single [simp]: "read_nat [c] = digit_val c"
  by (simp add: read_nat_def)

lemma char_code_digit_char: "d < 10 \<Longrightarrow> char_code (digit_char d) = 48 + d"
  by (simp add: char_code_def digit_char_def)

lemma digit_val_digit_char [simp]: "d < 10 \<Longrightarrow> digit_val (digit_char d) = d"
  by (simp add: digit_val_def char_code_digit_char)

lemma read_show_nat [simp]: "read_nat (show_nat n) = n"
proof (induction n rule: show_nat.induct)
  case (1 n)
  then show ?case by (subst show_nat.simps) auto
qed

lemma show_nat_inj: "show_nat m = show_nat n \<longleftrightarrow> m = n"
  by (metis read_show_nat)

lemma show_nat_nonempty [simp]: "show_nat n \<noteq> []"
  by (subst show_nat.simps) simp

lemma show_nat_digits: "c \<in> set (show_nat n) \<Longrightarrow> 48 \<le> char_code c \<and> char_code c \<le> 57"
proof (induction n rule: show_nat.induct)
  case (1 n)
  then show ?case
    by (subst (asm) (2) show_nat.simps) (auto simp: char_code_digit_char split: if_splits)
qed

text \<open>\<open>{:02}\<close>: at least two digits, padded with zeros on the left.\<close>

definition pad2 :: "nat \<Rightarrow> string" where
  "pad2 n = (if n < 10 then ''0'' @ show_nat n else show_nat n)"

section \<open>Slices of strings\<close>

definition starts_with :: "string \<Rightarrow> string \<Rightarrow> bool" where
  "starts_with p s \<longleftrightarrow> take (length p) s = p"

definition strip_prefix :: "string \<Rightarrow> string \<Rightarrow> string option" where
  "strip_prefix p s = (if take (length p) s = p then Some (drop (length p) s) else None)"

definition strip_suffix :: "string \<Rightarrow> string \<Rightarrow> string option" where
  "strip_suffix q s =
     (if length q \<le> length s \<and> drop (length s - length q) s = q
      then Some (take (length s - length q) s) else None)"

lemma starts_with_iff: "starts_with p s \<longleftrightarrow> (\<exists>t. s = p @ t)"
  by (metis append_eq_conv_conj append_take_drop_id starts_with_def)

lemma strip_prefix_eq_Some_iff: "strip_prefix p s = Some t \<longleftrightarrow> s = p @ t"
  by (auto simp: strip_prefix_def) (metis append_take_drop_id)

lemma strip_suffix_eq_Some_iff: "strip_suffix q s = Some t \<longleftrightarrow> s = t @ q"
proof
  assume "strip_suffix q s = Some t"
  then have "drop (length s - length q) s = q" "take (length s - length q) s = t"
    by (auto simp: strip_suffix_def split: if_splits)
  then show "s = t @ q" by (metis append_take_drop_id)
qed (simp add: strip_suffix_def)

text \<open>\<open>str::split\<close> on one character: always at least one piece.\<close>

fun split_on :: "char \<Rightarrow> string \<Rightarrow> string list" where
  "split_on d [] = [[]]"
| "split_on d (c # cs) =
     (if c = d then [] # split_on d cs
      else (case split_on d cs of p # ps \<Rightarrow> (c # p) # ps | [] \<Rightarrow> [[c]]))"

lemma split_on_nonempty [simp]: "split_on d s \<noteq> []"
  by (induction d s rule: split_on.induct) (auto split: list.splits)

lemma split_on_no_sep: "d \<notin> set s \<Longrightarrow> split_on d s = [s]"
  by (induction s) auto

lemma split_on_append: "d \<notin> set t \<Longrightarrow> split_on d (s @ d # t) = split_on d s @ [t]"
  by (induction s) (auto simp: split_on_no_sep split: list.splits)

lemma split_on_pieces: "p \<in> set (split_on d s) \<Longrightarrow> d \<notin> set p"
proof (induction s arbitrary: p)
  case (Cons c cs)
  obtain q qs where q: "split_on d cs = q # qs"
    using split_on_nonempty list.exhaust by metis
  then have "d \<notin> set q" using Cons.IH [of q] by simp
  with Cons.prems Cons.IH q show ?case by (auto split: if_splits)
qed simp

text \<open>\<open>s.rsplit(d).next()\<close>: the piece after the last separator.\<close>

definition rsplit_first :: "char \<Rightarrow> string \<Rightarrow> string" where
  "rsplit_first d s = last (split_on d s)"

text \<open>\<open>s.split(d).next()\<close>: the piece before the first separator.\<close>

definition split_first :: "char \<Rightarrow> string \<Rightarrow> string" where
  "split_first d s = takeWhile (\<lambda>c. c \<noteq> d) s"

lemma split_first_eq: "split_first d s = hd (split_on d s)"
  unfolding split_first_def by (induction s) (auto split: list.splits)

lemma rsplit_first_append: "d \<notin> set t \<Longrightarrow> rsplit_first d (s @ d # t) = t"
  by (simp add: rsplit_first_def split_on_append)

lemma rsplit_first_no_sep: "d \<notin> set s \<Longrightarrow> rsplit_first d s = s"
  by (simp add: rsplit_first_def split_on_no_sep)

section \<open>Unix paths\<close>

type_synonym path = string

definition path_absolute :: "path \<Rightarrow> bool" where
  "path_absolute p \<longleftrightarrow> starts_with ''/'' p"

text \<open>\<open>Path::join\<close>: an absolute right side replaces the left one.\<close>

definition path_join :: "path \<Rightarrow> path \<Rightarrow> path" where
  "path_join p q =
     (if path_absolute q then q
      else if p = [] \<or> last p = CHR ''/'' then p @ q
      else p @ ''/'' @ q)"

text \<open>The components that are not \<open>.\<close>; repeated separators collapse.\<close>

definition path_components :: "path \<Rightarrow> string list" where
  "path_components p = filter (\<lambda>c. c \<noteq> [] \<and> c \<noteq> ''.'') (split_on CHR ''/'' p)"

definition path_file_name :: "path \<Rightarrow> string option" where
  "path_file_name p =
     (case rev (path_components p) of
        [] \<Rightarrow> None
      | c # _ \<Rightarrow> if c = ''..'' then None else Some c)"

text \<open>\<open>Path::extension\<close>: after the last dot of the file name, unless that dot is its first byte.\<close>

definition path_extension :: "path \<Rightarrow> string option" where
  "path_extension p =
     (case path_file_name p of
        None \<Rightarrow> None
      | Some f \<Rightarrow>
          let e = rsplit_first CHR ''.'' f in
          if CHR ''.'' \<notin> set f \<or> length f = Suc (length e) then None else Some e)"

lemma path_join_relative:
  "q \<noteq> [] \<Longrightarrow> CHR ''/'' \<notin> set q \<Longrightarrow> p \<noteq> [] \<Longrightarrow> last p \<noteq> CHR ''/'' \<Longrightarrow> path_join p q = p @ CHR ''/'' # q"
  by (cases q) (auto simp: path_join_def path_absolute_def starts_with_def)

lemma path_join_snoc:
  assumes "q \<noteq> []" "CHR ''/'' \<notin> set q"
  shows "\<exists>r. path_join p q = r @ q \<and> (r = [] \<or> last r = CHR ''/'')"
proof (cases "p = [] \<or> last p = CHR ''/''")
  case True
  with assms have "path_join p q = p @ q"
    by (cases q) (auto simp: path_join_def path_absolute_def starts_with_def)
  with True show ?thesis by blast
next
  case False
  with assms have "path_join p q = (p @ ''/'') @ q"
    by (simp add: path_join_relative)
  then show ?thesis
    by (intro exI [of _ "p @ ''/''"] conjI disjI2) simp_all
qed

lemma path_components_snoc:
  assumes "CHR ''/'' \<notin> set q" "q \<noteq> []" "q \<noteq> ''.''" "r = [] \<or> last r = CHR ''/''"
  shows "\<exists>cs. path_components (r @ q) = cs @ [q]"
proof (cases "r = []")
  case True
  with assms show ?thesis by (simp add: path_components_def split_on_no_sep)
next
  case False
  with assms(4) have "r = butlast r @ [CHR ''/'']" by (metis append_butlast_last_id)
  then have "split_on CHR ''/'' (r @ q) = split_on CHR ''/'' (butlast r) @ [q]"
    using split_on_append [OF assms(1), of "butlast r"] by (metis append.assoc append_Cons append_Nil)
  with assms show ?thesis by (simp add: path_components_def)
qed

lemma file_name_path_join:
  assumes "CHR ''/'' \<notin> set q" "q \<noteq> []" "q \<noteq> ''.''" "q \<noteq> ''..''"
  shows "path_file_name (path_join p q) = Some q"
proof -
  obtain r where r: "path_join p q = r @ q" "r = [] \<or> last r = CHR ''/''"
    using path_join_snoc [OF assms(2,1)] by blast
  obtain cs where "path_components (r @ q) = cs @ [q]"
    using path_components_snoc [OF assms(1,2,3) r(2)] by blast
  with r assms show ?thesis by (simp add: path_file_name_def)
qed

lemma path_join_inj:
  assumes "path_join p q = path_join p q'"
    "q \<noteq> []" "CHR ''/'' \<notin> set q" "q' \<noteq> []" "CHR ''/'' \<notin> set q'"
  shows "q = q'"
  using assms by (cases q; cases q') (auto simp: path_join_def path_absolute_def starts_with_def split: if_splits)

end
