(* ===== verification/Domain.thy ===== *)
theory Domain
  imports Strings_Paths
begin

text \<open>
  The domain types of \<open>crates/core/src/domain.rs\<close>: identifiers with their validating
  parsers, credentials with redacting debug output, the episode lifecycle, provider-boundary
  metadata, URL redaction and audio MIME types.
\<close>

section \<open>Identifiers\<close>

record invalid_id =
  id_kind :: string
  id_reason :: string

datatype show_slug = ShowSlug (slug_str: string)

datatype episode_id = EpisodeId (id_str: string)

definition slug_char :: "char \<Rightarrow> bool" where
  "slug_char c \<longleftrightarrow> ascii_alnum c \<or> c = CHR ''-'' \<or> c = CHR ''_'' \<or> c = CHR ''.''"

definition parse_show_slug :: "string \<Rightarrow> invalid_id + show_slug" where
  "parse_show_slug s =
     (if s = [] then
        Inl \<lparr>id_kind = ''show slug'', id_reason = ''must not be empty''\<rparr>
      else if \<not> list_all slug_char s then
        Inl \<lparr>id_kind = ''show slug'',
             id_reason = ''only ASCII letters, digits, `-`, `_`, and `.` are allowed''\<rparr>
      else Inr (ShowSlug s))"

definition parse_episode_id :: "string \<Rightarrow> invalid_id + episode_id" where
  "parse_episode_id s =
     (if s = [] then
        Inl \<lparr>id_kind = ''episode id'', id_reason = ''must not be empty''\<rparr>
      else Inr (EpisodeId s))"

definition invalid_id_display :: "invalid_id \<Rightarrow> string" where
  "invalid_id_display e = ''invalid '' @ id_kind e @ '': '' @ id_reason e"

definition valid_slug :: "show_slug \<Rightarrow> bool" where
  "valid_slug s \<longleftrightarrow> slug_str s \<noteq> [] \<and> list_all slug_char (slug_str s)"

definition valid_id :: "episode_id \<Rightarrow> bool" where
  "valid_id i \<longleftrightarrow> id_str i \<noteq> []"

lemma parse_show_slug_Inr_iff:
  "parse_show_slug s = Inr slug \<longleftrightarrow> slug = ShowSlug s \<and> s \<noteq> [] \<and> list_all slug_char s"
  by (auto simp: parse_show_slug_def)

lemma parse_slug_str [simp]: "valid_slug s \<Longrightarrow> parse_show_slug (slug_str s) = Inr s"
  by (cases s) (simp add: valid_slug_def parse_show_slug_def)

lemma parse_show_slug_valid: "parse_show_slug s = Inr slug \<Longrightarrow> valid_slug slug"
  by (auto simp: parse_show_slug_Inr_iff valid_slug_def)

lemma parse_episode_id_Inr_iff: "parse_episode_id s = Inr i \<longleftrightarrow> i = EpisodeId s \<and> s \<noteq> []"
  by (auto simp: parse_episode_id_def)

lemma parse_id_str [simp]: "valid_id i \<Longrightarrow> parse_episode_id (id_str i) = Inr i"
  by (cases i) (simp add: valid_id_def parse_episode_id_def)

lemma parse_episode_id_valid: "parse_episode_id s = Inr i \<Longrightarrow> valid_id i"
  by (auto simp: parse_episode_id_Inr_iff valid_id_def)

lemma slug_str_inj: "slug_str a = slug_str b \<longleftrightarrow> a = b"
  by (cases a; cases b) simp

lemma id_str_inj: "id_str a = id_str b \<longleftrightarrow> a = b"
  by (cases a; cases b) simp

lemma slug_char_not_slash: "slug_char c \<Longrightarrow> c \<noteq> CHR ''/''"
  by (auto simp: slug_char_def ascii_alnum_def char_code_def)

lemma slug_no_slash: "valid_slug s \<Longrightarrow> CHR ''/'' \<notin> set (slug_str s)"
  by (auto simp: valid_slug_def list_all_iff dest: slug_char_not_slash)

text \<open>Slugs derive \<open>Ord\<close>: the order of their text.\<close>

instantiation show_slug :: linorder
begin

definition less_eq_show_slug :: "show_slug \<Rightarrow> show_slug \<Rightarrow> bool" where
  "less_eq_show_slug a b \<longleftrightarrow> slug_str a \<le> slug_str b"

definition less_show_slug :: "show_slug \<Rightarrow> show_slug \<Rightarrow> bool" where
  "less_show_slug a b \<longleftrightarrow> slug_str a < slug_str b"

instance
  by standard (auto simp: less_eq_show_slug_def less_show_slug_def slug_str_inj order.strict_iff_order)

end

section \<open>Credentials\<close>

datatype listen_key = ListenKey (listen_key_expose: string)

datatype api_key = ApiKey (api_key_expose: string)

definition listen_key_debug :: "listen_key \<Rightarrow> string" where
  "listen_key_debug k = ''ListenKey(<redacted>)''"

definition api_key_debug :: "api_key \<Rightarrow> string" where
  "api_key_debug k = ''ApiKey(<redacted>)''"

section \<open>Error classes and the episode lifecycle\<close>

datatype error_class = Network | HttpStatus | Parse | Disk

fun error_class_display :: "error_class \<Rightarrow> string" where
  "error_class_display Network = ''network''"
| "error_class_display HttpStatus = ''http-status''"
| "error_class_display Parse = ''parse''"
| "error_class_display Disk = ''disk''"

definition parse_error_class :: "string \<Rightarrow> invalid_id + error_class" where
  "parse_error_class s =
     (if s = ''network'' then Inr Network
      else if s = ''http-status'' then Inr HttpStatus
      else if s = ''parse'' then Inr Parse
      else if s = ''disk'' then Inr Disk
      else Inl \<lparr>id_kind = ''error class'',
                id_reason = ''not one of network/http-status/parse/disk''\<rparr>)"

lemma parse_error_class_display [simp]: "parse_error_class (error_class_display c) = Inr c"
  by (cases c) (simp_all add: parse_error_class_def)

datatype episode_state = Discovered | Downloading | Cached | Pruned | Failed error_class

fun can_transition_to :: "episode_state \<Rightarrow> episode_state \<Rightarrow> bool" where
  "can_transition_to Discovered Downloading = True"
| "can_transition_to Downloading Cached = True"
| "can_transition_to Downloading (Failed _) = True"
| "can_transition_to (Failed _) Downloading = True"
| "can_transition_to Cached Downloading = True"
| "can_transition_to Cached Pruned = True"
| "can_transition_to Pruned Downloading = True"
| "can_transition_to _ _ = False"

fun is_on_disk :: "episode_state \<Rightarrow> bool" where
  "is_on_disk Cached = True"
| "is_on_disk _ = False"

lemma into_Downloading_iff: "can_transition_to s Downloading \<longleftrightarrow> s \<noteq> Downloading"
  by (cases s) simp_all

lemma into_Cached_iff: "can_transition_to s Cached \<longleftrightarrow> s = Downloading"
  by (cases s) simp_all

lemma into_Failed_iff: "can_transition_to s (Failed c) \<longleftrightarrow> s = Downloading"
  by (cases s) simp_all

lemma into_Pruned_iff: "can_transition_to s Pruned \<longleftrightarrow> s = Cached"
  by (cases s) simp_all

lemma never_into_Discovered: "\<not> can_transition_to s Discovered"
  by (cases s) simp_all

lemmas transition_iffs =
  into_Downloading_iff into_Cached_iff into_Failed_iff into_Pruned_iff never_into_Discovered

datatype mode = Once | Serve

section \<open>MIME types\<close>

datatype audio_mime = Mpeg | Mp4 | Aac | Ogg | OtherMime string

fun mime_extension :: "audio_mime \<Rightarrow> string option" where
  "mime_extension Mpeg = Some ''mp3''"
| "mime_extension Mp4 = Some ''m4a''"
| "mime_extension Aac = Some ''aac''"
| "mime_extension Ogg = Some ''ogg''"
| "mime_extension (OtherMime _) = None"

definition mime_from :: "string \<Rightarrow> audio_mime" where
  "mime_from raw =
     (if raw = ''audio/mpeg'' \<or> raw = ''audio/mp3'' then Mpeg
      else if raw = ''audio/mp4'' \<or> raw = ''audio/x-m4a'' then Mp4
      else if raw = ''audio/aac'' then Aac
      else if raw = ''audio/ogg'' then Ogg
      else OtherMime raw)"

fun mime_display :: "audio_mime \<Rightarrow> string" where
  "mime_display Mpeg = ''audio/mpeg''"
| "mime_display Mp4 = ''audio/mp4''"
| "mime_display Aac = ''audio/aac''"
| "mime_display Ogg = ''audio/ogg''"
| "mime_display (OtherMime raw) = raw"

text \<open>Values that \<open>AudioMime::from\<close> builds; \<open>OtherMime ''audio/ogg''\<close> is not one of them.\<close>

definition canonical_mime :: "audio_mime \<Rightarrow> bool" where
  "canonical_mime m \<longleftrightarrow> mime_from (mime_display m) = m"

lemma mime_from_canonical [simp]: "canonical_mime (mime_from raw)"
  by (simp add: canonical_mime_def mime_from_def)

section \<open>URLs\<close>

text \<open>
  Parsed URLs belong to the \<open>url\<close> crate, which is not part of the repository: their type is
  a parameter \<open>'u\<close> and the operations the program calls are the fields of a record that every
  definition using them takes.  \<open>url_query_clear_extend\<close> is
  \<open>query_pairs_mut().clear().extend_pairs(..)\<close>, \<open>url_query_extend\<close> the same without
  \<open>clear\<close>, and \<open>url_path_extend\<close> is \<open>path_segments_mut().ok()?.pop_if_empty().extend(..)\<close>.
\<close>

record 'u url_ops =
  url_parse :: "string \<Rightarrow> 'u option"
  url_str :: "'u \<Rightarrow> string"
  url_path :: "'u \<Rightarrow> string"
  url_query_pairs :: "'u \<Rightarrow> (string \<times> string) list"
  url_query_clear_extend :: "(string \<times> string) list \<Rightarrow> 'u \<Rightarrow> 'u"
  url_query_extend :: "(string \<times> string) list \<Rightarrow> 'u \<Rightarrow> 'u"
  url_path_extend :: "string list \<Rightarrow> 'u \<Rightarrow> 'u option"

text \<open>The documented behaviour of query editing: what was written is read back.\<close>

definition url_query_laws :: "'u url_ops \<Rightarrow> bool" where
  "url_query_laws U \<longleftrightarrow>
     (\<forall>ps u. url_query_pairs U (url_query_clear_extend U ps u) = ps) \<and>
     (\<forall>ps u. url_query_pairs U (url_query_extend U ps u) = url_query_pairs U u @ ps)"

text \<open>A small URL type for examples: base, path segments and query pairs.\<close>

type_synonym tuple_url = "string \<times> string list \<times> (string \<times> string) list"

definition tuple_urls :: "tuple_url url_ops" where
  "tuple_urls =
     \<lparr>url_parse = (\<lambda>s. Some (s, [], [])),
      url_str = (\<lambda>(b, segs, ps). b @ concat (map (\<lambda>s. ''/'' @ s) segs) @
        concat (map (\<lambda>(k, v). ''&'' @ k @ ''='' @ v) ps)),
      url_path = (\<lambda>(b, segs, ps). concat (map (\<lambda>s. ''/'' @ s) segs)),
      url_query_pairs = (\<lambda>(b, segs, ps). ps),
      url_query_clear_extend = (\<lambda>new (b, segs, ps). (b, segs, new)),
      url_query_extend = (\<lambda>new (b, segs, ps). (b, segs, ps @ new)),
      url_path_extend = (\<lambda>new (b, segs, ps). Some (b, segs @ new, ps))\<rparr>"

lemma tuple_urls_laws: "url_query_laws tuple_urls"
  by (simp add: url_query_laws_def tuple_urls_def)

definition secret_params :: "string list" where
  "secret_params = [''listen_key'', ''api_key'', ''audio_token'']"

datatype 'u redacted_url = RedactedUrl (redacted_inner: 'u)

definition redact_pair :: "string \<times> string \<Rightarrow> string \<times> string" where
  "redact_pair kv = (if fst kv \<in> set secret_params then (fst kv, ''REDACTED'') else kv)"

definition redacted :: "'u url_ops \<Rightarrow> 'u \<Rightarrow> 'u redacted_url" where
  "redacted U url =
     (if \<not> list_ex (\<lambda>kv. fst kv \<in> set secret_params) (url_query_pairs U url)
      then RedactedUrl url
      else RedactedUrl (url_query_clear_extend U (map redact_pair (url_query_pairs U url)) url))"

definition redacted_display :: "'u url_ops \<Rightarrow> 'u redacted_url \<Rightarrow> string" where
  "redacted_display U r = url_str U (redacted_inner r)"

lemma redact_pair_id: "fst kv \<notin> set secret_params \<Longrightarrow> redact_pair kv = kv"
  by (simp add: redact_pair_def)

lemma query_pairs_redacted:
  assumes "url_query_laws U"
  shows "url_query_pairs U (redacted_inner (redacted U url)) =
    map redact_pair (url_query_pairs U url)"
proof (cases "list_ex (\<lambda>kv. fst kv \<in> set secret_params) (url_query_pairs U url)")
  case True
  with assms show ?thesis by (simp add: redacted_def url_query_laws_def)
next
  case False
  then have "map redact_pair (url_query_pairs U url) = url_query_pairs U url"
    by (intro map_idI redact_pair_id) (auto simp: list_ex_iff)
  with False show ?thesis by (simp add: redacted_def)
qed

section \<open>Provider-boundary metadata\<close>

type_synonym timestamp = int

record 'u show_meta =
  sm_slug :: show_slug
  sm_title :: string
  sm_description :: "string option"
  sm_artwork :: "'u option"

record episode_meta =
  em_id :: episode_id
  em_title :: string
  em_description :: "string option"
  em_published_at :: "timestamp option"
  em_duration_secs :: "u32 option"

record 'u audio_source =
  as_url :: 'u
  as_mime :: "audio_mime option"
  as_bytes :: "u64 option"

end
