(* ===== verification/Float64.thy ===== *)
theory Float64
  imports Prelude
begin

text \<open>
  The fragment of Rust's \<open>f64\<close> that the program computes with: IEEE-754 binary64
  multiplication with round-to-nearest-even, and the saturating cast \<open>as u64\<close>.  A finite
  value is a sign (\<open>True\<close> for negative), a non-negative magnitude \<open>m\<close> and a binary exponent
  \<open>e\<close>, standing for \<open>m * 2 ^ e\<close>.
\<close>

datatype f64 = NaN | Inf bool | Fin bool int int

text \<open>Number of significant bits, by repeated halving.\<close>

function bit_len :: "int \<Rightarrow> int" where
  "bit_len n = (if n \<le> 0 then 0 else 1 + bit_len (n div 2))"
  by pat_completeness auto
termination
  by (relation "measure nat") auto

declare bit_len.simps [simp del]

text \<open>\<open>m / 2 ^ k\<close> rounded to the nearest integer, ties to even.\<close>

definition round_shift :: "int \<Rightarrow> nat \<Rightarrow> int" where
  "round_shift m k =
     (let q = m div 2 ^ k; r = m mod 2 ^ k in
      if 2 * r < 2 ^ k then q else if 2 ^ k < 2 * r then q + 1 else if even q then q else q + 1)"

text \<open>The integer part of \<open>m * 2 ^ e\<close>.\<close>

definition scale :: "int \<Rightarrow> int \<Rightarrow> int" where
  "scale m e = (if 0 \<le> e then m * 2 ^ nat e else m div 2 ^ nat (- e))"

text \<open>
  An exact product \<open>m * 2 ^ e\<close> is rounded to 53 bits (fewer below the normal range, where
  the exponent is pinned at \<open>-1074\<close>); a magnitude of \<open>2 ^ 1024\<close> or more is infinite.
\<close>

definition f64_round :: "bool \<Rightarrow> int \<Rightarrow> int \<Rightarrow> f64" where
  "f64_round s m e =
     (if m = 0 then Fin s 0 0 else
      let k = nat (max (bit_len m - 53) (- 1074 - e));
          m' = round_shift m k; e' = e + int k
      in if 1024 < bit_len m' + e' then Inf s else Fin s m' e')"

fun f64_mul :: "f64 \<Rightarrow> f64 \<Rightarrow> f64" where
  "f64_mul NaN _ = NaN"
| "f64_mul _ NaN = NaN"
| "f64_mul (Inf s) (Inf t) = Inf (s \<noteq> t)"
| "f64_mul (Inf s) (Fin t m e) = (if m = 0 then NaN else Inf (s \<noteq> t))"
| "f64_mul (Fin s m e) (Inf t) = (if m = 0 then NaN else Inf (s \<noteq> t))"
| "f64_mul (Fin s m e) (Fin t n f) = f64_round (s \<noteq> t) (m * n) (e + f)"

text \<open>\<open>x as u64\<close>: truncation towards zero, saturating, \<open>NaN\<close> to 0.\<close>

fun f64_as_u64 :: "f64 \<Rightarrow> u64" where
  "f64_as_u64 NaN = 0"
| "f64_as_u64 (Inf s) = (if s then 0 else - 1)"
| "f64_as_u64 (Fin s m e) =
     (if s then 0 else if scale m e < 18446744073709551616 then word_of_int (scale m e) else - 1)"

text \<open>
  Sums are exact on a common exponent before they are rounded.  A quotient is computed to at
  least 55 bits with a sticky bit for the remainder, which rounds as the exact quotient does.
\<close>

fun f64_add :: "f64 \<Rightarrow> f64 \<Rightarrow> f64" where
  "f64_add NaN _ = NaN"
| "f64_add _ NaN = NaN"
| "f64_add (Inf s) (Inf t) = (if s = t then Inf s else NaN)"
| "f64_add (Inf s) (Fin t n f) = Inf s"
| "f64_add (Fin s m e) (Inf t) = Inf t"
| "f64_add (Fin s m e) (Fin t n f) =
     (let g = min e f;
          v = (if s then - m else m) * 2 ^ nat (e - g) + (if t then - n else n) * 2 ^ nat (f - g)
      in if v = 0 then Fin (s \<and> t) 0 0 else f64_round (v < 0) \<bar>v\<bar> g)"

fun f64_div :: "f64 \<Rightarrow> f64 \<Rightarrow> f64" where
  "f64_div NaN _ = NaN"
| "f64_div _ NaN = NaN"
| "f64_div (Inf s) (Inf t) = NaN"
| "f64_div (Inf s) (Fin t n f) = Inf (s \<noteq> t)"
| "f64_div (Fin s m e) (Inf t) = Fin (s \<noteq> t) 0 0"
| "f64_div (Fin s m e) (Fin t n f) =
     (if n = 0 then (if m = 0 then NaN else Inf (s \<noteq> t))
      else
        let k = nat (bit_len n - bit_len m + 56); q = m * 2 ^ k div n
        in f64_round (s \<noteq> t) (2 * q + (if m * 2 ^ k mod n = 0 then 0 else 1)) (e - f - int k - 1))"

text \<open>\<open>n as f64\<close> of an unsigned integer rounds to nearest.\<close>

definition f64_of_nat :: "nat \<Rightarrow> f64" where
  "f64_of_nat n = f64_round False (int n) 0"

definition f64_of_int :: "int \<Rightarrow> f64" where
  "f64_of_int n = Fin (n < 0) \<bar>n\<bar> 0"

lemma bit_len_le: "n < 2 ^ k \<Longrightarrow> bit_len n \<le> int k"
proof (induction k arbitrary: n)
  case 0
  then show ?case by (simp add: bit_len.simps)
next
  case (Suc k)
  then have "n div 2 < 2 ^ k" by simp
  with Suc.IH show ?case by (subst bit_len.simps) auto
qed

lemma round_shift_0 [simp]: "round_shift m 0 = m"
  by (simp add: round_shift_def)

lemma scale_0 [simp]: "scale m 0 = m"
  by (simp add: scale_def)

lemma f64_round_exact: "m < 2 ^ 53 \<Longrightarrow> f64_round s m 0 = Fin s m 0"
  using bit_len_le [of m 53] by (simp add: f64_round_def Let_def)

text \<open>Whole products below \<open>2 ^ 53\<close> are computed exactly.\<close>

lemma f64_mul_exact:
  assumes "0 \<le> m" "0 \<le> n" "m * n < 2 ^ 53"
  shows "f64_as_u64 (f64_mul (f64_of_int m) (f64_of_int n)) = word_of_int (m * n)"
  using assms by (simp add: f64_of_int_def f64_round_exact del: of_int_mult)

lemma f64_negative_casts_to_zero:
  "0 \<le> n \<Longrightarrow> f64_as_u64 (f64_mul (Fin True m e) (f64_of_int n)) = 0"
  by (simp add: f64_of_int_def f64_round_def Let_def)

end
