(* ===== verification/Config.thy ===== *)
theory Config
  imports Domain Float64
begin

text \<open>
  \<open>crates/core/src/config.rs\<close>: the configuration record, its layering of environment over
  file and of shows over globals, and its validation.  Deserialisation belongs to \<open>figment\<close>
  and platform directories to \<open>etcetera\<close>: both are parameters of \<open>load\<close>.
\<close>

type_synonym duration = nat \<comment> \<open>nanoseconds\<close>

type_synonym socket_addr = string \<comment> \<open>by its \<open>Display\<close> text\<close>

section \<open>Retention\<close>

record retention =
  ret_keep_last :: "u32 option"
  ret_max_gb :: "f64 option"

definition keep_last :: "retention \<Rightarrow> u32 option" where
  "keep_last r = ret_keep_last r"

definition max_bytes :: "retention \<Rightarrow> u64 option" where
  "max_bytes r = map_option (\<lambda>gb. f64_as_u64 (f64_mul gb (f64_of_int 1000000000))) (ret_max_gb r)"

definition layered_over :: "retention \<Rightarrow> retention \<Rightarrow> retention" where
  "layered_over own fallback =
     \<lparr>ret_keep_last = or_else (ret_keep_last own) (ret_keep_last fallback),
      ret_max_gb = or_else (ret_max_gb own) (ret_max_gb fallback)\<rparr>"

section \<open>Shows\<close>

datatype 'u artwork_override = ArtUrl 'u | ArtPath path

datatype url_parse_error = UrlParseError

definition parse_artwork_override :: "'u url_ops \<Rightarrow> string \<Rightarrow> url_parse_error + 'u artwork_override" where
  "parse_artwork_override U s =
     (if starts_with ''http://'' s \<or> starts_with ''https://'' s
      then map_res ArtUrl (ok_or UrlParseError (url_parse U s))
      else Inr (ArtPath s))"

record 'u show_config =
  sc_provider :: string
  sc_slug :: show_slug
  sc_title :: "string option"
  sc_poll_interval :: "duration option"
  sc_fetch_last :: "u32 option"
  sc_artwork :: "'u artwork_override option"
  sc_retention :: "retention option"

definition show_poll_interval :: "'u show_config \<Rightarrow> duration \<Rightarrow> duration" where
  "show_poll_interval sc global_default = unwrap_or global_default (sc_poll_interval sc)"

definition show_fetch_last :: "'u show_config \<Rightarrow> u32 option \<Rightarrow> u32 option" where
  "show_fetch_last sc global_default = or_else (sc_fetch_last sc) global_default"

definition show_retention :: "'u show_config \<Rightarrow> retention \<Rightarrow> retention" where
  "show_retention sc global =
     (case sc_retention sc of Some own \<Rightarrow> layered_over own global | None \<Rightarrow> global)"

section \<open>The configuration\<close>

record 'u difm_auth =
  auth_listen_key :: "listen_key option"
  auth_api_key :: "api_key option"
  auth_base_url :: "'u option"

definition difm_auth_default :: "'u difm_auth" where
  "difm_auth_default = \<lparr>auth_listen_key = None, auth_api_key = None, auth_base_url = None\<rparr>"

record 'u otlp_config =
  otlp_endpoint :: 'u
  otlp_interval :: duration
  otlp_headers :: "(string \<times> string) list"

record 'u config =
  cfg_bind :: socket_addr
  cfg_external_base_url :: "'u option"
  cfg_data_dir :: "path option"
  cfg_poll_interval :: duration
  cfg_download_concurrency :: nat
  cfg_fetch_last :: "u32 option"
  cfg_control_socket :: "path option"
  cfg_otlp :: "'u otlp_config option"
  cfg_retention :: retention
  cfg_auth_difm :: "'u difm_auth option"
  cfg_shows :: "'u show_config list"
  cfg_source :: "path option"

datatype config_error =
    NotFound path
  | Load string
  | MissingApiKey show_slug string
  | DuplicateShow show_slug
  | Dirs string

text \<open>The \<open>defaults\<close> module.\<close>

definition seconds :: "nat \<Rightarrow> duration" where
  "seconds n = n * 1000000000"

definition default_bind :: socket_addr where
  "default_bind = ''127.0.0.1:8380''"

definition default_poll_interval :: duration where
  "default_poll_interval = seconds (30 * 60)"

definition default_provider :: string where
  "default_provider = ''difm''"

definition default_download_concurrency :: nat where
  "default_download_concurrency = 2"

definition default_otlp_interval :: duration where
  "default_otlp_interval = seconds 60"

definition difm_api_key :: "'u config \<Rightarrow> api_key option" where
  "difm_api_key c = Option.bind (cfg_auth_difm c) auth_api_key"

definition difm_listen_key :: "'u config \<Rightarrow> listen_key option" where
  "difm_listen_key c = Option.bind (cfg_auth_difm c) auth_listen_key"

definition difm_base_url :: "'u config \<Rightarrow> 'u option" where
  "difm_base_url c = Option.bind (cfg_auth_difm c) auth_base_url"

fun validate_shows :: "api_key option \<Rightarrow> show_slug set \<Rightarrow> 'u show_config list \<Rightarrow> config_error + unit" where
  "validate_shows key seen [] = Inr ()"
| "validate_shows key seen (sc # rest) =
     (if sc_slug sc \<in> seen then Inl (DuplicateShow (sc_slug sc))
      else if sc_provider sc = ''difm'' \<and> key = None
        then Inl (MissingApiKey (sc_slug sc) (sc_provider sc))
      else validate_shows key (insert (sc_slug sc) seen) rest)"

definition validate :: "'u config \<Rightarrow> config_error + unit" where
  "validate c = validate_shows (difm_api_key c) {} (cfg_shows c)"

text \<open>The process environment a load reads.\<close>

record env =
  env_config :: "string option"
  env_listen_key :: "string option"
  env_api_key :: "string option"
  env_runtime_dir :: "string option"

text \<open>\<open>choose_base_strategy()\<close>: the error text, or the configuration and data directories.\<close>

type_synonym base_dirs = "string + path \<times> path"

definition default_config_path :: "base_dirs \<Rightarrow> config_error + path" where
  "default_config_path dirs =
     bind_res (map_err Dirs dirs) (\<lambda>(conf, _). Inr (path_join (path_join conf ''splicefeed'') ''config.toml''))"

definition default_data_dir :: "base_dirs \<Rightarrow> config_error + path" where
  "default_data_dir dirs =
     bind_res (map_err Dirs dirs) (\<lambda>(_, data). Inr (path_join data ''splicefeed''))"

definition override_auth :: "env \<Rightarrow> 'u config \<Rightarrow> 'u config" where
  "override_auth E c =
     (let c1 = (case env_listen_key E of
                  None \<Rightarrow> c
                | Some k \<Rightarrow> c\<lparr>cfg_auth_difm :=
                    Some ((unwrap_or difm_auth_default (cfg_auth_difm c))\<lparr>auth_listen_key := Some (ListenKey k)\<rparr>)\<rparr>)
      in case env_api_key E of
           None \<Rightarrow> c1
         | Some k \<Rightarrow> c1\<lparr>cfg_auth_difm :=
             Some ((unwrap_or difm_auth_default (cfg_auth_difm c1))\<lparr>auth_api_key := Some (ApiKey k)\<rparr>)\<rparr>)"

definition from_figment :: "env \<Rightarrow> base_dirs \<Rightarrow> string + 'u config \<Rightarrow> config_error + 'u config" where
  "from_figment E dirs extracted =
     bind_res (map_err Load extracted) (\<lambda>c.
     let c1 = override_auth E c in
     bind_res (if cfg_data_dir c1 = None
               then map_res (\<lambda>d. c1\<lparr>cfg_data_dir := Some d\<rparr>) (default_data_dir dirs)
               else Inr c1) (\<lambda>c2.
     bind_res (validate c2) (\<lambda>_. Inr c2)))"

definition load_path :: "env \<Rightarrow> base_dirs \<Rightarrow> path option \<Rightarrow> config_error + path" where
  "load_path E dirs explicit =
     (case explicit of
        Some p \<Rightarrow> Inr p
      | None \<Rightarrow> (case env_config E of Some p \<Rightarrow> Inr p | None \<Rightarrow> default_config_path dirs))"

definition load :: "env \<Rightarrow> base_dirs \<Rightarrow> (path \<Rightarrow> bool) \<Rightarrow> (path \<Rightarrow> string + 'u config) \<Rightarrow> path option
    \<Rightarrow> config_error + 'u config" where
  "load E dirs is_file extract explicit =
     bind_res (load_path E dirs explicit) (\<lambda>p.
     if \<not> is_file p then Inl (NotFound p)
     else bind_res (from_figment E dirs (extract p)) (\<lambda>c. Inr (c\<lparr>cfg_source := Some p\<rparr>)))"

definition from_toml_str :: "env \<Rightarrow> base_dirs \<Rightarrow> (string \<Rightarrow> string + 'u config) \<Rightarrow> string
    \<Rightarrow> config_error + 'u config" where
  "from_toml_str E dirs extract toml = from_figment E dirs (extract toml)"

text \<open>\<open>None\<close> is the \<open>unreachable!\<close> panic of a configuration that was never loaded.\<close>

definition config_data_dir :: "'u config \<Rightarrow> path option" where
  "config_data_dir c = cfg_data_dir c"

definition external_base_url :: "'u url_ops \<Rightarrow> 'u config \<Rightarrow> 'u option" where
  "external_base_url U c =
     (case cfg_external_base_url c of
        Some url \<Rightarrow> Some url
      | None \<Rightarrow> url_parse U (''http://'' @ cfg_bind c))"

definition control_socket_path :: "env \<Rightarrow> 'u config \<Rightarrow> path option" where
  "control_socket_path E c =
     (case cfg_control_socket c of
        Some p \<Rightarrow> Some p
      | None \<Rightarrow>
          (case env_runtime_dir E of
             Some runtime \<Rightarrow>
               if path_absolute runtime then Some (path_join runtime ''splicefeed.sock'')
               else map_option (\<lambda>d. path_join d ''splicefeed.sock'') (config_data_dir c)
           | None \<Rightarrow> map_option (\<lambda>d. path_join d ''splicefeed.sock'') (config_data_dir c)))"

section \<open>Facts\<close>

lemma layered_over_assoc: "layered_over (layered_over a b) c = layered_over a (layered_over b c)"
  by (simp add: layered_over_def or_else_assoc)

lemma layered_over_self [simp]: "layered_over r r = r"
  by (cases r; cases "ret_keep_last r"; cases "ret_max_gb r") (simp_all add: layered_over_def)

lemma max_bytes_whole_gb:
  assumes "ret_max_gb r = Some (f64_of_int gb)" "0 \<le> gb" "gb < 9007199"
  shows "max_bytes r = Some (word_of_int (gb * 1000000000))"
  using assms f64_mul_exact [of gb 1000000000] by (simp add: max_bytes_def)

lemma validate_shows_Inr_iff:
  "validate_shows key seen scs = Inr () \<longleftrightarrow>
     distinct (map sc_slug scs) \<and> sc_slug ` set scs \<inter> seen = {} \<and>
     (\<forall>sc \<in> set scs. sc_provider sc = ''difm'' \<longrightarrow> key \<noteq> None)"
  by (induction key seen scs rule: validate_shows.induct) auto

lemma validate_shows_Inl:
  "validate_shows key seen scs = Inl e \<Longrightarrow>
     (\<exists>pre sc post. scs = pre @ sc # post \<and> validate_shows key seen pre = Inr () \<and>
        (e = DuplicateShow (sc_slug sc) \<and> sc_slug sc \<in> seen \<union> sc_slug ` set pre \<or>
         e = MissingApiKey (sc_slug sc) ''difm'' \<and> sc_provider sc = ''difm'' \<and> key = None))"
proof (induction key seen scs rule: validate_shows.induct)
  case (2 key seen sc rest)
  show ?case
  proof (cases "sc_slug sc \<in> seen \<or> sc_provider sc = ''difm'' \<and> key = None")
    case True
    with 2(2) show ?thesis
      by (intro exI [of _ "[]"] exI [of _ sc] exI [of _ rest]) (auto split: if_splits)
  next
    case False
    with 2 obtain pre sc' post where ih: "rest = pre @ sc' # post"
      "validate_shows key (insert (sc_slug sc) seen) pre = Inr ()"
      "e = DuplicateShow (sc_slug sc') \<and> sc_slug sc' \<in> insert (sc_slug sc) seen \<union> sc_slug ` set pre \<or>
       e = MissingApiKey (sc_slug sc') ''difm'' \<and> sc_provider sc' = ''difm'' \<and> key = None"
      by (auto split: if_splits)
    with False show ?thesis
      by (intro exI [of _ "sc # pre"] exI [of _ sc'] exI [of _ post]) auto
  qed
qed simp

lemma override_auth_simps [simp]:
  "cfg_shows (override_auth E c) = cfg_shows c"
  "cfg_data_dir (override_auth E c) = cfg_data_dir c"
  by (auto simp: override_auth_def Let_def split: option.splits)

lemma difm_api_key_override:
  "difm_api_key (override_auth E c) =
     (case env_api_key E of Some k \<Rightarrow> Some (ApiKey k) | None \<Rightarrow> difm_api_key c)"
  by (cases "cfg_auth_difm c")
    (auto simp: override_auth_def difm_api_key_def difm_auth_default_def Let_def split: option.splits)

lemma difm_listen_key_override:
  "difm_listen_key (override_auth E c) =
     (case env_listen_key E of Some k \<Rightarrow> Some (ListenKey k) | None \<Rightarrow> difm_listen_key c)"
  by (cases "cfg_auth_difm c")
    (auto simp: override_auth_def difm_listen_key_def difm_auth_default_def Let_def split: option.splits)

lemma auth_data_dir_indep [simp]:
  "difm_api_key (c\<lparr>cfg_data_dir := d\<rparr>) = difm_api_key c"
  "difm_listen_key (c\<lparr>cfg_data_dir := d\<rparr>) = difm_listen_key c"
  by (simp_all add: difm_api_key_def difm_listen_key_def)

text \<open>What every configuration that reaches the daemon satisfies.\<close>

definition loaded :: "'u config \<Rightarrow> bool" where
  "loaded c \<longleftrightarrow> cfg_data_dir c \<noteq> None \<and> validate c = Inr ()"

lemma from_figment_Inr:
  assumes "from_figment E dirs (Inr c) = Inr c'"
  shows "loaded c'" "cfg_shows c' = cfg_shows c"
    "difm_api_key c' = difm_api_key (override_auth E c)"
    "difm_listen_key c' = difm_listen_key (override_auth E c)"
    "cfg_data_dir c \<noteq> None \<Longrightarrow> cfg_data_dir c' = cfg_data_dir c"
  using assms
  by (auto simp: from_figment_def loaded_def Let_def bind_res_Inr_iff map_res_Inr_iff split: if_splits)

section \<open>Properties\<close>

text \<open>
  C36: Validation accepts exactly the configurations without duplicate slugs whose \<open>difm\<close>
  shows have a member API key; a rejection names the first offending show, and says which of
  the two rules it broke.
\<close>

theorem validate_exact:
  "(validate c = Inr () \<longleftrightarrow>
      distinct (map sc_slug (cfg_shows c)) \<and>
      ((\<exists>sc \<in> set (cfg_shows c). sc_provider sc = ''difm'') \<longrightarrow> difm_api_key c \<noteq> None)) \<and>
   (\<forall>e. validate c = Inl e \<longrightarrow>
      (\<exists>pre sc post. cfg_shows c = pre @ sc # post \<and> validate (c\<lparr>cfg_shows := pre\<rparr>) = Inr () \<and>
         (e = DuplicateShow (sc_slug sc) \<and> sc_slug sc \<in> sc_slug ` set pre \<or>
          e = MissingApiKey (sc_slug sc) ''difm'' \<and> sc_provider sc = ''difm'' \<and> difm_api_key c = None)))"
proof -
  have "difm_api_key (c\<lparr>cfg_shows := pre\<rparr>) = difm_api_key c" for pre
    by (simp add: difm_api_key_def)
  then show ?thesis
    using validate_shows_Inl [of "difm_api_key c" "{}" "cfg_shows c"]
    by (auto simp: validate_def validate_shows_Inr_iff)
qed

abbreviation demo_show :: "string \<Rightarrow> string show_config" where
  "demo_show s \<equiv> \<lparr>sc_provider = ''difm'', sc_slug = ShowSlug s, sc_title = None,
     sc_poll_interval = None, sc_fetch_last = Some 3, sc_artwork = None, sc_retention = None\<rparr>"

abbreviation demo_config :: "string config" where
  "demo_config \<equiv> \<lparr>cfg_bind = default_bind, cfg_external_base_url = None, cfg_data_dir = None,
     cfg_poll_interval = default_poll_interval, cfg_download_concurrency = 2, cfg_fetch_last = None,
     cfg_control_socket = None, cfg_otlp = None,
     cfg_retention = \<lparr>ret_keep_last = Some 50, ret_max_gb = None\<rparr>,
     cfg_auth_difm = None, cfg_shows = [demo_show ''a'', demo_show ''b''], cfg_source = None\<rparr>"

theorem validate_exact_witness:
  "validate demo_config = Inl (MissingApiKey (ShowSlug ''a'') ''difm'') \<and>
   difm_api_key demo_config = None"
proof -
  have "difm_api_key demo_config = None" by (simp add: difm_api_key_def)
  moreover from this have "validate demo_config \<noteq> Inr ()"
    using conjunct1 [OF validate_exact [of demo_config]] by simp
  ultimately show ?thesis by (simp add: validate_def)
qed

text \<open>
  Every configuration that loads is usable: its data directory is resolved (so
  \<open>data_dir()\<close> cannot panic), it passes validation, and a credential in the environment wins
  over the one in the file.
\<close>

theorem loaded_config_usable:
  assumes "from_figment E dirs (Inr c) = Inr c'"
  shows "config_data_dir c' \<noteq> None \<and> validate c' = Inr () \<and>
    difm_api_key c' = (case env_api_key E of Some k \<Rightarrow> Some (ApiKey k) | None \<Rightarrow> difm_api_key c) \<and>
    difm_listen_key c' =
      (case env_listen_key E of Some k \<Rightarrow> Some (ListenKey k) | None \<Rightarrow> difm_listen_key c)"
  using from_figment_Inr [OF assms]
  by (auto simp: loaded_def config_data_dir_def difm_api_key_override difm_listen_key_override)

abbreviation demo_env :: env where
  "demo_env \<equiv> \<lparr>env_config = None, env_listen_key = None, env_api_key = Some ''k'', env_runtime_dir = None\<rparr>"

theorem loaded_config_usable_witness:
  "\<exists>c'. from_figment demo_env (Inr (''/c'', ''/d'')) (Inr demo_config) = Inr c' \<and>
     config_data_dir c' \<noteq> None \<and> validate c' = Inr () \<and> difm_api_key c' = Some (ApiKey ''k'')"
proof -
  have "\<exists>c'. from_figment demo_env (Inr (''/c'', ''/d'')) (Inr demo_config) = Inr c'"
    by (simp add: from_figment_def override_auth_def Let_def default_data_dir_def validate_def
        difm_api_key_def)
  then obtain c' where c': "from_figment demo_env (Inr (''/c'', ''/d'')) (Inr demo_config) = Inr c'" ..
  with loaded_config_usable [OF c'] show ?thesis by simp
qed

end
