(* ===== verification/Retention.thy ===== *)
theory Retention
  imports Config "HOL-Library.Sublist"
begin

text \<open>
  \<open>crates/core/src/retention.rs\<close>: which episodes a policy keeps.  \<open>split\<close> is the loop of
  the source on its machine integers; \<open>greedy\<close> is the same decision on natural numbers, and
  the two agree as long as the sizes add up below \<open>2 ^ 64\<close>.
\<close>

record candidate =
  cand_id :: episode_id
  cand_bytes :: u64

text \<open>\<open>kept.len() as u32 >= n\<close>.\<close>

definition over_count :: "retention \<Rightarrow> 'a list \<Rightarrow> bool" where
  "over_count policy kept =
     (case keep_last policy of None \<Rightarrow> False | Some n \<Rightarrow> n \<le> (of_nat (length kept) :: u32))"

definition over_bytes :: "retention \<Rightarrow> 'a list \<Rightarrow> u64 \<Rightarrow> u64 \<Rightarrow> bool" where
  "over_bytes policy kept kept_bytes b \<longleftrightarrow>
     kept \<noteq> [] \<and> (case max_bytes policy of None \<Rightarrow> False | Some mx \<Rightarrow> mx < kept_bytes + b)"

fun split_loop :: "retention \<Rightarrow> u64 \<Rightarrow> episode_id list \<Rightarrow> episode_id list \<Rightarrow> candidate list
    \<Rightarrow> episode_id list \<times> episode_id list" where
  "split_loop policy kept_bytes kept doomed [] = (kept, doomed)"
| "split_loop policy kept_bytes kept doomed (c # cs) =
     (if over_count policy kept \<or> over_bytes policy kept kept_bytes (cand_bytes c)
      then split_loop policy kept_bytes kept (doomed @ [cand_id c]) cs
      else split_loop policy (kept_bytes + cand_bytes c) (kept @ [cand_id c]) doomed cs)"

definition split :: "retention \<Rightarrow> candidate list \<Rightarrow> episode_id list \<times> episode_id list" where
  "split policy newest_first =
     (let (kept, doomed) = split_loop policy 0 [] [] newest_first in (kept, rev doomed))"

definition plan :: "retention \<Rightarrow> candidate list \<Rightarrow> episode_id list" where
  "plan policy newest_first = snd (split policy newest_first)"

section \<open>What any planner promises the sync engine\<close>

locale retention_planner =
  fixes split_fn :: "'p \<Rightarrow> 'c list \<Rightarrow> 'i list \<times> 'i list"
    and cid :: "'c \<Rightarrow> 'i"
  assumes partition: "mset (fst (split_fn p cs)) + mset (snd (split_fn p cs)) = mset (map cid cs)"
    and kept_order: "subseq (fst (split_fn p cs)) (map cid cs)"
    and doomed_order: "subseq (rev (snd (split_fn p cs))) (map cid cs)"
begin

lemma set_partition: "set (fst (split_fn p cs)) \<union> set (snd (split_fn p cs)) = cid ` set cs"
  using arg_cong [OF partition [of p cs], of set_mset] by simp

lemma kept_subset: "set (fst (split_fn p cs)) \<subseteq> cid ` set cs"
  using set_partition [of p cs] by blast

lemma doomed_subset: "set (snd (split_fn p cs)) \<subseteq> cid ` set cs"
  using set_partition [of p cs] by blast

lemma length_partition: "length (fst (split_fn p cs)) + length (snd (split_fn p cs)) = length cs"
  using arg_cong [OF partition [of p cs], of size] by simp

lemma parts_distinct:
  assumes "distinct (map cid cs)"
  shows "distinct (fst (split_fn p cs) @ snd (split_fn p cs))"
  using assms partition [of p cs] by (metis mset_append mset_eq_imp_distinct_iff)

lemma kept_doomed_disjoint:
  "distinct (map cid cs) \<Longrightarrow> set (fst (split_fn p cs)) \<inter> set (snd (split_fn p cs)) = {}"
  using parts_distinct [of cs p] by simp

end

section \<open>The loop partitions its input in order\<close>

text \<open>
  The loop only ever appends, so it is enough to describe the two lists it adds.  The
  decisions are those of \<open>chosen\<close>, the candidates it keeps.
\<close>

fun chosen :: "retention \<Rightarrow> u64 \<Rightarrow> nat \<Rightarrow> candidate list \<Rightarrow> candidate list" where
  "chosen policy kb k [] = []"
| "chosen policy kb k (c # cs) =
     (if over_count policy (replicate k c) \<or> over_bytes policy (replicate k c) kb (cand_bytes c)
      then chosen policy kb k cs
      else c # chosen policy (kb + cand_bytes c) (Suc k) cs)"

fun rejected :: "retention \<Rightarrow> u64 \<Rightarrow> nat \<Rightarrow> candidate list \<Rightarrow> candidate list" where
  "rejected policy kb k [] = []"
| "rejected policy kb k (c # cs) =
     (if over_count policy (replicate k c) \<or> over_bytes policy (replicate k c) kb (cand_bytes c)
      then c # rejected policy kb k cs
      else rejected policy (kb + cand_bytes c) (Suc k) cs)"

lemma over_count_length: "length xs = length ys \<Longrightarrow> over_count p xs = over_count p ys"
  by (simp only: over_count_def)

lemma over_bytes_length: "length xs = length ys \<Longrightarrow> over_bytes p xs kb b = over_bytes p ys kb b"
  unfolding over_bytes_def by (metis length_0_conv)

lemma split_loop_eq:
  "split_loop policy kb kept doomed cs =
     (kept @ map cand_id (chosen policy kb (length kept) cs),
      doomed @ map cand_id (rejected policy kb (length kept) cs))"
proof (induction cs arbitrary: kb kept doomed)
  case (Cons c cs)
  have "over_count policy (replicate (length kept) c) = over_count policy kept"
    "over_bytes policy (replicate (length kept) c) kb (cand_bytes c) = over_bytes policy kept kb (cand_bytes c)"
    by (rule over_count_length over_bytes_length, simp)+
  then show ?case using Cons.IH by simp
qed simp

lemma split_eq:
  "split policy cs =
     (map cand_id (chosen policy 0 0 cs), rev (map cand_id (rejected policy 0 0 cs)))"
  by (simp add: split_def split_loop_eq)

lemma mset_chosen_rejected: "mset (chosen p kb k cs) + mset (rejected p kb k cs) = mset cs"
  by (induction p kb k cs rule: chosen.induct) auto

lemma subseq_chosen: "subseq (chosen p kb k cs) cs"
  by (induction p kb k cs rule: chosen.induct) auto

lemma subseq_rejected: "subseq (rejected p kb k cs) cs"
  by (induction p kb k cs rule: rejected.induct) auto

interpretation planner: retention_planner split cand_id
proof unfold_locales
  fix p and cs :: "candidate list"
  show "mset (fst (split p cs)) + mset (snd (split p cs)) = mset (map cand_id cs)"
    using mset_chosen_rejected [of p 0 0 cs] by (simp add: split_eq flip: image_mset_union)
  show "subseq (fst (split p cs)) (map cand_id cs)"
    by (simp add: split_eq subseq_map subseq_chosen)
  show "subseq (rev (snd (split p cs))) (map cand_id cs)"
    by (simp add: split_eq subseq_map subseq_rejected)
qed

section \<open>The decision on natural numbers\<close>

definition total_bytes :: "candidate list \<Rightarrow> nat" where
  "total_bytes cs = sum_list (map (\<lambda>c. unat (cand_bytes c)) cs)"

definition fits :: "nat option \<Rightarrow> nat option \<Rightarrow> candidate list \<Rightarrow> candidate \<Rightarrow> bool" where
  "fits limit cap kept c \<longleftrightarrow>
     (case limit of None \<Rightarrow> True | Some n \<Rightarrow> length kept < n) \<and>
     (kept = [] \<or> (case cap of None \<Rightarrow> True | Some mx \<Rightarrow> total_bytes kept + unat (cand_bytes c) \<le> mx))"

text \<open>Walk newest to oldest, keeping each candidate that fits beside those already kept.\<close>

fun greedy :: "nat option \<Rightarrow> nat option \<Rightarrow> candidate list \<Rightarrow> candidate list \<Rightarrow> candidate list" where
  "greedy limit cap kept [] = kept"
| "greedy limit cap kept (c # cs) =
     (if fits limit cap kept c then greedy limit cap (kept @ [c]) cs else greedy limit cap kept cs)"

definition count_limit :: "retention \<Rightarrow> nat option" where
  "count_limit p = map_option unat (keep_last p)"

definition byte_cap :: "retention \<Rightarrow> nat option" where
  "byte_cap p = map_option unat (max_bytes p)"

lemma total_bytes_simps [simp]:
  "total_bytes [] = 0"
  "total_bytes (c # cs) = unat (cand_bytes c) + total_bytes cs"
  "total_bytes (xs @ ys) = total_bytes xs + total_bytes ys"
  by (simp_all add: total_bytes_def)

lemma over_count_fits:
  assumes "length kept < 2 ^ 32"
  shows "over_count p (replicate (length kept) c) \<longleftrightarrow>
    \<not> (case count_limit p of None \<Rightarrow> True | Some n \<Rightarrow> length kept < n)"
  using assms
  by (auto simp: over_count_def count_limit_def word_le_nat_alt unat_of_nat split: option.splits)

lemma over_bytes_fits:
  assumes "unat kb = total_bytes kept" "total_bytes kept + unat b < 2 ^ 64"
  shows "over_bytes p (replicate (length kept) c) kb b \<longleftrightarrow>
    \<not> (kept = [] \<or> (case byte_cap p of None \<Rightarrow> True | Some mx \<Rightarrow> total_bytes kept + unat b \<le> mx))"
proof -
  have "unat (kb + b) = total_bytes kept + unat b"
    using assms by (simp add: unat_add_no_wrap)
  then show ?thesis
    by (auto simp: over_bytes_def byte_cap_def word_less_nat_alt split: option.splits)
qed

lemma chosen_greedy:
  assumes "unat kb = total_bytes kept"
    "total_bytes kept + total_bytes cs < 2 ^ 64" "length kept + length cs < 2 ^ 32"
  shows "kept @ chosen p kb (length kept) cs = greedy (count_limit p) (byte_cap p) kept cs"
  using assms
proof (induction cs arbitrary: kb kept)
  case (Cons c cs)
  have decide: "(over_count p (replicate (length kept) c) \<or>
      over_bytes p (replicate (length kept) c) kb (cand_bytes c)) \<longleftrightarrow>
    \<not> fits (count_limit p) (byte_cap p) kept c"
    using Cons.prems over_count_fits [of kept p c] over_bytes_fits [of kb kept "cand_bytes c" p c]
    by (auto simp: fits_def)
  show ?case
  proof (cases "fits (count_limit p) (byte_cap p) kept c")
    case True
    have "unat (kb + cand_bytes c) = total_bytes (kept @ [c])"
      using Cons.prems by (simp add: unat_add_no_wrap)
    with Cons.IH [of "kb + cand_bytes c" "kept @ [c]"] Cons.prems decide True show ?thesis
      by simp
  next
    case False
    with Cons.IH [of kb kept] Cons.prems decide show ?thesis by simp
  qed
qed simp

lemma split_greedy:
  assumes "total_bytes cs < 2 ^ 64" "length cs < 2 ^ 32"
  shows "fst (split p cs) = map cand_id (greedy (count_limit p) (byte_cap p) [] cs)"
  using chosen_greedy [of 0 "[]" cs p] assms by (simp add: split_eq)

section \<open>Facts about the greedy walk\<close>

lemma greedy_append:
  "greedy limit cap kept (xs @ ys) = greedy limit cap (greedy limit cap kept xs) ys"
  by (induction limit cap kept xs rule: greedy.induct) simp_all

lemma greedy_within:
  assumes "case limit of None \<Rightarrow> True | Some n \<Rightarrow> length kept \<le> n"
    "length kept \<le> 1 \<or> (case cap of None \<Rightarrow> True | Some mx \<Rightarrow> total_bytes kept \<le> mx)"
  shows "(case limit of None \<Rightarrow> True | Some n \<Rightarrow> length (greedy limit cap kept cs) \<le> n) \<and>
    (length (greedy limit cap kept cs) \<le> 1 \<or>
     (case cap of None \<Rightarrow> True | Some mx \<Rightarrow> total_bytes (greedy limit cap kept cs) \<le> mx))"
  using assms
  by (induction limit cap kept cs rule: greedy.induct)
    (auto simp: fits_def add.commute split: option.splits)

lemma greedy_extends: "\<exists>rest. greedy limit cap kept cs = kept @ rest"
  by (induction limit cap kept cs rule: greedy.induct) auto

lemma greedy_count_only: "greedy (Some n) None kept cs = kept @ take (n - length kept) cs"
proof (induction cs arbitrary: kept)
  case (Cons c cs)
  then show ?case
    by (cases "length kept < n") (auto simp: fits_def Suc_diff_Suc [symmetric])
qed simp

lemma greedy_unlimited: "greedy None None kept cs = kept @ cs"
  by (induction cs arbitrary: kept) (auto simp: fits_def)

lemma chosen_stable: "chosen p kb k (chosen p kb k cs) = chosen p kb k cs"
proof (induction p kb k cs rule: chosen.induct)
  case (2 p kb k c cs)
  then show ?case by (auto)
qed simp

lemma rejected_chosen: "rejected p kb k (chosen p kb k cs) = []"
  by (induction p kb k cs rule: chosen.induct) auto

lemma filter_eq_or: "c \<notin> set cs \<Longrightarrow> filter (\<lambda>x. x = c \<or> P x) cs = filter P cs"
  by (rule filter_cong) auto

lemma filter_chosen:
  assumes "distinct (map cand_id cs)"
  shows "filter (\<lambda>c. cand_id c \<in> cand_id ` set (chosen p kb k cs)) cs = chosen p kb k cs"
proof -
  have "inj_on cand_id (set cs)" using assms by (simp add: distinct_map)
  moreover have sub: "set (chosen p kb k cs) \<subseteq> set cs"
    using mset_chosen_rejected [of p kb k cs] by (metis mset_subset_eq_add_left set_mset_mono set_mset_mset)
  ultimately have "filter (\<lambda>c. cand_id c \<in> cand_id ` set (chosen p kb k cs)) cs =
      filter (\<lambda>c. c \<in> set (chosen p kb k cs)) cs"
    by (intro filter_cong) (auto dest: inj_onD)
  also have "\<dots> = chosen p kb k cs"
    using assms
  proof (induction p kb k cs rule: chosen.induct)
    case (2 p kb k c cs)
    have "c \<notin> set cs" using 2(3) by auto
    moreover have "set (chosen p kb' k' cs) \<subseteq> set cs" for kb' k'
      using mset_chosen_rejected [of p kb' k' cs]
      by (metis mset_subset_eq_add_left set_mset_mono set_mset_mset)
    ultimately show ?case using 2 by (auto simp: filter_eq_or)
  qed simp
  finally show ?thesis .
qed

section \<open>Properties\<close>

text \<open>
  \<open>split\<close> never loses, duplicates or reorders an episode.  For every policy and every
  listing the kept ids and the doomed ids together are exactly the listed ids, the kept ones
  stay newest-first and the doomed ones come out oldest-first.
\<close>

lemma split_partitions:
  "mset (fst (split p cs)) + mset (snd (split p cs)) = mset (map cand_id cs) \<and>
   subseq (fst (split p cs)) (map cand_id cs) \<and>
   subseq (rev (snd (split p cs))) (map cand_id cs)"
  by (intro conjI planner.partition planner.kept_order planner.doomed_order)

text \<open>
  C33: On the machine integers of the source (a \<open>u64\<close> byte counter, a \<open>u32\<close> length) the
  planner computes the greedy walk over unbounded numbers, whenever the listed sizes add up
  below \<open>2 ^ 64\<close>; it then respects both limits: at most \<open>keep_last\<close> episodes, and no more
  bytes than the cap unless a single episode is all that is kept.
\<close>

theorem split_is_greedy_within_limits:
  assumes "total_bytes cs < 2 ^ 64" "length cs < 2 ^ 32"
  shows "\<exists>kept. fst (split p cs) = map cand_id kept \<and>
    kept = greedy (count_limit p) (byte_cap p) [] cs \<and> subseq kept cs \<and>
    (\<forall>n. keep_last p = Some n \<longrightarrow> length kept \<le> unat n) \<and>
    (\<forall>mx. max_bytes p = Some mx \<longrightarrow> length kept \<le> 1 \<or> total_bytes kept \<le> unat mx)"
proof -
  let ?kept = "greedy (count_limit p) (byte_cap p) [] cs"
  have "?kept = chosen p 0 0 cs" using chosen_greedy [of 0 "[]" cs p] assms by simp
  then have "subseq ?kept cs" by (simp add: subseq_chosen)
  moreover have "(case count_limit p of None \<Rightarrow> True | Some n \<Rightarrow> length ?kept \<le> n) \<and>
    (length ?kept \<le> 1 \<or> (case byte_cap p of None \<Rightarrow> True | Some mx \<Rightarrow> total_bytes ?kept \<le> mx))"
    by (rule greedy_within) (auto split: option.splits)
  ultimately show ?thesis
    using split_greedy [OF assms, of p] by (auto simp: count_limit_def byte_cap_def)
qed

abbreviation demo_candidates :: "candidate list" where
  "demo_candidates \<equiv>
     [\<lparr>cand_id = EpisodeId ''162'', cand_bytes = 100000000\<rparr>,
      \<lparr>cand_id = EpisodeId ''161'', cand_bytes = 100000000\<rparr>,
      \<lparr>cand_id = EpisodeId ''160'', cand_bytes = 100000000\<rparr>]"

abbreviation demo_policy :: retention where
  "demo_policy \<equiv> \<lparr>ret_keep_last = Some 3, ret_max_gb = Some (Fin False 1 (- 2))\<rparr>"

theorem split_is_greedy_within_limits_witness:
  "\<exists>kept. fst (split demo_policy demo_candidates) = map cand_id kept \<and>
    kept = greedy (count_limit demo_policy) (byte_cap demo_policy) [] demo_candidates \<and>
    subseq kept demo_candidates \<and>
    (\<forall>n. keep_last demo_policy = Some n \<longrightarrow> length kept \<le> unat n) \<and>
    (\<forall>mx. max_bytes demo_policy = Some mx \<longrightarrow> length kept \<le> 1 \<or> total_bytes kept \<le> unat mx)"
  by (rule split_is_greedy_within_limits) simp_all

text \<open>
  The byte cap never empties a feed.  Unless \<open>keep_last\<close> is 0, the newest candidate is
  kept, whatever its size and whatever the cap.
\<close>

theorem split_keeps_newest:
  assumes "keep_last p \<noteq> Some 0"
  shows "\<exists>rest. fst (split p (c # cs)) = cand_id c # rest"
proof -
  have "\<not> over_count p ([] :: candidate list)" using assms by (auto simp: over_count_def split: option.splits)
  then show ?thesis by (simp add: split_eq over_bytes_def)
qed

theorem split_keeps_newest_witness:
  "\<exists>rest. fst (split demo_policy demo_candidates) = cand_id (hd demo_candidates) # rest"
  using split_keeps_newest [of demo_policy "hd demo_candidates" "tl demo_candidates"]
  by (simp add: keep_last_def)

text \<open>
  Planning is stable.  Running the planner again over the episodes it kept, with the same
  sizes, rejects nothing: a poll that finds the library as the last one left it prunes nothing.
\<close>

theorem plan_stable:
  assumes "distinct (map cand_id cs)"
  shows "plan p (filter (\<lambda>c. cand_id c \<in> set (fst (split p cs))) cs) = []"
  using filter_chosen [OF assms, of p 0 0] by (simp add: plan_def split_eq rejected_chosen)

theorem plan_stable_witness:
  "plan demo_policy
     (filter (\<lambda>c. cand_id c \<in> set (fst (split demo_policy demo_candidates))) demo_candidates) = []"
  by (rule plan_stable) simp

end
