(* ===== verification/Storage.thy ===== *)
theory Storage
  imports Domain
begin

text \<open>
  \<open>crates/core/src/storage.rs\<close>: the SQLite state.  The two tables are lists of raw rows whose
  columns hold what SQLite holds (text, 64-bit integers, NULL); every operation of the
  \<open>Storage\<close> handle is a function from a database to a result and the next database, and an
  error leaves the database as it was (the transaction is dropped).  Reading decodes rows
  into records and may report a corrupt one.

  The text form of a timestamp belongs to \<open>jiff\<close> and that of a hash to \<open>blake3\<close>; both are
  fields of a \<^emph>\<open>codec\<close> parameter.  Timestamps are nanoseconds.
\<close>

section \<open>Values of the storage layer\<close>

type_synonym hash = string \<comment> \<open>the 32 bytes of a \<open>blake3::Hash\<close>\<close>

record codec =
  ts_show :: "timestamp \<Rightarrow> string"
  ts_parse :: "string \<Rightarrow> timestamp option"
  hash_to_hex :: "hash \<Rightarrow> string"
  hash_from_hex :: "string \<Rightarrow> hash option"

text \<open>Documented behaviour of both crates: \<open>Display\<close> output parses back to the same value.\<close>

definition codec_ok :: "codec \<Rightarrow> bool" where
  "codec_ok X \<longleftrightarrow>
     (\<forall>t. ts_parse X (ts_show X t) = Some t) \<and> (\<forall>h. hash_from_hex X (hash_to_hex X h) = Some h)"

datatype corrupt_reason =
    BadColumn string string
  | NullErrorClass
  | UnknownState string

datatype sqlite_error =
    ForeignKeyViolation
  | IntegerOutOfRange int
  | SchemaConflict string

datatype storage_error =
    DataDir path string
  | Sqlite sqlite_error
  | Corrupt string corrupt_reason
  | IllegalTransition show_slug episode_id episode_state episode_state
  | EpisodeNotFound show_slug episode_id
  | TaskFailed

record show_record =
  rs_slug :: show_slug
  rs_provider :: string
  rs_title :: string
  rs_description :: "string option"
  rs_artwork_path :: "path option"
  rs_last_poll_at :: "timestamp option"
  rs_last_poll_ok :: "bool option"
  rs_last_error :: "string option"
  rs_episodes_etag :: "string option"

record episode_record =
  r_show :: show_slug
  r_id :: episode_id
  r_title :: string
  r_description :: "string option"
  r_published_at :: "timestamp option"
  r_duration_secs :: "u32 option"
  r_state :: episode_state
  r_file_path :: "path option"
  r_bytes :: "u64 option"
  r_blake3 :: "hash option"
  r_mime :: "audio_mime option"
  r_discovered_at :: timestamp
  r_downloaded_at :: "timestamp option"
  r_bytes_done :: "u64 option"
  r_bytes_total :: "u64 option"
  r_progress_at :: "timestamp option"

record cached_file =
  cf_file_path :: path
  cf_bytes :: u64
  cf_blake3 :: hash
  cf_mime :: "audio_mime option"
  cf_duration_secs :: "u32 option"

section \<open>Rows\<close>

record show_row =
  s_slug :: string
  s_provider :: string
  s_title :: string
  s_description :: "string option"
  s_artwork_path :: "string option"
  s_last_poll_at :: "string option"
  s_last_poll_ok :: "int option"
  s_last_error :: "string option"
  s_episodes_etag :: "string option"

record episode_row =
  e_show_slug :: string
  e_id :: string
  e_title :: string
  e_description :: "string option"
  e_published_at :: "string option"
  e_duration_secs :: "int option"
  e_state :: string
  e_error_class :: "string option"
  e_file_path :: "string option"
  e_bytes :: "int option"
  e_blake3 :: "string option"
  e_mime :: "string option"
  e_discovered_at :: string
  e_downloaded_at :: "string option"
  e_bytes_done :: "int option"
  e_bytes_total :: "int option"
  e_progress_at :: "string option"

record db =
  show_rows :: "show_row list"
  episode_rows :: "episode_row list"

definition empty_db :: db where
  "empty_db = \<lparr>show_rows = [], episode_rows = []\<rparr>"

text \<open>\<open>UPDATE .. SET .. WHERE ..\<close> and the number of rows it changed.\<close>

definition update_where :: "('r \<Rightarrow> bool) \<Rightarrow> ('r \<Rightarrow> 'r) \<Rightarrow> 'r list \<Rightarrow> 'r list" where
  "update_where P f rows = map (\<lambda>r. if P r then f r else r) rows"

definition count_where :: "('r \<Rightarrow> bool) \<Rightarrow> 'r list \<Rightarrow> nat" where
  "count_where P rows = length (filter P rows)"

definition is_episode :: "show_slug \<Rightarrow> episode_id \<Rightarrow> episode_row \<Rightarrow> bool" where
  "is_episode show i r \<longleftrightarrow> e_show_slug r = slug_str show \<and> e_id r = id_str i"

definition is_show :: "show_slug \<Rightarrow> show_row \<Rightarrow> bool" where
  "is_show slug r \<longleftrightarrow> s_slug r = slug_str slug"

type_synonym 'a stored = "storage_error + 'a \<times> db"

section \<open>Decoding\<close>

definition parse_col :: "string \<Rightarrow> string \<Rightarrow> (string \<Rightarrow> 'a option) \<Rightarrow> string \<Rightarrow> storage_error + 'a" where
  "parse_col table column parse raw =
     (case parse raw of Some a \<Rightarrow> Inr a | None \<Rightarrow> Inl (Corrupt table (BadColumn column raw)))"

definition decode_state :: "string \<Rightarrow> string option \<Rightarrow> storage_error + episode_state" where
  "decode_state st cls =
     (if st = ''discovered'' then Inr Discovered
      else if st = ''downloading'' then Inr Downloading
      else if st = ''cached'' then Inr Cached
      else if st = ''pruned'' then Inr Pruned
      else if st = ''failed'' then
        (case cls of
           Some c \<Rightarrow> map_res Failed (parse_col ''episodes'' ''error_class'' (\<lambda>s. ok (parse_error_class s)) c)
         | None \<Rightarrow> Inl (Corrupt ''episodes'' NullErrorClass))
      else Inl (Corrupt ''episodes'' (UnknownState st)))"

text \<open>\<open>row.get::<Option<u32>>\<close>: an integer that does not fit is a conversion error.\<close>

definition row_get_u32 :: "int option \<Rightarrow> storage_error + u32 option" where
  "row_get_u32 v =
     traverse_opt (\<lambda>i. ok_or (Sqlite (IntegerOutOfRange i)) (u32_try_from i)) v"

definition decode_show :: "codec \<Rightarrow> show_row \<Rightarrow> storage_error + show_record" where
  "decode_show X r =
     bind_res (parse_col ''shows'' ''slug'' (\<lambda>s. ok (parse_show_slug s)) (s_slug r)) (\<lambda>slug.
     bind_res (traverse_opt (parse_col ''shows'' ''last_poll_at'' (ts_parse X)) (s_last_poll_at r)) (\<lambda>poll_at.
     Inr \<lparr>rs_slug = slug, rs_provider = s_provider r, rs_title = s_title r,
          rs_description = s_description r, rs_artwork_path = s_artwork_path r,
          rs_last_poll_at = poll_at, rs_last_poll_ok = map_option (\<lambda>i. i \<noteq> 0) (s_last_poll_ok r),
          rs_last_error = s_last_error r, rs_episodes_etag = s_episodes_etag r\<rparr>))"

definition decode_episode :: "codec \<Rightarrow> episode_row \<Rightarrow> storage_error + episode_record" where
  "decode_episode X r =
     bind_res (parse_col ''episodes'' ''show_slug'' (\<lambda>s. ok (parse_show_slug s)) (e_show_slug r)) (\<lambda>show.
     bind_res (parse_col ''episodes'' ''provider_episode_id'' (\<lambda>s. ok (parse_episode_id s)) (e_id r)) (\<lambda>i.
     bind_res (traverse_opt (parse_col ''episodes'' ''published_at'' (ts_parse X)) (e_published_at r)) (\<lambda>published.
     bind_res (row_get_u32 (e_duration_secs r)) (\<lambda>duration.
     bind_res (decode_state (e_state r) (e_error_class r)) (\<lambda>st.
     bind_res (traverse_opt (parse_col ''episodes'' ''blake3'' (hash_from_hex X)) (e_blake3 r)) (\<lambda>hash.
     bind_res (parse_col ''episodes'' ''discovered_at'' (ts_parse X) (e_discovered_at r)) (\<lambda>discovered.
     bind_res (traverse_opt (parse_col ''episodes'' ''downloaded_at'' (ts_parse X)) (e_downloaded_at r)) (\<lambda>downloaded.
     bind_res (traverse_opt (parse_col ''episodes'' ''progress_at'' (ts_parse X)) (e_progress_at r)) (\<lambda>progress.
     Inr \<lparr>r_show = show, r_id = i, r_title = e_title r, r_description = e_description r,
          r_published_at = published, r_duration_secs = duration, r_state = st,
          r_file_path = e_file_path r, r_bytes = map_option u64_of_i64 (e_bytes r),
          r_blake3 = hash, r_mime = map_option mime_from (e_mime r),
          r_discovered_at = discovered, r_downloaded_at = downloaded,
          r_bytes_done = map_option u64_of_i64 (e_bytes_done r),
          r_bytes_total = map_option u64_of_i64 (e_bytes_total r),
          r_progress_at = progress\<rparr>)))))))))"

section \<open>Shows\<close>

definition new_show_row :: "'u show_meta \<Rightarrow> string \<Rightarrow> show_row" where
  "new_show_row meta provider =
     \<lparr>s_slug = slug_str (sm_slug meta), s_provider = provider, s_title = sm_title meta,
      s_description = sm_description meta, s_artwork_path = None, s_last_poll_at = None,
      s_last_poll_ok = None, s_last_error = None, s_episodes_etag = None\<rparr>"

definition upsert_show :: "'u show_meta \<Rightarrow> string \<Rightarrow> db \<Rightarrow> unit stored" where
  "upsert_show meta provider d =
     Inr ((), d\<lparr>show_rows :=
       (if list_ex (is_show (sm_slug meta)) (show_rows d)
        then update_where (is_show (sm_slug meta))
               (\<lambda>r. r\<lparr>s_provider := provider, s_title := sm_title meta, s_description := sm_description meta\<rparr>)
               (show_rows d)
        else show_rows d @ [new_show_row meta provider])\<rparr>)"

definition record_poll :: "codec \<Rightarrow> timestamp \<Rightarrow> show_slug \<Rightarrow> string option \<Rightarrow> db \<Rightarrow> unit stored" where
  "record_poll X now show err d =
     Inr ((), d\<lparr>show_rows := update_where (is_show show)
       (\<lambda>r. r\<lparr>s_last_poll_at := Some (ts_show X now),
              s_last_poll_ok := Some (if err = None then 1 else 0),
              s_last_error := err\<rparr>) (show_rows d)\<rparr>)"

definition storage_shows :: "codec \<Rightarrow> db \<Rightarrow> storage_error + show_record list" where
  "storage_shows X d = collect_res (map (decode_show X) (sort_key s_slug (show_rows d)))"

definition set_artwork_path :: "show_slug \<Rightarrow> path \<Rightarrow> db \<Rightarrow> unit stored" where
  "set_artwork_path slug p d =
     Inr ((), d\<lparr>show_rows := update_where (is_show slug) (\<lambda>r. r\<lparr>s_artwork_path := Some p\<rparr>) (show_rows d)\<rparr>)"

definition set_episodes_etag :: "show_slug \<Rightarrow> string option \<Rightarrow> db \<Rightarrow> unit stored" where
  "set_episodes_etag slug etag d =
     Inr ((), d\<lparr>show_rows := update_where (is_show slug) (\<lambda>r. r\<lparr>s_episodes_etag := etag\<rparr>) (show_rows d)\<rparr>)"

definition storage_show :: "codec \<Rightarrow> show_slug \<Rightarrow> db \<Rightarrow> storage_error + show_record option" where
  "storage_show X slug d =
     (case List.find (is_show slug) (show_rows d) of
        None \<Rightarrow> Inr None
      | Some r \<Rightarrow> map_res Some (decode_show X r))"

section \<open>Episodes\<close>

definition clear_progress :: "episode_row \<Rightarrow> episode_row" where
  "clear_progress r = r\<lparr>e_bytes_done := None, e_bytes_total := None, e_progress_at := None\<rparr>"

text \<open>\<open>progress_at IS NULL OR progress_at < ?2\<close>, a comparison of texts.\<close>

definition is_stale :: "show_slug \<Rightarrow> string \<Rightarrow> episode_row \<Rightarrow> bool" where
  "is_stale show cutoff r \<longleftrightarrow>
     e_show_slug r = slug_str show \<and> e_state r = ''downloading'' \<and>
     (case e_progress_at r of None \<Rightarrow> True | Some t \<Rightarrow> t < cutoff)"

definition reset_stale_downloads :: "codec \<Rightarrow> timestamp \<Rightarrow> show_slug \<Rightarrow> nat \<Rightarrow> db \<Rightarrow> u32 stored" where
  "reset_stale_downloads X now show older_than_secs d =
     (let cutoff = ts_show X (now - int older_than_secs * 1000000000);
          stale = is_stale show cutoff
      in Inr (of_nat (count_where stale (episode_rows d)),
              d\<lparr>episode_rows := update_where stale
                (\<lambda>r. clear_progress (r\<lparr>e_state := ''failed'', e_error_class := Some ''network''\<rparr>))
                (episode_rows d)\<rparr>))"

definition new_episode_row :: "codec \<Rightarrow> timestamp \<Rightarrow> show_slug \<Rightarrow> episode_meta \<Rightarrow> episode_row" where
  "new_episode_row X now show m =
     \<lparr>e_show_slug = slug_str show, e_id = id_str (em_id m), e_title = em_title m,
      e_description = em_description m, e_published_at = map_option (ts_show X) (em_published_at m),
      e_duration_secs = map_option uint (em_duration_secs m), e_state = ''discovered'',
      e_error_class = None, e_file_path = None, e_bytes = None, e_blake3 = None, e_mime = None,
      e_discovered_at = ts_show X now, e_downloaded_at = None, e_bytes_done = None,
      e_bytes_total = None, e_progress_at = None\<rparr>"

definition refresh_metadata :: "codec \<Rightarrow> episode_meta \<Rightarrow> episode_row \<Rightarrow> episode_row" where
  "refresh_metadata X m r =
     r\<lparr>e_title := em_title m, e_description := em_description m,
       e_published_at := map_option (ts_show X) (em_published_at m),
       e_duration_secs := or_else (map_option uint (em_duration_secs m)) (e_duration_secs r)\<rparr>"

text \<open>One iteration per listed episode; an insert needs its show's row (the foreign key).\<close>

fun discover_loop :: "codec \<Rightarrow> (nat \<Rightarrow> timestamp) \<Rightarrow> nat \<Rightarrow> show_slug \<Rightarrow> episode_meta list
    \<Rightarrow> episode_id list \<Rightarrow> db \<Rightarrow> episode_id list stored" where
  "discover_loop X clk k show [] new d = Inr (new, d)"
| "discover_loop X clk k show (m # ms) new d =
     (if list_ex (is_episode show (em_id m)) (episode_rows d)
      then discover_loop X clk k show ms new
             (d\<lparr>episode_rows := update_where (is_episode show (em_id m)) (refresh_metadata X m) (episode_rows d)\<rparr>)
      else if \<not> list_ex (is_show show) (show_rows d) then Inl (Sqlite ForeignKeyViolation)
      else discover_loop X clk (Suc k) show ms (new @ [em_id m])
             (d\<lparr>episode_rows := episode_rows d @ [new_episode_row X (clk k) show m]\<rparr>))"

definition discover :: "codec \<Rightarrow> (nat \<Rightarrow> timestamp) \<Rightarrow> show_slug \<Rightarrow> episode_meta list \<Rightarrow> db
    \<Rightarrow> episode_id list stored" where
  "discover X clk show ms d = discover_loop X clk 0 show ms [] d"

text \<open>\<open>ORDER BY published_at DESC, provider_episode_id DESC\<close>; NULL sorts as the smallest.\<close>

definition show_episode_rows :: "show_slug \<Rightarrow> db \<Rightarrow> episode_row list" where
  "show_episode_rows show d =
     rev (sort_key (\<lambda>r. (e_published_at r, e_id r))
       (filter (\<lambda>r. e_show_slug r = slug_str show) (episode_rows d)))"

definition storage_episodes :: "codec \<Rightarrow> show_slug \<Rightarrow> db \<Rightarrow> storage_error + episode_record list" where
  "storage_episodes X show d = collect_res (map (decode_episode X) (show_episode_rows show d))"

definition set_progress :: "codec \<Rightarrow> timestamp \<Rightarrow> show_slug \<Rightarrow> episode_id \<Rightarrow> u64 \<Rightarrow> u64 option \<Rightarrow> db
    \<Rightarrow> unit stored" where
  "set_progress X now show i bytes_done bytes_total d =
     Inr ((), d\<lparr>episode_rows := update_where
       (\<lambda>r. is_episode show i r \<and> e_state r = ''downloading'')
       (\<lambda>r. r\<lparr>e_bytes_done := Some (i64_of_u64 bytes_done),
              e_bytes_total := map_option i64_of_u64 bytes_total,
              e_progress_at := Some (ts_show X now)\<rparr>) (episode_rows d)\<rparr>)"

section \<open>Lifecycle transitions\<close>

definition transition :: "show_slug \<Rightarrow> episode_id \<Rightarrow> episode_state \<Rightarrow> (episode_row \<Rightarrow> episode_row) \<Rightarrow> db
    \<Rightarrow> unit stored" where
  "transition show i to upd d =
     (case List.find (is_episode show i) (episode_rows d) of
        None \<Rightarrow> Inl (EpisodeNotFound show i)
      | Some r \<Rightarrow>
          bind_res (decode_state (e_state r) (e_error_class r)) (\<lambda>from_state.
          if \<not> can_transition_to from_state to then Inl (IllegalTransition show i from_state to)
          else Inr ((), d\<lparr>episode_rows := update_where (is_episode show i) upd (episode_rows d)\<rparr>)))"

definition downloading_row :: "episode_row \<Rightarrow> episode_row" where
  "downloading_row r = clear_progress (r\<lparr>e_state := ''downloading'', e_error_class := None\<rparr>)"

definition cached_row :: "codec \<Rightarrow> timestamp \<Rightarrow> cached_file \<Rightarrow> episode_row \<Rightarrow> episode_row" where
  "cached_row X now f r = clear_progress
     (r\<lparr>e_state := ''cached'', e_error_class := None, e_file_path := Some (cf_file_path f),
        e_bytes := Some (i64_of_u64 (cf_bytes f)), e_blake3 := Some (hash_to_hex X (cf_blake3 f)),
        e_mime := map_option mime_display (cf_mime f),
        e_duration_secs := or_else (e_duration_secs r) (map_option uint (cf_duration_secs f)),
        e_downloaded_at := Some (ts_show X now)\<rparr>)"

definition failed_row :: "error_class \<Rightarrow> episode_row \<Rightarrow> episode_row" where
  "failed_row cls r =
     clear_progress (r\<lparr>e_state := ''failed'', e_error_class := Some (error_class_display cls)\<rparr>)"

definition pruned_row :: "episode_row \<Rightarrow> episode_row" where
  "pruned_row r = r\<lparr>e_state := ''pruned'', e_file_path := None\<rparr>"

definition mark_downloading :: "show_slug \<Rightarrow> episode_id \<Rightarrow> db \<Rightarrow> unit stored" where
  "mark_downloading show i d = transition show i Downloading downloading_row d"

definition mark_cached :: "codec \<Rightarrow> timestamp \<Rightarrow> show_slug \<Rightarrow> episode_id \<Rightarrow> cached_file \<Rightarrow> db \<Rightarrow> unit stored" where
  "mark_cached X now show i f d = transition show i Cached (cached_row X now f) d"

definition mark_failed :: "show_slug \<Rightarrow> episode_id \<Rightarrow> error_class \<Rightarrow> db \<Rightarrow> unit stored" where
  "mark_failed show i cls d = transition show i (Failed cls) (failed_row cls) d"

definition mark_pruned :: "show_slug \<Rightarrow> episode_id \<Rightarrow> db \<Rightarrow> unit stored" where
  "mark_pruned show i d = transition show i Pruned pruned_row d"

end
