(* ===== verification/Storage_Inv.thy ===== *)
theory Storage_Inv
  imports Storage
begin

text \<open>
  The well-formedness invariant of the database and its preservation by every storage
  operation: unique keys, no orphan episodes, every row decodable, and the columns that go
  with each lifecycle state.
\<close>

section \<open>Updates by key\<close>

lemma set_update_where: "set (update_where P f rows) = (\<lambda>r. if P r then f r else r) ` set rows"
  by (simp add: update_where_def)

lemma map_update_where:
  "(\<And>r. r \<in> set rows \<Longrightarrow> P r \<Longrightarrow> g (f r) = g r) \<Longrightarrow> map g (update_where P f rows) = map g rows"
  by (simp add: update_where_def)

lemma update_where_id: "(\<And>r. r \<in> set rows \<Longrightarrow> \<not> P r) \<Longrightarrow> update_where P f rows = rows"
  by (simp add: update_where_def map_idI)

lemma length_update_where [simp]: "length (update_where P f rows) = length rows"
  by (simp add: update_where_def)

lemma find_update_where:
  assumes "\<And>r. r \<in> set rows \<Longrightarrow> P r \<Longrightarrow> Q (f r) = Q r"
  shows "List.find Q (update_where P f rows) =
    map_option (\<lambda>r. if P r then f r else r) (List.find Q rows)"
  using assms by (induction rows) (auto simp: update_where_def)

lemma find_append: "List.find P (xs @ ys) = (case List.find P xs of None \<Rightarrow> List.find P ys | Some x \<Rightarrow> Some x)"
  by (induction xs) auto

lemma list_ex_find: "list_ex P xs \<longleftrightarrow> List.find P xs \<noteq> None"
  by (induction xs) auto

lemma find_Some_mem: "List.find P xs = Some x \<Longrightarrow> x \<in> set xs \<and> P x"
  by (induction xs) (auto split: if_splits)

lemma find_None_iff_ex: "List.find P xs = None \<longleftrightarrow> (\<forall>x \<in> set xs. \<not> P x)"
  by (induction xs) auto

section \<open>Well-formed rows\<close>

definition opt_all :: "('a \<Rightarrow> bool) \<Rightarrow> 'a option \<Rightarrow> bool" where
  "opt_all P x = (case x of None \<Rightarrow> True | Some a \<Rightarrow> P a)"

lemma opt_all_simps [simp]: "opt_all P None" "opt_all P (Some a) = P a"
  by (simp_all add: opt_all_def)

definition row_key :: "episode_row \<Rightarrow> string \<times> string" where
  "row_key r = (e_show_slug r, e_id r)"

definition row_state :: "episode_row \<Rightarrow> episode_state option" where
  "row_state r = ok (decode_state (e_state r) (e_error_class r))"

text \<open>The columns each lifecycle state requires and excludes.\<close>

fun state_columns :: "episode_state \<Rightarrow> episode_row \<Rightarrow> bool" where
  "state_columns Discovered r \<longleftrightarrow> e_file_path r = None"
| "state_columns Downloading r \<longleftrightarrow> True"
| "state_columns Cached r \<longleftrightarrow>
     e_file_path r \<noteq> None \<and> e_bytes r \<noteq> None \<and> e_blake3 r \<noteq> None \<and> e_downloaded_at r \<noteq> None"
| "state_columns Pruned r \<longleftrightarrow>
     e_file_path r = None \<and> e_bytes r \<noteq> None \<and> e_blake3 r \<noteq> None \<and> e_downloaded_at r \<noteq> None"
| "state_columns (Failed c) r \<longleftrightarrow> True"

definition idle_progress :: "episode_row \<Rightarrow> bool" where
  "idle_progress r \<longleftrightarrow> e_bytes_done r = None \<and> e_bytes_total r = None \<and> e_progress_at r = None"

text \<open>A column written by printing a timestamp.\<close>

definition ts_text :: "codec \<Rightarrow> string \<Rightarrow> bool" where
  "ts_text X t \<longleftrightarrow> (\<exists>u. ts_parse X t = Some u \<and> ts_show X u = t)"

definition row_wf :: "codec \<Rightarrow> episode_row \<Rightarrow> bool" where
  "row_wf X r \<longleftrightarrow>
     valid_slug (ShowSlug (e_show_slug r)) \<and> valid_id (EpisodeId (e_id r)) \<and>
     opt_all (ts_text X) (e_published_at r) \<and>
     opt_all (\<lambda>n. 0 \<le> n \<and> n < 4294967296) (e_duration_secs r) \<and>
     opt_all (\<lambda>h. hash_from_hex X h \<noteq> None) (e_blake3 r) \<and>
     ts_parse X (e_discovered_at r) \<noteq> None \<and>
     opt_all (\<lambda>t. ts_parse X t \<noteq> None) (e_downloaded_at r) \<and>
     opt_all (ts_text X) (e_progress_at r) \<and>
     (\<exists>st. row_state r = Some st \<and> state_columns st r \<and>
        (st \<noteq> Downloading \<longrightarrow> idle_progress r) \<and>
        (e_error_class r \<noteq> None \<longleftrightarrow> (\<exists>c. st = Failed c)))"

definition show_wf :: "codec \<Rightarrow> show_row \<Rightarrow> bool" where
  "show_wf X r \<longleftrightarrow>
     valid_slug (ShowSlug (s_slug r)) \<and>
     opt_all (\<lambda>t. ts_parse X t \<noteq> None) (s_last_poll_at r) \<and>
     (s_last_poll_ok r = None \<longrightarrow> s_last_error r = None) \<and>
     (s_last_poll_ok r \<noteq> None \<longrightarrow> s_last_poll_at r \<noteq> None \<and>
        (s_last_poll_ok r = Some 1 \<and> s_last_error r = None \<or>
         s_last_poll_ok r = Some 0 \<and> s_last_error r \<noteq> None))"

definition db_inv :: "codec \<Rightarrow> db \<Rightarrow> bool" where
  "db_inv X d \<longleftrightarrow>
     distinct (map s_slug (show_rows d)) \<and> (\<forall>r \<in> set (show_rows d). show_wf X r) \<and>
     distinct (map row_key (episode_rows d)) \<and> (\<forall>r \<in> set (episode_rows d). row_wf X r) \<and>
     (\<forall>r \<in> set (episode_rows d). e_show_slug r \<in> s_slug ` set (show_rows d))"

lemma db_inv_empty: "db_inv X empty_db"
  by (simp add: db_inv_def empty_db_def)

lemma is_episode_key: "is_episode show i r \<longleftrightarrow> row_key r = (slug_str show, id_str i)"
  by (simp add: is_episode_def row_key_def)

lemma decode_state_display [simp]:
  "decode_state ''failed'' (Some (error_class_display c)) = Inr (Failed c)"
  "decode_state ''discovered'' cl = Inr Discovered"
  "decode_state ''downloading'' cl = Inr Downloading"
  "decode_state ''cached'' cl = Inr Cached"
  "decode_state ''pruned'' cl = Inr Pruned"
  by (simp_all add: decode_state_def parse_col_def)

lemma decode_state_network [simp]: "decode_state ''failed'' (Some ''network'') = Inr (Failed Network)"
  using decode_state_display(1) [of Network] by simp

lemma decode_state_Downloading_iff: "decode_state st cl = Inr Downloading \<longleftrightarrow> st = ''downloading''"
  by (auto simp: decode_state_def map_res_Inr_iff split: if_splits option.splits)

lemma row_state_downloading: "row_state r = Some Downloading \<longleftrightarrow> e_state r = ''downloading''"
  by (simp add: row_state_def decode_state_Downloading_iff)

section \<open>Preservation\<close>

lemma row_wf_downloading:
  "row_wf X r \<Longrightarrow> row_wf X (downloading_row r)"
  by (auto simp: row_wf_def downloading_row_def clear_progress_def row_state_def idle_progress_def)

lemma row_wf_failed:
  "row_wf X r \<Longrightarrow> row_wf X (failed_row c r)"
  by (auto simp: row_wf_def failed_row_def clear_progress_def row_state_def idle_progress_def)

lemma row_wf_stale:
  "row_wf X r \<Longrightarrow>
   row_wf X (clear_progress (r\<lparr>e_state := ''failed'', e_error_class := Some ''network''\<rparr>))"
  using row_wf_failed [of X r Network] by (simp add: failed_row_def)

lemma row_wf_pruned:
  "row_wf X r \<Longrightarrow> row_state r = Some Cached \<Longrightarrow> row_wf X (pruned_row r)"
  by (auto simp: row_wf_def pruned_row_def row_state_def idle_progress_def)

lemma duration_in_range: "opt_all (\<lambda>n. 0 \<le> n \<and> n < 4294967296) (map_option uint (x :: u32 option))"
  by (cases x) (use uint_lt2p [where 'a = 32] in auto)

lemma opt_all_or_else: "opt_all P a \<Longrightarrow> opt_all P b \<Longrightarrow> opt_all P (or_else a b)"
  by (cases a) simp_all

lemma codec_parse [simp]:
  "codec_ok X \<Longrightarrow> ts_parse X (ts_show X t) = Some t"
  "codec_ok X \<Longrightarrow> hash_from_hex X (hash_to_hex X h) = Some h"
  by (simp_all add: codec_ok_def)

lemma opt_all_ts_show: "codec_ok X \<Longrightarrow> opt_all (ts_text X) (map_option (ts_show X) p)"
  by (cases p) (simp_all add: ts_text_def)

lemma row_wf_cached:
  "codec_ok X \<Longrightarrow> row_wf X r \<Longrightarrow> row_wf X (cached_row X now f r)"
  by (auto simp: row_wf_def cached_row_def clear_progress_def row_state_def idle_progress_def
      intro!: opt_all_or_else duration_in_range)

lemma row_wf_progress:
  "codec_ok X \<Longrightarrow> row_wf X r \<Longrightarrow> e_state r = ''downloading'' \<Longrightarrow>
   row_wf X (r\<lparr>e_bytes_done := b, e_bytes_total := t, e_progress_at := Some (ts_show X now)\<rparr>)"
  by (auto simp: row_wf_def row_state_def ts_text_def)

lemma row_wf_refresh:
  assumes "codec_ok X" "row_wf X r"
  shows "row_wf X (refresh_metadata X m r)"
proof -
  obtain st where "row_state r = Some st" "state_columns st r"
    "st \<noteq> Downloading \<longrightarrow> idle_progress r" "e_error_class r \<noteq> None \<longleftrightarrow> (\<exists>c. st = Failed c)"
    using assms by (auto simp: row_wf_def)
  moreover from this(2) have "state_columns st (refresh_metadata X m r)"
    by (cases st) (simp_all add: refresh_metadata_def)
  ultimately show ?thesis
    using assms
    by (auto simp: row_wf_def refresh_metadata_def row_state_def idle_progress_def opt_all_ts_show
        intro!: opt_all_or_else duration_in_range)
qed

lemma row_wf_new:
  assumes "codec_ok X" "valid_slug show" "valid_id (em_id m)"
  shows "row_wf X (new_episode_row X now show m)"
  using assms
  by (auto simp: row_wf_def new_episode_row_def row_state_def idle_progress_def opt_all_ts_show
      duration_in_range)

lemma db_inv_update_episodes:
  assumes "db_inv X d"
    "\<And>r. r \<in> set (episode_rows d) \<Longrightarrow> P r \<Longrightarrow> row_wf X r \<Longrightarrow> row_wf X (f r) \<and> row_key (f r) = row_key r"
  shows "db_inv X (d\<lparr>episode_rows := update_where P f (episode_rows d)\<rparr>)"
proof -
  have "map row_key (update_where P f (episode_rows d)) = map row_key (episode_rows d)"
    using assms by (intro map_update_where) (auto simp: db_inv_def)
  moreover have "e_show_slug (f r) = e_show_slug r" if "r \<in> set (episode_rows d)" "P r" for r
    using assms that by (auto simp: db_inv_def row_key_def)
  ultimately show ?thesis
    using assms by (auto simp: db_inv_def set_update_where)
qed

lemma db_inv_update_shows:
  assumes "db_inv X d"
    "\<And>r. r \<in> set (show_rows d) \<Longrightarrow> P r \<Longrightarrow> show_wf X r \<Longrightarrow> show_wf X (f r) \<and> s_slug (f r) = s_slug r"
  shows "db_inv X (d\<lparr>show_rows := update_where P f (show_rows d)\<rparr>)"
proof -
  have slugs: "map s_slug (update_where P f (show_rows d)) = map s_slug (show_rows d)"
    using assms by (intro map_update_where) (auto simp: db_inv_def)
  then have "s_slug ` set (update_where P f (show_rows d)) = s_slug ` set (show_rows d)"
    by (metis set_map)
  with slugs show ?thesis
    using assms by (auto simp: db_inv_def set_update_where)
qed

lemma row_key_simps [simp]:
  "row_key (downloading_row r) = row_key r" "row_key (failed_row c r) = row_key r"
  "row_key (cached_row X now f r) = row_key r" "row_key (pruned_row r) = row_key r"
  "row_key (refresh_metadata X m r) = row_key r" "row_key (clear_progress r) = row_key r"
  "row_key (r\<lparr>e_state := s, e_error_class := cl\<rparr>) = row_key r"
  "row_key (r\<lparr>e_bytes_done := b, e_bytes_total := t, e_progress_at := p\<rparr>) = row_key r"
  by (simp_all add: row_key_def downloading_row_def failed_row_def cached_row_def pruned_row_def
      refresh_metadata_def clear_progress_def)

lemma list_ex_is_show: "list_ex (is_show show) rs \<longleftrightarrow> slug_str show \<in> s_slug ` set rs"
  by (force simp: list_ex_iff is_show_def)

lemma upsert_show_inv [keeps_inv]:
  assumes "db_inv X d" "valid_slug (sm_slug meta)" "upsert_show meta provider d = Inr ((), d')"
  shows "db_inv X d'"
proof (cases "list_ex (is_show (sm_slug meta)) (show_rows d)")
  case True
  with assms show ?thesis
    by (auto simp: upsert_show_def show_wf_def intro!: db_inv_update_shows)
next
  case False
  with assms show ?thesis
    by (auto simp: upsert_show_def db_inv_def new_show_row_def show_wf_def list_ex_is_show)
qed

lemma record_poll_inv [keeps_inv]:
  "codec_ok X \<Longrightarrow> db_inv X d \<Longrightarrow> record_poll X now show err d = Inr ((), d') \<Longrightarrow> db_inv X d'"
  by (auto simp: record_poll_def show_wf_def intro!: db_inv_update_shows)

lemma set_artwork_path_inv [keeps_inv]:
  "db_inv X d \<Longrightarrow> set_artwork_path slug p d = Inr ((), d') \<Longrightarrow> db_inv X d'"
  by (auto simp: set_artwork_path_def show_wf_def intro!: db_inv_update_shows)

lemma set_episodes_etag_inv [keeps_inv]:
  "db_inv X d \<Longrightarrow> set_episodes_etag slug etag d = Inr ((), d') \<Longrightarrow> db_inv X d'"
  by (auto simp: set_episodes_etag_def show_wf_def intro!: db_inv_update_shows)

lemma reset_stale_downloads_inv [keeps_inv]:
  "db_inv X d \<Longrightarrow> reset_stale_downloads X now show secs d = Inr (n, d') \<Longrightarrow> db_inv X d'"
  by (auto simp: reset_stale_downloads_def Let_def row_wf_stale intro!: db_inv_update_episodes)

lemma set_progress_inv [keeps_inv]:
  "codec_ok X \<Longrightarrow> db_inv X d \<Longrightarrow> set_progress X now show i b t d = Inr ((), d') \<Longrightarrow> db_inv X d'"
  by (auto simp: set_progress_def row_wf_progress intro!: db_inv_update_episodes)

lemma list_ex_is_episode:
  "list_ex (is_episode show i) rs \<longleftrightarrow> (slug_str show, id_str i) \<in> row_key ` set rs"
  by (force simp: list_ex_iff is_episode_key)

lemma new_row_key [simp]:
  "row_key (new_episode_row X now show m) = (slug_str show, id_str (em_id m))"
  "e_show_slug (new_episode_row X now show m) = slug_str show"
  "e_id (new_episode_row X now show m) = id_str (em_id m)"
  by (simp_all add: row_key_def new_episode_row_def)

lemma db_inv_insert:
  assumes "codec_ok X" "valid_slug show" "valid_id (em_id m)" "db_inv X d"
    "\<not> list_ex (is_episode show (em_id m)) (episode_rows d)" "list_ex (is_show show) (show_rows d)"
  shows "db_inv X (d\<lparr>episode_rows := episode_rows d @ [new_episode_row X now show m]\<rparr>)"
  using assms by (auto simp: db_inv_def row_wf_new list_ex_is_show list_ex_is_episode)

lemma db_inv_refresh:
  assumes "codec_ok X" "db_inv X d"
  shows "db_inv X (d\<lparr>episode_rows := update_where (is_episode show i) (refresh_metadata X m) (episode_rows d)\<rparr>)"
  using assms by (intro db_inv_update_episodes) (simp_all add: row_wf_refresh)

lemma discover_loop_inv:
  assumes "codec_ok X" "valid_slug show" "db_inv X d" "\<forall>m \<in> set ms. valid_id (em_id m)"
    "discover_loop X clk k show ms new d = Inr (ids, d')"
  shows "db_inv X d'"
  using assms(3-)
proof (induction ms arbitrary: k new d)
  case (Cons m ms)
  show ?case
  proof (cases "list_ex (is_episode show (em_id m)) (episode_rows d)")
    case True
    with Cons.IH [OF db_inv_refresh [OF assms(1) Cons.prems(1)]] Cons.prems show ?thesis by simp
  next
    case False
    with Cons.prems have "list_ex (is_show show) (show_rows d)" by (auto split: if_splits)
    then have "db_inv X (d\<lparr>episode_rows := episode_rows d @ [new_episode_row X (clk k) show m]\<rparr>)"
      using False Cons.prems assms(1,2) by (intro db_inv_insert) simp_all
    with False Cons.prems show ?thesis by (auto split: if_splits intro: Cons.IH)
  qed
qed simp

lemma discover_inv [keeps_inv]:
  "codec_ok X \<Longrightarrow> valid_slug show \<Longrightarrow> \<forall>m \<in> set ms. valid_id (em_id m) \<Longrightarrow> db_inv X d \<Longrightarrow>
   discover X clk show ms d = Inr (ids, d') \<Longrightarrow> db_inv X d'"
  unfolding discover_def by (rule discover_loop_inv)

section \<open>Transitions\<close>

definition state_of :: "show_slug \<Rightarrow> episode_id \<Rightarrow> db \<Rightarrow> episode_state option" where
  "state_of show i d = Option.bind (List.find (is_episode show i) (episode_rows d)) row_state"

lemma find_key_unique:
  assumes "distinct (map row_key rs)" "r \<in> set rs" "is_episode show i r"
  shows "List.find (is_episode show i) rs = Some r"
  using assms by (induction rs) (auto simp: is_episode_key image_iff)

lemma transition_Inr_iff:
  "transition show i to upd d = Inr ((), d') \<longleftrightarrow>
   (\<exists>r st. List.find (is_episode show i) (episode_rows d) = Some r \<and> row_state r = Some st \<and>
      can_transition_to st to \<and>
      d' = d\<lparr>episode_rows := update_where (is_episode show i) upd (episode_rows d)\<rparr>)"
  by (auto simp: transition_def row_state_def bind_res_Inr_iff split: option.splits if_splits)

lemma transition_inv:
  assumes "db_inv X d" "transition show i to upd d = Inr ((), d')"
    "\<And>r st. row_wf X r \<Longrightarrow> row_state r = Some st \<Longrightarrow> can_transition_to st to \<Longrightarrow>
       row_wf X (upd r) \<and> row_key (upd r) = row_key r"
  shows "db_inv X d'"
proof -
  obtain r st where r: "List.find (is_episode show i) (episode_rows d) = Some r" "row_state r = Some st"
    "can_transition_to st to" and d': "d' = d\<lparr>episode_rows := update_where (is_episode show i) upd (episode_rows d)\<rparr>"
    using assms(2) by (auto simp: transition_Inr_iff)
  have "r' = r" if "r' \<in> set (episode_rows d)" "is_episode show i r'" for r'
    using find_key_unique [of "episode_rows d" r' "show" i] that assms(1) r(1) by (simp add: db_inv_def)
  with assms(1,3) r show ?thesis
    unfolding d' by (intro db_inv_update_episodes) auto
qed

lemma mark_downloading_inv [keeps_inv]:
  "db_inv X d \<Longrightarrow> mark_downloading show i d = Inr ((), d') \<Longrightarrow> db_inv X d'"
  unfolding mark_downloading_def by (erule (1) transition_inv) (auto intro: row_wf_downloading)

lemma mark_cached_inv [keeps_inv]:
  "codec_ok X \<Longrightarrow> db_inv X d \<Longrightarrow> mark_cached X now show i f d = Inr ((), d') \<Longrightarrow> db_inv X d'"
  unfolding mark_cached_def by (erule (1) transition_inv) (auto intro: row_wf_cached)

lemma mark_failed_inv [keeps_inv]:
  "db_inv X d \<Longrightarrow> mark_failed show i c d = Inr ((), d') \<Longrightarrow> db_inv X d'"
  unfolding mark_failed_def by (erule (1) transition_inv) (auto intro: row_wf_failed)

lemma mark_pruned_inv [keeps_inv]:
  "db_inv X d \<Longrightarrow> mark_pruned show i d = Inr ((), d') \<Longrightarrow> db_inv X d'"
  unfolding mark_pruned_def by (erule (1) transition_inv) (auto intro: row_wf_pruned simp: into_Pruned_iff)

section \<open>Reading\<close>

lemma parse_col_total: "parse s \<noteq> None \<Longrightarrow> \<exists>a. parse_col t c parse s = Inr a"
  by (auto simp: parse_col_def)

lemma parse_col_Inr_iff: "parse_col t c parse s = Inr a \<longleftrightarrow> parse s = Some a"
  by (auto simp: parse_col_def split: option.splits)

lemma traverse_parse_total:
  "opt_all (\<lambda>s. parse s \<noteq> None) x \<Longrightarrow> \<exists>a. traverse_opt (parse_col t c parse) x = Inr a"
  by (cases x) (auto simp: map_res_Inr_iff parse_col_Inr_iff)

lemma row_get_u32_total: "opt_all (\<lambda>n. 0 \<le> n \<and> n < 4294967296) x \<Longrightarrow> \<exists>a. row_get_u32 x = Inr a"
  by (cases x) (auto simp: row_get_u32_def map_res_Inr_iff u32_try_from_def)

lemma decode_slug [simp]:
  "valid_slug (ShowSlug s) \<Longrightarrow> parse_col t c (\<lambda>s. ok (parse_show_slug s)) s = Inr (ShowSlug s)"
  using parse_slug_str [of "ShowSlug s"] by (simp add: parse_col_def)

lemma decode_id [simp]:
  "valid_id (EpisodeId s) \<Longrightarrow> parse_col t c (\<lambda>s. ok (parse_episode_id s)) s = Inr (EpisodeId s)"
  using parse_id_str [of "EpisodeId s"] by (simp add: parse_col_def)

lemma opt_all_ts_text: "opt_all (ts_text X) x \<Longrightarrow> opt_all (\<lambda>t. ts_parse X t \<noteq> None) x"
  by (cases x) (auto simp: ts_text_def)

lemma decode_episode_total:
  assumes "row_wf X r"
  shows "\<exists>e. decode_episode X r = Inr e"
proof -
  have opts: "\<exists>a. traverse_opt (parse_col ''episodes'' c (ts_parse X)) t = Inr a"
    if "t \<in> {e_published_at r, e_downloaded_at r, e_progress_at r}" for t c
    using assms that
    by (auto simp: row_wf_def simp del: not_None_eq dest: opt_all_ts_text intro!: traverse_parse_total)
  obtain a2 where "row_get_u32 (e_duration_secs r) = Inr a2"
    using assms row_get_u32_total [of "e_duration_secs r"] by (auto simp: row_wf_def)
  moreover obtain a3 where "decode_state (e_state r) (e_error_class r) = Inr a3"
    using assms by (auto simp: row_wf_def row_state_def)
  moreover have "\<exists>a. traverse_opt (parse_col ''episodes'' ''blake3'' (hash_from_hex X)) (e_blake3 r) = Inr a"
    using assms by (intro traverse_parse_total) (simp add: row_wf_def)
  moreover have "\<exists>a. parse_col ''episodes'' ''discovered_at'' (ts_parse X) (e_discovered_at r) = Inr a"
    using assms by (intro parse_col_total) (simp add: row_wf_def)
  ultimately show ?thesis
    using assms opts [of "e_published_at r" "''published_at''"]
      opts [of "e_downloaded_at r" "''downloaded_at''"] opts [of "e_progress_at r" "''progress_at''"]
    by (auto simp: decode_episode_def row_wf_def)
qed

lemma decode_show_total: "show_wf X r \<Longrightarrow> \<exists>e. decode_show X r = Inr e"
  using traverse_parse_total [of "ts_parse X" "s_last_poll_at r" "''shows''" "''last_poll_at''"]
  by (auto simp: show_wf_def decode_show_def)

lemma decode_episode_state: "decode_episode X r = Inr e \<Longrightarrow> row_state r = Some (r_state e)"
  by (auto simp: decode_episode_def bind_res_Inr_iff row_state_def)

lemma decode_episode_key:
  "decode_episode X r = Inr e \<Longrightarrow> row_key r = (slug_str (r_show e), id_str (r_id e))"
  by (auto simp: decode_episode_def bind_res_Inr_iff row_key_def parse_col_Inr_iff
      parse_show_slug_Inr_iff parse_episode_id_Inr_iff)

lemma set_show_episode_rows:
  "set (show_episode_rows show d) = {r \<in> set (episode_rows d). e_show_slug r = slug_str show}"
  by (auto simp: show_episode_rows_def)

lemma storage_episodes_total:
  "db_inv X d \<Longrightarrow> \<exists>es. storage_episodes X show d = Inr es"
  unfolding storage_episodes_def
  by (rule collect_res_total) (auto simp: set_show_episode_rows db_inv_def intro: decode_episode_total)

lemma storage_shows_total: "db_inv X d \<Longrightarrow> \<exists>rs. storage_shows X d = Inr rs"
  unfolding storage_shows_def
  by (rule collect_res_total) (auto simp: db_inv_def intro: decode_show_total)

lemma storage_show_total: "db_inv X d \<Longrightarrow> \<exists>r. storage_show X slug d = Inr r"
  by (auto simp: storage_show_def db_inv_def map_res_Inr_iff split: option.splits
      dest!: find_Some_mem intro: decode_show_total)

end
