(* ===== verification/Storage_Spec.thy ===== *)
theory Storage_Spec
  imports Storage_Inv
begin

text \<open>
  What the storage layer promises, stated on decoded records: the database is a partial map
  from show and episode id to an \<^typ>\<open>episode_record\<close>, and every operation on rows is an
  operation on that map.  The rows, their text columns and the SQL updates disappear.
\<close>

section \<open>The abstract view\<close>

type_synonym store_view = "show_slug \<Rightarrow> episode_id \<Rightarrow> episode_record option"

definition view :: "codec \<Rightarrow> db \<Rightarrow> store_view" where
  "view X d = (\<lambda>show i.
     Option.bind (List.find (is_episode show i) (episode_rows d)) (\<lambda>r. ok (decode_episode X r)))"

definition set_at :: "show_slug \<Rightarrow> episode_id \<Rightarrow> episode_record option \<Rightarrow> store_view \<Rightarrow> store_view" where
  "set_at show i e v = (\<lambda>s j. if s = show \<and> j = i then e else v s j)"

lemma set_at_simps [simp]:
  "set_at show i e v show i = e"
  "s \<noteq> show \<or> j \<noteq> i \<Longrightarrow> set_at show i e v s j = v s j"
  by (auto simp: set_at_def)

definition spec_transition :: "show_slug \<Rightarrow> episode_id \<Rightarrow> episode_state
    \<Rightarrow> (episode_record \<Rightarrow> episode_record) \<Rightarrow> store_view \<Rightarrow> storage_error + store_view" where
  "spec_transition show i to f v =
     (case v show i of
        None \<Rightarrow> Inl (EpisodeNotFound show i)
      | Some e \<Rightarrow>
          if can_transition_to (r_state e) to then Inr (set_at show i (Some (f e)) v)
          else Inl (IllegalTransition show i (r_state e) to))"

definition no_progress :: "episode_record \<Rightarrow> episode_record" where
  "no_progress e = e\<lparr>r_bytes_done := None, r_bytes_total := None, r_progress_at := None\<rparr>"

definition spec_downloading :: "episode_record \<Rightarrow> episode_record" where
  "spec_downloading e = no_progress (e\<lparr>r_state := Downloading\<rparr>)"

definition spec_failed :: "error_class \<Rightarrow> episode_record \<Rightarrow> episode_record" where
  "spec_failed c e = no_progress (e\<lparr>r_state := Failed c\<rparr>)"

definition spec_pruned :: "episode_record \<Rightarrow> episode_record" where
  "spec_pruned e = e\<lparr>r_state := Pruned, r_file_path := None\<rparr>"

text \<open>Sizes saturate at the largest signed 64-bit number on their way through a column.\<close>

definition stored_u64 :: "u64 \<Rightarrow> u64" where
  "stored_u64 b = min b 9223372036854775807"

definition spec_cached :: "timestamp \<Rightarrow> cached_file \<Rightarrow> episode_record \<Rightarrow> episode_record" where
  "spec_cached now f e = no_progress
     (e\<lparr>r_state := Cached, r_file_path := Some (cf_file_path f),
        r_bytes := Some (stored_u64 (cf_bytes f)), r_blake3 := Some (cf_blake3 f),
        r_mime := cf_mime f, r_duration_secs := or_else (r_duration_secs e) (cf_duration_secs f),
        r_downloaded_at := Some now\<rparr>)"

definition spec_progress :: "timestamp \<Rightarrow> u64 \<Rightarrow> u64 option \<Rightarrow> episode_record \<Rightarrow> episode_record" where
  "spec_progress now b t e =
     (if r_state e = Downloading
      then e\<lparr>r_bytes_done := Some (stored_u64 b), r_bytes_total := map_option stored_u64 t,
             r_progress_at := Some now\<rparr>
      else e)"

definition spec_refresh :: "episode_meta \<Rightarrow> episode_record \<Rightarrow> episode_record" where
  "spec_refresh m e =
     e\<lparr>r_title := em_title m, r_description := em_description m, r_published_at := em_published_at m,
       r_duration_secs := or_else (em_duration_secs m) (r_duration_secs e)\<rparr>"

definition spec_new :: "timestamp \<Rightarrow> show_slug \<Rightarrow> episode_meta \<Rightarrow> episode_record" where
  "spec_new now show m =
     \<lparr>r_show = show, r_id = em_id m, r_title = em_title m, r_description = em_description m,
      r_published_at = em_published_at m, r_duration_secs = em_duration_secs m,
      r_state = Discovered, r_file_path = None, r_bytes = None, r_blake3 = None, r_mime = None,
      r_discovered_at = now, r_downloaded_at = None, r_bytes_done = None, r_bytes_total = None,
      r_progress_at = None\<rparr>"

section \<open>Decoding commutes with the row updates\<close>

lemma stored_u64_i64: "u64_of_i64 (i64_of_u64 b) = stored_u64 b"
  by (auto simp: stored_u64_def u64_of_i64_def i64_of_u64_def i64_max_def min_def word_le_def)

lemma row_get_u32_uint [simp]: "row_get_u32 (map_option uint x) = Inr x"
  by (cases x) (simp_all add: row_get_u32_def)

lemma row_get_u32_or_else:
  "row_get_u32 a = Inr x \<Longrightarrow> row_get_u32 b = Inr y \<Longrightarrow> row_get_u32 (or_else a b) = Inr (or_else x y)"
  by (cases a; cases x) (auto simp: row_get_u32_def map_res_Inr_iff)

lemma traverse_parse_show [simp]:
  "codec_ok X \<Longrightarrow>
   traverse_opt (parse_col t c (ts_parse X)) (map_option (ts_show X) x) = Inr x"
  by (cases x) (simp_all add: parse_col_def)

lemma parse_col_codec [simp]:
  "codec_ok X \<Longrightarrow> parse_col t c (ts_parse X) (ts_show X n) = Inr n"
  "codec_ok X \<Longrightarrow> parse_col t c (hash_from_hex X) (hash_to_hex X h) = Inr h"
  by (simp_all add: parse_col_def)

lemma decode_downloading:
  "decode_episode X r = Inr e \<Longrightarrow> decode_episode X (downloading_row r) = Inr (spec_downloading e)"
  by (auto simp: decode_episode_def bind_res_Inr_iff downloading_row_def clear_progress_def
      spec_downloading_def no_progress_def)

lemma decode_failed:
  "decode_episode X r = Inr e \<Longrightarrow> decode_episode X (failed_row c r) = Inr (spec_failed c e)"
  by (auto simp: decode_episode_def bind_res_Inr_iff failed_row_def clear_progress_def
      spec_failed_def no_progress_def)

lemma decode_pruned:
  "decode_episode X r = Inr e \<Longrightarrow> decode_episode X (pruned_row r) = Inr (spec_pruned e)"
  by (auto simp: decode_episode_def bind_res_Inr_iff pruned_row_def spec_pruned_def)

lemma decode_cached:
  assumes "codec_ok X" "\<forall>m. cf_mime f = Some m \<longrightarrow> canonical_mime m" "decode_episode X r = Inr e"
  shows "decode_episode X (cached_row X now f r) = Inr (spec_cached now f e)"
proof -
  have "map_option mime_from (map_option mime_display (cf_mime f)) = cf_mime f"
    using assms(2) by (cases "cf_mime f") (simp_all add: canonical_mime_def)
  then show ?thesis
    using assms
    by (auto simp: decode_episode_def bind_res_Inr_iff cached_row_def clear_progress_def
        spec_cached_def no_progress_def stored_u64_i64 row_get_u32_or_else option.map_comp comp_def)
qed

lemma decode_progress:
  assumes "codec_ok X" "decode_episode X r = Inr e" "e_state r = ''downloading''"
  shows "decode_episode X (r\<lparr>e_bytes_done := Some (i64_of_u64 b),
      e_bytes_total := map_option i64_of_u64 t, e_progress_at := Some (ts_show X now)\<rparr>) =
    Inr (spec_progress now b t e)"
proof -
  have "r_state e = Downloading"
    using decode_episode_state [OF assms(2)] assms(3) by (simp add: row_state_def)
  with assms show ?thesis
    by (auto simp: decode_episode_def bind_res_Inr_iff spec_progress_def stored_u64_i64
        option.map_comp comp_def)
qed

lemma decode_refresh:
  assumes "codec_ok X" "decode_episode X r = Inr e"
  shows "decode_episode X (refresh_metadata X m r) = Inr (spec_refresh m e)"
  using assms
  by (auto simp: decode_episode_def bind_res_Inr_iff refresh_metadata_def spec_refresh_def
      row_get_u32_or_else)

lemma decode_new:
  assumes "codec_ok X" "valid_slug show" "valid_id (em_id m)"
  shows "decode_episode X (new_episode_row X now show m) = Inr (spec_new now show m)"
  using assms decode_slug [of "slug_str show"] decode_id [of "id_str (em_id m)"]
  by (simp add: decode_episode_def new_episode_row_def spec_new_def)

section \<open>The view after an update\<close>

lemma is_episode_inj: "is_episode s j r \<Longrightarrow> is_episode show i r \<longleftrightarrow> s = show \<and> j = i"
  by (auto simp: is_episode_def slug_str_inj id_str_inj)

lemma view_find:
  assumes "db_inv X d"
  shows "List.find (is_episode show i) (episode_rows d) = None \<longleftrightarrow> view X d show i = None"
    and "List.find (is_episode show i) (episode_rows d) = Some r \<Longrightarrow>
      \<exists>e. view X d show i = Some e \<and> decode_episode X r = Inr e \<and> row_state r = Some (r_state e)"
proof -
  have total: "\<exists>e. decode_episode X r = Inr e"
    if "List.find (is_episode show i) (episode_rows d) = Some r" for r
    using assms find_Some_mem [OF that] by (intro decode_episode_total) (simp add: db_inv_def)
  show "List.find (is_episode show i) (episode_rows d) = None \<longleftrightarrow> view X d show i = None"
    using total by (cases "List.find (is_episode show i) (episode_rows d)") (auto simp: view_def)
  assume "List.find (is_episode show i) (episode_rows d) = Some r"
  with total [OF this] show
    "\<exists>e. view X d show i = Some e \<and> decode_episode X r = Inr e \<and> row_state r = Some (r_state e)"
    by (auto simp: view_def decode_episode_state)
qed

text \<open>An update of one key that decodes to \<open>g\<close> acts as \<open>g\<close> on the view.\<close>

lemma view_update:
  assumes "db_inv X d" "\<And>r. row_key (f r) = row_key r"
    "\<And>r e. is_episode show i r \<Longrightarrow> decode_episode X r = Inr e \<Longrightarrow>
       decode_episode X (if P r then f r else r) = Inr (g e)"
  shows "view X (d\<lparr>episode_rows := update_where (\<lambda>r. is_episode show i r \<and> P r) f (episode_rows d)\<rparr>) =
    set_at show i (map_option g (view X d show i)) (view X d)"
proof (intro ext)
  fix s j
  let ?Q = "\<lambda>r. is_episode show i r \<and> P r"
  have find: "List.find (is_episode s j) (update_where ?Q f (episode_rows d)) =
      map_option (\<lambda>r. if ?Q r then f r else r) (List.find (is_episode s j) (episode_rows d))"
    using assms(2) by (intro find_update_where) (simp add: is_episode_key)
  show "view X (d\<lparr>episode_rows := update_where ?Q f (episode_rows d)\<rparr>) s j =
      set_at show i (map_option g (view X d show i)) (view X d) s j"
  proof (cases "List.find (is_episode s j) (episode_rows d)")
    case None
    then show ?thesis by (auto simp: view_def find set_at_def)
  next
    case (Some r)
    then have ep: "is_episode s j r" by (simp add: find_Some_mem)
    obtain e where e: "view X d s j = Some e" "decode_episode X r = Inr e"
      using view_find(2) [OF assms(1) Some] by auto
    have "view X (d\<lparr>episode_rows := update_where ?Q f (episode_rows d)\<rparr>) s j =
        ok (decode_episode X (if ?Q r then f r else r))"
      by (simp add: view_def find Some)
    with ep e assms(3) [of r e] is_episode_inj [OF ep, of "show" i] show ?thesis
      by (auto simp: set_at_def split: if_splits)
  qed
qed

lemma view_update_key:
  assumes "db_inv X d" "\<And>r. row_key (f r) = row_key r"
    "\<And>r e. decode_episode X r = Inr e \<Longrightarrow> decode_episode X (f r) = Inr (g e)"
  shows "view X (d\<lparr>episode_rows := update_where (is_episode show i) f (episode_rows d)\<rparr>) =
    set_at show i (map_option g (view X d show i)) (view X d)"
  using view_update [where P = "\<lambda>_. True", OF assms(1,2)] assms(3) by simp

lemma transition_refines:
  assumes "db_inv X d" "\<And>r. row_key (f r) = row_key r"
    "\<And>r e. decode_episode X r = Inr e \<Longrightarrow> decode_episode X (f r) = Inr (g e)"
  shows "map_res (\<lambda>(_, d'). view X d') (transition show i to f d) = spec_transition show i to g (view X d)"
proof (cases "List.find (is_episode show i) (episode_rows d)")
  case None
  with view_find(1) [OF assms(1), of "show" i] have "view X d show i = None" by simp
  with None show ?thesis by (simp add: transition_def spec_transition_def)
next
  case (Some r)
  obtain e where "view X d show i = Some e" "row_state r = Some (r_state e)"
    using view_find(2) [OF assms(1) Some] by auto
  with Some view_update_key [OF assms] show ?thesis
    by (auto simp: transition_def spec_transition_def row_state_def)
qed

lemma mark_cached_refines:
  assumes "db_inv X d" "codec_ok X" "\<forall>m. cf_mime f = Some m \<longrightarrow> canonical_mime m"
  shows "map_res (\<lambda>(_, d'). view X d') (mark_cached X now show i f d) =
    spec_transition show i Cached (spec_cached now f) (view X d)"
  unfolding mark_cached_def
  by (rule transition_refines) (simp_all add: assms decode_cached)

lemma mark_downloading_refines:
  "db_inv X d \<Longrightarrow> map_res (\<lambda>(_, d'). view X d') (mark_downloading show i d) =
    spec_transition show i Downloading spec_downloading (view X d)"
  unfolding mark_downloading_def by (rule transition_refines) (simp_all add: decode_downloading)

lemma mark_failed_refines:
  "db_inv X d \<Longrightarrow> map_res (\<lambda>(_, d'). view X d') (mark_failed show i c d) =
    spec_transition show i (Failed c) (spec_failed c) (view X d)"
  unfolding mark_failed_def by (rule transition_refines) (simp_all add: decode_failed)

lemma mark_pruned_refines:
  "db_inv X d \<Longrightarrow> map_res (\<lambda>(_, d'). view X d') (mark_pruned show i d) =
    spec_transition show i Pruned spec_pruned (view X d)"
  unfolding mark_pruned_def by (rule transition_refines) (simp_all add: decode_pruned)

lemma set_progress_refines:
  assumes "db_inv X d" "codec_ok X"
  shows "map_res (\<lambda>(_, d'). view X d') (set_progress X now show i b t d) =
    Inr (set_at show i (map_option (spec_progress now b t) (view X d show i)) (view X d))"
proof -
  have keep: "spec_progress now b t e = e" if "decode_episode X r = Inr e" "e_state r \<noteq> ''downloading''" for r e
    using decode_episode_state [OF that(1)] that(2) row_state_downloading [of r]
    by (auto simp: spec_progress_def)
  show ?thesis
    unfolding set_progress_def
    by (simp, rule view_update [OF assms(1)])
      (auto simp: row_key_def decode_progress [OF assms(2)] keep)
qed

section \<open>Discovery on the view\<close>

fun spec_discover :: "(nat \<Rightarrow> timestamp) \<Rightarrow> nat \<Rightarrow> show_slug \<Rightarrow> episode_meta list \<Rightarrow> store_view \<Rightarrow> store_view" where
  "spec_discover clk k show [] v = v"
| "spec_discover clk k show (m # ms) v =
     (case v show (em_id m) of
        Some e \<Rightarrow> spec_discover clk k show ms (set_at show (em_id m) (Some (spec_refresh m e)) v)
      | None \<Rightarrow> spec_discover clk (Suc k) show ms (set_at show (em_id m) (Some (spec_new (clk k) show m)) v))"

text \<open>The listed ids the view does not know, each at its first occurrence.\<close>

fun fresh_ids :: "show_slug \<Rightarrow> store_view \<Rightarrow> episode_id list \<Rightarrow> episode_id list" where
  "fresh_ids show v [] = []"
| "fresh_ids show v (i # is) =
     (if v show i = None then i # filter (\<lambda>j. j \<noteq> i) (fresh_ids show v is) else fresh_ids show v is)"

lemma in_fresh_ids: "i \<in> set (fresh_ids show v is) \<longleftrightarrow> i \<in> set is \<and> v show i = None"
proof (induction "is")
  case (Cons j js)
  then show ?case by (cases "v show j"; cases "i = j") simp_all
qed simp

lemma set_fresh_ids: "set (fresh_ids show v is) = {i \<in> set is. v show i = None}"
  by (simp add: in_fresh_ids set_eq_iff)

lemma distinct_fresh_ids: "distinct (fresh_ids show v is)"
  by (induction "is") simp_all

lemma fresh_ids_known:
  "v show i \<noteq> None \<Longrightarrow> e \<noteq> None \<Longrightarrow> fresh_ids show (set_at show i e v) is = fresh_ids show v is"
  by (induction "is") (auto simp: set_at_def)

lemma fresh_ids_new:
  "e \<noteq> None \<Longrightarrow> fresh_ids show (set_at show i e v) is = filter (\<lambda>j. j \<noteq> i) (fresh_ids show v is)"
  by (induction "is") (auto simp: set_at_def filter_id_conv filter_filter conj_commute set_fresh_ids)

lemma list_ex_view:
  assumes "db_inv X d"
  shows "list_ex (is_episode show i) (episode_rows d) \<longleftrightarrow> view X d show i \<noteq> None"
  using view_find(1) [OF assms, of "show" i] by (simp add: list_ex_find)

lemma view_insert:
  assumes "db_inv X d" "codec_ok X" "valid_slug show" "valid_id (em_id m)" "view X d show (em_id m) = None"
  shows "view X (d\<lparr>episode_rows := episode_rows d @ [new_episode_row X now show m]\<rparr>) =
    set_at show (em_id m) (Some (spec_new now show m)) (view X d)"
proof (intro ext)
  fix s j
  have new: "is_episode s j (new_episode_row X now show m) \<longleftrightarrow> s = show \<and> j = em_id m"
    by (auto simp: is_episode_def slug_str_inj id_str_inj)
  have "List.find (is_episode show (em_id m)) (episode_rows d) = None"
    using assms(5) view_find(1) [OF assms(1)] by blast
  with new show "view X (d\<lparr>episode_rows := episode_rows d @ [new_episode_row X now show m]\<rparr>) s j =
      set_at show (em_id m) (Some (spec_new now show m)) (view X d) s j"
    by (auto simp: view_def find_append set_at_def decode_new assms(2-4) split: option.split)
qed

lemma discover_loop_refines:
  assumes "codec_ok X" "valid_slug show" "list_ex (is_show show) (show_rows d)" "db_inv X d"
    "\<forall>m \<in> set ms. valid_id (em_id m)"
  shows "\<exists>d'. discover_loop X clk k show ms new d =
      Inr (new @ fresh_ids show (view X d) (map em_id ms), d') \<and>
    view X d' = spec_discover clk k show ms (view X d) \<and> show_rows d' = show_rows d \<and> db_inv X d'"
  using assms(3-)
proof (induction ms arbitrary: k new d)
  case (Cons m ms)
  show ?case
  proof (cases "view X d show (em_id m)")
    case (Some e)
    let ?d = "d\<lparr>episode_rows := update_where (is_episode show (em_id m)) (refresh_metadata X m) (episode_rows d)\<rparr>"
    have "view X ?d = set_at show (em_id m) (Some (spec_refresh m e)) (view X d)"
      using view_update_key [OF Cons.prems(2), where f = "refresh_metadata X m" and g = "spec_refresh m"]
      by (simp add: decode_refresh assms(1) Some)
    moreover have "db_inv X ?d" by (rule db_inv_refresh [OF assms(1) Cons.prems(2)])
    ultimately show ?thesis
      using Cons.IH [of ?d k new] Cons.prems Some
      by (simp add: list_ex_view [OF Cons.prems(2)] fresh_ids_known)
  next
    case None
    let ?d = "d\<lparr>episode_rows := episode_rows d @ [new_episode_row X (clk k) show m]\<rparr>"
    have "view X ?d = set_at show (em_id m) (Some (spec_new (clk k) show m)) (view X d)"
      using view_insert [OF Cons.prems(2)] Cons.prems None assms(1,2) by simp
    moreover have "db_inv X ?d"
      using db_inv_insert [OF assms(1,2) _ Cons.prems(2)] Cons.prems None list_ex_view [OF Cons.prems(2)]
      by simp
    ultimately show ?thesis
      using Cons.IH [of ?d "Suc k" "new @ [em_id m]"] Cons.prems None
      by (simp add: list_ex_view [OF Cons.prems(2)] fresh_ids_new)
  qed
qed simp

text \<open>The part of a record that belongs to the lifecycle and not to the provider's metadata.\<close>

definition lifecycle :: "episode_record \<Rightarrow>
    episode_state \<times> path option \<times> u64 option \<times> hash option \<times> audio_mime option \<times> timestamp \<times> timestamp option" where
  "lifecycle e = (r_state e, r_file_path e, r_bytes e, r_blake3 e, r_mime e, r_discovered_at e, r_downloaded_at e)"

lemma lifecycle_refresh [simp]: "lifecycle (spec_refresh m e) = lifecycle e"
  by (simp add: lifecycle_def spec_refresh_def)

lemma spec_discover_known:
  "v s j = Some e \<Longrightarrow> \<exists>e'. spec_discover clk k show ms v s j = Some e' \<and> lifecycle e' = lifecycle e"
proof (induction ms arbitrary: k v e)
  case (Cons m ms)
  show ?case
  proof (cases "v show (em_id m)")
    case None
    with Cons.prems have "set_at show (em_id m) (Some (spec_new (clk k) show m)) v s j = Some e"
      by (auto simp: set_at_def)
    with Cons.IH [where v = "set_at show (em_id m) (Some (spec_new (clk k) show m)) v" and e = e]
    show ?thesis by (simp add: None)
  next
    case (Some e1)
    with Cons.prems obtain e2 where
      "set_at show (em_id m) (Some (spec_refresh m e1)) v s j = Some e2" "lifecycle e2 = lifecycle e"
      by (cases "s = show \<and> j = em_id m") auto
    with Cons.IH [where v = "set_at show (em_id m) (Some (spec_refresh m e1)) v" and e = e2]
    show ?thesis by (simp add: Some)
  qed
qed simp

lemma spec_discover_stays: "v s j \<noteq> None \<Longrightarrow> spec_discover clk k show ms v s j \<noteq> None"
  using spec_discover_known [of v s j _ clk k "show" ms] by (cases "v s j") auto

lemma spec_discover_other:
  "s \<noteq> show \<or> j \<notin> em_id ` set ms \<Longrightarrow> spec_discover clk k show ms v s j = v s j"
  by (induction ms arbitrary: k v) (auto split: option.splits)

lemma spec_discover_listed: "m \<in> set ms \<Longrightarrow> spec_discover clk k show ms v show (em_id m) \<noteq> None"
proof (induction ms arbitrary: k v)
  case (Cons m1 ms)
  then show ?case
    by (cases "m = m1") (auto split: option.splits simp del: not_None_eq intro!: spec_discover_stays)
qed simp

lemma spec_discover_new:
  assumes "v show j = None" "spec_discover clk k show ms v show j = Some e"
  shows "r_state e = Discovered"
  using assms
proof (induction ms arbitrary: k v)
  case (Cons m ms)
  show ?case
  proof (cases "em_id m = j")
    case True
    with Cons.prems have "spec_discover clk (Suc k) show ms (set_at show j (Some (spec_new (clk k) show m)) v) show j = Some e"
      by simp
    moreover have "set_at show j (Some (spec_new (clk k) show m)) v show j = Some (spec_new (clk k) show m)"
      by simp
    ultimately obtain e' where "lifecycle e = lifecycle (spec_new (clk k) show m)"
      using spec_discover_known by (metis option.inject)
    then show ?thesis by (simp add: lifecycle_def spec_new_def)
  next
    case False
    with Cons.prems show ?thesis by (auto split: option.splits elim!: Cons.IH [rotated])
  qed
qed simp

lemma discover_unregistered:
  assumes "db_inv X d" "\<not> list_ex (is_show show) (show_rows d)" "ms \<noteq> []"
  shows "discover X clk show ms d = Inl (Sqlite ForeignKeyViolation)"
proof -
  have "\<not> list_ex (is_episode show i) (episode_rows d)" for i
    using assms(1,2) by (auto simp: db_inv_def list_ex_is_show list_ex_is_episode row_key_def)
  with assms(2,3) show ?thesis by (cases ms) (simp_all add: discover_def)
qed

lemma fresh_ids_none: "(\<And>i. i \<in> set is \<Longrightarrow> v show i \<noteq> None) \<Longrightarrow> fresh_ids show v is = []"
  by (induction "is") auto

lemma discover_refines:
  assumes "codec_ok X" "valid_slug show" "list_ex (is_show show) (show_rows d)" "db_inv X d"
    "\<forall>m \<in> set ms. valid_id (em_id m)"
  shows "\<exists>d'. discover X clk show ms d = Inr (fresh_ids show (view X d) (map em_id ms), d') \<and>
    view X d' = spec_discover clk 0 show ms (view X d) \<and> show_rows d' = show_rows d \<and> db_inv X d'"
  using discover_loop_refines [OF assms, of clk 0 "[]"] by (simp add: discover_def)

section \<open>Listing a show\<close>

definition feed_key :: "codec \<Rightarrow> episode_record \<Rightarrow> string option \<times> string" where
  "feed_key X e = (map_option (ts_show X) (r_published_at e), id_str (r_id e))"

lemma decode_published:
  assumes "row_wf X r" "decode_episode X r = Inr e"
  shows "e_published_at r = map_option (ts_show X) (r_published_at e)"
  using assms
  by (cases "e_published_at r")
    (auto simp: row_wf_def decode_episode_def bind_res_Inr_iff parse_col_Inr_iff map_res_Inr_iff ts_text_def)

lemma listed_rows_decode:
  assumes "db_inv X d" "storage_episodes X show d = Inr es"
  shows "list_all2 (\<lambda>r e. decode_episode X r = Inr e \<and> (e_published_at r, e_id r) = feed_key X e \<and>
    row_key r = (slug_str show, id_str (r_id e))) (show_episode_rows show d) es"
proof -
  have "list_all2 (\<lambda>r e. decode_episode X r = Inr e) (show_episode_rows show d) es"
    using assms(2) by (simp add: storage_episodes_def collect_res_Inr_iff list_all2_map1)
  moreover have "(e_published_at r, e_id r) = feed_key X e \<and> row_key r = (slug_str show, id_str (r_id e))"
    if "r \<in> set (show_episode_rows show d)" "decode_episode X r = Inr e" for r e
  proof -
    have r: "r \<in> set (episode_rows d)" "e_show_slug r = slug_str show"
      using that(1) by (auto simp: set_show_episode_rows)
    then have "e_published_at r = map_option (ts_show X) (r_published_at e)"
      using assms(1) that(2) by (intro decode_published) (auto simp: db_inv_def)
    with r decode_episode_key [OF that(2)] show ?thesis
      by (auto simp: feed_key_def row_key_def)
  qed
  ultimately show ?thesis by (auto simp: list_all2_conv_all_nth)
qed

lemma sorted_show_episode_rows:
  "sorted_wrt (\<lambda>a b. b \<le> a) (map (\<lambda>r. (e_published_at r, e_id r)) (show_episode_rows show d))"
  by (simp add: show_episode_rows_def rev_map [symmetric] sorted_wrt_rev sorted_sort_key)

lemma listed_sorted:
  assumes "db_inv X d" "storage_episodes X show d = Inr es"
  shows "sorted_wrt (\<lambda>a b. b \<le> a) (map (feed_key X) es)"
proof -
  have "map (\<lambda>r. (e_published_at r, e_id r)) (show_episode_rows show d) = map (feed_key X) es"
    using listed_rows_decode [OF assms] by (induction rule: list_all2_induct) auto
  with sorted_show_episode_rows [of "show" d] show ?thesis by simp
qed

lemma listed_set:
  assumes "db_inv X d" "storage_episodes X show d = Inr es"
  shows "set es = {e. \<exists>i. view X d show i = Some e}"
proof (intro set_eqI iffI CollectI)
  fix e assume "e \<in> set es"
  with listed_rows_decode [OF assms] obtain r where r: "r \<in> set (show_episode_rows show d)"
    "decode_episode X r = Inr e" "row_key r = (slug_str show, id_str (r_id e))"
    by (auto simp: list_all2_conv_all_nth in_set_conv_nth) metis
  then have "List.find (is_episode show (r_id e)) (episode_rows d) = Some r"
    using assms(1) by (intro find_key_unique) (auto simp: db_inv_def set_show_episode_rows is_episode_key)
  with r(2) have "view X d show (r_id e) = Some e" by (simp add: view_def)
  then show "\<exists>i. view X d show i = Some e" by blast
next
  fix e assume "e \<in> {e. \<exists>i. view X d show i = Some e}"
  then obtain i r where r: "List.find (is_episode show i) (episode_rows d) = Some r" "decode_episode X r = Inr e"
    by (auto simp: view_def bind_eq_Some_conv)
  then have "r \<in> set (show_episode_rows show d)"
    using find_Some_mem [OF r(1)] by (simp add: set_show_episode_rows is_episode_def)
  with listed_rows_decode [OF assms] r(2) show "e \<in> set es"
    by (auto simp: list_all2_conv_all_nth in_set_conv_nth)
qed

lemma listed_distinct:
  assumes "db_inv X d" "storage_episodes X show d = Inr es"
  shows "distinct (map r_id es)"
proof -
  have "map row_key (show_episode_rows show d) = map (\<lambda>e. (slug_str show, id_str (r_id e))) es"
    using listed_rows_decode [OF assms] by (induction rule: list_all2_induct) auto
  moreover have "distinct (map row_key (show_episode_rows show d))"
    using assms(1)
    by (simp add: db_inv_def show_episode_rows_def distinct_map inj_on_def)
  ultimately have "distinct (map (\<lambda>e. (slug_str show, id_str (r_id e))) es)" by simp
  then show ?thesis by (auto simp: distinct_map inj_on_def)
qed

section \<open>A concrete store\<close>

text \<open>A codec and a database for the examples: two episodes, one cached and one pruned.\<close>

definition demo_codec :: codec where
  "demo_codec =
     \<lparr>ts_show = (\<lambda>t. (if t < 0 then ''-'' else ''+'') @ show_nat (nat \<bar>t\<bar>)),
      ts_parse = (\<lambda>s. case s of [] \<Rightarrow> None
        | c # ds \<Rightarrow> Some (if c = CHR ''-'' then - int (read_nat ds) else int (read_nat ds))),
      hash_to_hex = (\<lambda>h. h), hash_from_hex = Some\<rparr>"

lemma demo_codec_ok: "codec_ok demo_codec"
  by (simp add: codec_ok_def demo_codec_def)

abbreviation demo_slug :: show_slug where
  "demo_slug \<equiv> ShowSlug ''after-hours''"

abbreviation demo_id :: "string \<Rightarrow> episode_id" where
  "demo_id \<equiv> EpisodeId"

abbreviation demo_episode :: "string \<Rightarrow> episode_row" where
  "demo_episode i \<equiv>
     \<lparr>e_show_slug = ''after-hours'', e_id = i, e_title = ''An hour'', e_description = None,
      e_published_at = Some ''+3'', e_duration_secs = Some 7200, e_state = ''cached'',
      e_error_class = None, e_file_path = Some ''/media/a.mp3'', e_bytes = Some 5, e_blake3 = Some ''h'',
      e_mime = Some ''audio/mpeg'', e_discovered_at = ''+4'', e_downloaded_at = Some ''+5'',
      e_bytes_done = None, e_bytes_total = None, e_progress_at = None\<rparr>"

definition demo_db :: db where
  "demo_db =
     \<lparr>show_rows = [\<lparr>s_slug = ''after-hours'', s_provider = ''difm'', s_title = ''After Hours'',
        s_description = None, s_artwork_path = None, s_last_poll_at = None, s_last_poll_ok = None,
        s_last_error = None, s_episodes_etag = None\<rparr>],
      episode_rows = [demo_episode ''162'',
        (demo_episode ''161'')\<lparr>e_state := ''pruned'', e_file_path := None\<rparr>,
        (demo_episode ''163'')\<lparr>e_state := ''downloading'', e_file_path := None\<rparr>]\<rparr>"

lemma demo_ts_text: "ts_text demo_codec ''+3''"
  unfolding ts_text_def by (rule exI [of _ 3]) code_simp

lemma demo_db_inv: "db_inv demo_codec demo_db"
  using demo_ts_text
  by (simp add: demo_db_def db_inv_def row_wf_def show_wf_def row_key_def row_state_def idle_progress_def
      valid_slug_def valid_id_def slug_char_def ascii_alnum_def char_code_def demo_codec_def)

abbreviation demo_file :: cached_file where
  "demo_file \<equiv> \<lparr>cf_file_path = ''/media/b.mp3'', cf_bytes = 9, cf_blake3 = ''k'',
     cf_mime = Some Mpeg, cf_duration_secs = None\<rparr>"

section \<open>Properties\<close>

text \<open>
  C3: The four lifecycle operations implement their record-level contract.  Whatever the rows
  hold, marking an episode succeeds exactly when the episode is stored and the state machine
  allows the move, reports which of the two failed otherwise, and on success changes that one
  record and nothing else: the file data written by \<open>mark_cached\<close> reads back, a failure
  carries its class, a tombstone keeps its hash and size and forgets only its path.
\<close>

theorem lifecycle_operations_refine:
  assumes "db_inv X d" "codec_ok X" "\<forall>m. cf_mime f = Some m \<longrightarrow> canonical_mime m"
  shows "map_res (\<lambda>(_, d'). view X d') (mark_downloading show i d) =
      spec_transition show i Downloading spec_downloading (view X d) \<and>
    map_res (\<lambda>(_, d'). view X d') (mark_cached X now show i f d) =
      spec_transition show i Cached (spec_cached now f) (view X d) \<and>
    map_res (\<lambda>(_, d'). view X d') (mark_failed show i c d) =
      spec_transition show i (Failed c) (spec_failed c) (view X d) \<and>
    map_res (\<lambda>(_, d'). view X d') (mark_pruned show i d) =
      spec_transition show i Pruned spec_pruned (view X d)"
  using assms
  by (intro conjI mark_downloading_refines mark_cached_refines mark_failed_refines mark_pruned_refines)

theorem lifecycle_operations_refine_witness:
  "map_res (\<lambda>(_, d'). view demo_codec d') (mark_downloading demo_slug (demo_id ''161'') demo_db) =
      spec_transition demo_slug (demo_id ''161'') Downloading spec_downloading (view demo_codec demo_db) \<and>
    map_res (\<lambda>(_, d'). view demo_codec d') (mark_cached demo_codec 7 demo_slug (demo_id ''161'') demo_file demo_db) =
      spec_transition demo_slug (demo_id ''161'') Cached (spec_cached 7 demo_file) (view demo_codec demo_db) \<and>
    map_res (\<lambda>(_, d'). view demo_codec d') (mark_failed demo_slug (demo_id ''161'') Disk demo_db) =
      spec_transition demo_slug (demo_id ''161'') (Failed Disk) (spec_failed Disk) (view demo_codec demo_db) \<and>
    map_res (\<lambda>(_, d'). view demo_codec d') (mark_pruned demo_slug (demo_id ''161'') demo_db) =
      spec_transition demo_slug (demo_id ''161'') Pruned spec_pruned (view demo_codec demo_db)"
  by (rule lifecycle_operations_refine)
    (simp_all add: demo_db_inv demo_codec_ok canonical_mime_def mime_from_def)

text \<open>
  C4: Discovery is exact and never touches a lifecycle.  For a registered show, \<open>discover\<close>
  returns the unknown ids of the listing, each once and in listing order, stores them as
  \<open>Discovered\<close>, and leaves state, file, hash and timestamps of every record that existed alone,
  pruned tombstones included; running it again finds nothing new.  For a show without a row
  a non-empty listing is refused and nothing is stored.
\<close>

theorem discover_exact:
  assumes "db_inv X d" "codec_ok X" "valid_slug show" "\<forall>m \<in> set ms. valid_id (em_id m)"
  shows "(list_ex (is_show show) (show_rows d) \<longrightarrow>
      (\<exists>d'. discover X clk show ms d = Inr (fresh_ids show (view X d) (map em_id ms), d') \<and>
        (\<forall>s j e. view X d s j = Some e \<longrightarrow> (\<exists>e'. view X d' s j = Some e' \<and> lifecycle e' = lifecycle e)) \<and>
        (\<forall>s j. s \<noteq> show \<or> j \<notin> em_id ` set ms \<longrightarrow> view X d' s j = view X d s j) \<and>
        (\<forall>j \<in> set (fresh_ids show (view X d) (map em_id ms)).
           \<exists>e. view X d' show j = Some e \<and> r_state e = Discovered) \<and>
        (\<forall>clk'. \<exists>d''. discover X clk' show ms d' = Inr ([], d'')))) \<and>
    (\<not> list_ex (is_show show) (show_rows d) \<longrightarrow> ms \<noteq> [] \<longrightarrow>
      discover X clk show ms d = Inl (Sqlite ForeignKeyViolation))"
proof (intro conjI impI)
  assume "list_ex (is_show show) (show_rows d)"
  then obtain d' where d': "discover X clk show ms d = Inr (fresh_ids show (view X d) (map em_id ms), d')"
    "view X d' = spec_discover clk 0 show ms (view X d)" "show_rows d' = show_rows d" "db_inv X d'"
    using discover_refines [of X "show" d ms clk] assms by blast
  have listed: "view X d' show (em_id m) \<noteq> None" if "m \<in> set ms" for m
    using spec_discover_listed [OF that] unfolding d'(2) by blast
  have "\<exists>d''. discover X clk' show ms d' = Inr ([], d'')" for clk'
  proof -
    have "fresh_ids show (view X d') (map em_id ms) = []"
      using listed by (intro fresh_ids_none) auto
    with discover_refines [of X "show" d' ms clk'] d'(3,4) assms
      \<open>list_ex (is_show show) (show_rows d)\<close> show ?thesis by auto
  qed
  moreover have "\<exists>e. view X d' show j = Some e \<and> r_state e = Discovered"
    if "j \<in> set (fresh_ids show (view X d) (map em_id ms))" for j
  proof -
    have "view X d show j = None" "view X d' show j \<noteq> None"
      using that listed by (auto simp: set_fresh_ids)
    then show ?thesis
      using spec_discover_new [of "view X d" "show" j clk 0 ms] d'(2) by auto
  qed
  ultimately show "\<exists>d'. discover X clk show ms d = Inr (fresh_ids show (view X d) (map em_id ms), d') \<and>
      (\<forall>s j e. view X d s j = Some e \<longrightarrow> (\<exists>e'. view X d' s j = Some e' \<and> lifecycle e' = lifecycle e)) \<and>
      (\<forall>s j. s \<noteq> show \<or> j \<notin> em_id ` set ms \<longrightarrow> view X d' s j = view X d s j) \<and>
      (\<forall>j \<in> set (fresh_ids show (view X d) (map em_id ms)).
         \<exists>e. view X d' show j = Some e \<and> r_state e = Discovered) \<and>
      (\<forall>clk'. \<exists>d''. discover X clk' show ms d' = Inr ([], d''))"
    using d'(1,2) by (intro exI [of _ d'] conjI)
      (simp_all add: spec_discover_known spec_discover_other)
next
  assume "\<not> list_ex (is_show show) (show_rows d)" "ms \<noteq> []"
  with assms(1) show "discover X clk show ms d = Inl (Sqlite ForeignKeyViolation)"
    by (rule discover_unregistered)
qed

abbreviation demo_meta :: "string \<Rightarrow> episode_meta" where
  "demo_meta i \<equiv> \<lparr>em_id = EpisodeId i, em_title = ''New'', em_description = None,
     em_published_at = Some 6, em_duration_secs = None\<rparr>"

theorem discover_exact_witness:
  "\<exists>d'. discover demo_codec (\<lambda>k. 9) demo_slug [demo_meta ''161'', demo_meta ''170''] demo_db =
      Inr ([EpisodeId ''170''], d') \<and>
    (\<exists>e'. view demo_codec d' demo_slug (EpisodeId ''161'') = Some e' \<and> r_state e' = Pruned)"
proof -
  have "list_ex (is_show demo_slug) (show_rows demo_db)"
    by (simp add: demo_db_def is_show_def)
  moreover have "fresh_ids demo_slug (view demo_codec demo_db) (map em_id [demo_meta ''161'', demo_meta ''170'']) =
      [EpisodeId ''170'']"
    by code_simp
  moreover have "map_option r_state (view demo_codec demo_db demo_slug (EpisodeId ''161'')) = Some Pruned"
    by code_simp
  moreover have "valid_slug demo_slug" by code_simp
  ultimately show ?thesis
    using discover_exact [OF demo_db_inv demo_codec_ok, of demo_slug
        "[demo_meta ''161'', demo_meta ''170'']" "\<lambda>k. 9"]
    by (auto simp: valid_id_def lifecycle_def) fastforce
qed

text \<open>
  Reading a show returns its whole catalog, once, in feed order: the records listed are
  exactly those stored for the show, no id twice, and each is at least as recent as the next,
  compared by the stored text of the publication time (absent last) and then by id.
\<close>

theorem storage_episodes_exact:
  assumes "db_inv X d"
  shows "\<exists>es. storage_episodes X show d = Inr es \<and>
    set es = {e. \<exists>i. view X d show i = Some e} \<and> distinct (map r_id es) \<and>
    sorted_wrt (\<lambda>a b. (map_option (ts_show X) (r_published_at b), id_str (r_id b))
        \<le> (map_option (ts_show X) (r_published_at a), id_str (r_id a))) es"
  using storage_episodes_total [OF assms(1), of "show"] listed_set [OF assms(1)] listed_distinct [OF assms(1)]
    listed_sorted [OF assms(1)]
  by (fastforce simp: sorted_wrt_map feed_key_def)

theorem storage_episodes_exact_witness:
  "\<exists>es. storage_episodes demo_codec demo_slug demo_db = Inr es \<and>
    set es = {e. \<exists>i. view demo_codec demo_db demo_slug i = Some e} \<and> distinct (map r_id es) \<and>
    sorted_wrt (\<lambda>a b. (map_option (ts_show demo_codec) (r_published_at b), id_str (r_id b))
        \<le> (map_option (ts_show demo_codec) (r_published_at a), id_str (r_id a))) es"
  by (rule storage_episodes_exact [OF demo_db_inv])

section \<open>Healing stale downloads\<close>

definition spec_heal :: "codec \<Rightarrow> string \<Rightarrow> episode_record \<Rightarrow> episode_record" where
  "spec_heal X cutoff e =
     (if r_state e = Downloading \<and>
         (case r_progress_at e of None \<Rightarrow> True | Some t \<Rightarrow> ts_show X t < cutoff)
      then spec_failed Network e else e)"

lemma decode_progress_at:
  assumes "row_wf X r" "decode_episode X r = Inr e"
  shows "e_progress_at r = map_option (ts_show X) (r_progress_at e)"
  using assms
  by (cases "e_progress_at r")
    (auto simp: row_wf_def decode_episode_def bind_res_Inr_iff parse_col_Inr_iff map_res_Inr_iff ts_text_def)

lemma is_stale_decode:
  assumes "row_wf X r" "decode_episode X r = Inr e" "is_episode s j r"
  shows "is_stale show cutoff r \<longleftrightarrow>
    s = show \<and> r_state e = Downloading \<and>
    (case r_progress_at e of None \<Rightarrow> True | Some t \<Rightarrow> ts_show X t < cutoff)"
  using assms decode_progress_at [OF assms(1,2)] decode_episode_state [OF assms(2)]
    row_state_downloading [of r]
  by (auto simp: is_stale_def is_episode_def slug_str_inj split: option.splits)

lemma heal_row: "clear_progress (r\<lparr>e_state := ''failed'', e_error_class := Some ''network''\<rparr>) = failed_row Network r"
  by (simp add: failed_row_def)

lemma reset_stale_refines:
  fixes secs :: nat and now :: timestamp
  assumes "db_inv X d"
  defines "cutoff \<equiv> ts_show X (now - int secs * 1000000000)"
  shows "map_res (\<lambda>(_, d'). view X d') (reset_stale_downloads X now show secs d) =
    Inr (\<lambda>s j. if s = show then map_option (spec_heal X cutoff) (view X d s j) else view X d s j)"
proof -
  let ?f = "failed_row Network" and ?P = "is_stale show cutoff"
  have "view X (d\<lparr>episode_rows := update_where ?P ?f (episode_rows d)\<rparr>) s j =
      (if s = show then map_option (spec_heal X cutoff) (view X d s j) else view X d s j)" for s j
  proof -
    have find: "List.find (is_episode s j) (update_where ?P ?f (episode_rows d)) =
        map_option (\<lambda>r. if ?P r then ?f r else r) (List.find (is_episode s j) (episode_rows d))"
      by (intro find_update_where) (simp add: is_episode_key)
    show ?thesis
    proof (cases "List.find (is_episode s j) (episode_rows d)")
      case None
      then have "view X d s j = None"
        "view X (d\<lparr>episode_rows := update_where ?P ?f (episode_rows d)\<rparr>) s j = None"
        by (simp_all add: view_def find)
      then show ?thesis by auto
    next
      case (Some r)
      obtain e where e: "view X d s j = Some e" "decode_episode X r = Inr e"
        using view_find(2) [OF assms(1) Some] by auto
      have "row_wf X r" "is_episode s j r"
        using assms(1) find_Some_mem [OF Some] by (simp_all add: db_inv_def)
      from is_stale_decode [OF this(1) e(2) this(2), of "show" cutoff]
      have stale: "?P r \<Longrightarrow> s = show \<and> spec_heal X cutoff e = spec_failed Network e"
        "\<not> ?P r \<Longrightarrow> s = show \<Longrightarrow> spec_heal X cutoff e = e"
        by (auto simp: spec_heal_def)
      have "view X (d\<lparr>episode_rows := update_where ?P ?f (episode_rows d)\<rparr>) s j =
          ok (decode_episode X (if ?P r then ?f r else r))"
        by (simp add: view_def find Some)
      with stale e decode_failed [OF e(2), of Network] show ?thesis by auto
    qed
  qed
  then show ?thesis
    unfolding cutoff_def by (simp add: reset_stale_downloads_def Let_def heal_row fun_eq_iff)
qed

text \<open>
  Healing and progress never disturb a live or a finished episode.
  \<open>reset_stale_downloads\<close> turns exactly the show's \<open>Downloading\<close> records whose last progress
  is missing or older than the cutoff into \<open>Failed Network\<close>, and \<open>set_progress\<close> changes a
  record only while it is \<open>Downloading\<close>, so a late progress report cannot overwrite a
  completion; every other record of every show is untouched by both.
\<close>

theorem heal_and_progress_refine:
  assumes "db_inv X d" "codec_ok X"
  shows "map_res (\<lambda>(_, d'). view X d') (reset_stale_downloads X now show secs d) =
      Inr (\<lambda>s j. if s = show
        then map_option (spec_heal X (ts_show X (now - int secs * 1000000000))) (view X d s j)
        else view X d s j) \<and>
    map_res (\<lambda>(_, d'). view X d') (set_progress X now show i b t d) =
      Inr (set_at show i (map_option (spec_progress now b t) (view X d show i)) (view X d))"
  by (intro conjI reset_stale_refines [OF assms(1)] set_progress_refines [OF assms])

theorem heal_and_progress_refine_witness:
  "map_res (\<lambda>(_, d'). view demo_codec d') (reset_stale_downloads demo_codec 9 demo_slug 300 demo_db) =
      Inr (\<lambda>s j. if s = demo_slug
        then map_option (spec_heal demo_codec (ts_show demo_codec (9 - int 300 * 1000000000)))
          (view demo_codec demo_db s j)
        else view demo_codec demo_db s j) \<and>
    map_res (\<lambda>(_, d'). view demo_codec d') (set_progress demo_codec 9 demo_slug (demo_id ''163'') 4 None demo_db) =
      Inr (set_at demo_slug (demo_id ''163'')
        (map_option (spec_progress 9 4 None) (view demo_codec demo_db demo_slug (demo_id ''163'')))
        (view demo_codec demo_db))"
  by (rule heal_and_progress_refine [OF demo_db_inv demo_codec_ok])

end
