(* ===== verification/Lifecycle.thy ===== *)
theory Lifecycle
  imports Storage_Spec
begin

text \<open>
  Histories of the storage layer.  Every method of the \<open>Storage\<close> handle is a constructor of
  \<open>storage_op\<close>; the connection's mutex makes a run of the program a sequence of them.  The
  locale \<open>lifecycle_store\<close> states what one operation owes the episode state machine and
  derives what every history keeps; the storage layer interprets it.
\<close>

section \<open>Operations as steps\<close>

datatype 'u storage_op =
    UpsertShow "'u show_meta" string
  | RecordPoll timestamp show_slug "string option"
  | SetArtworkPath show_slug path
  | SetEpisodesEtag show_slug "string option"
  | ResetStaleDownloads timestamp show_slug nat
  | Discover "nat \<Rightarrow> timestamp" show_slug "episode_meta list"
  | SetProgress timestamp show_slug episode_id u64 "u64 option"
  | MarkDownloading show_slug episode_id
  | MarkCached timestamp show_slug episode_id cached_file
  | MarkFailed show_slug episode_id error_class
  | MarkPruned show_slug episode_id

text \<open>A failed operation rolls its transaction back.\<close>

fun after :: "db \<Rightarrow> 'a stored \<Rightarrow> db" where
  "after d (Inl e) = d"
| "after d (Inr (a, d')) = d'"

fun perform :: "codec \<Rightarrow> 'u storage_op \<Rightarrow> db \<Rightarrow> db" where
  "perform X (UpsertShow meta provider) d = after d (upsert_show meta provider d)"
| "perform X (RecordPoll now show err) d = after d (record_poll X now show err d)"
| "perform X (SetArtworkPath show p) d = after d (set_artwork_path show p d)"
| "perform X (SetEpisodesEtag show etag) d = after d (set_episodes_etag show etag d)"
| "perform X (ResetStaleDownloads now show secs) d = after d (reset_stale_downloads X now show secs d)"
| "perform X (Discover clk show ms) d = after d (discover X clk show ms d)"
| "perform X (SetProgress now show i b t) d = after d (set_progress X now show i b t d)"
| "perform X (MarkDownloading show i) d = after d (mark_downloading show i d)"
| "perform X (MarkCached now show i f) d = after d (mark_cached X now show i f d)"
| "perform X (MarkFailed show i c) d = after d (mark_failed show i c d)"
| "perform X (MarkPruned show i) d = after d (mark_pruned show i d)"

text \<open>Arguments are values of the validated newtypes and of \<open>AudioMime::from\<close>.\<close>

fun admissible :: "'u storage_op \<Rightarrow> bool" where
  "admissible (UpsertShow meta provider) \<longleftrightarrow> valid_slug (sm_slug meta)"
| "admissible (Discover clk show ms) \<longleftrightarrow> valid_slug show \<and> list_all (\<lambda>m. valid_id (em_id m)) ms"
| "admissible (MarkCached now show i f) \<longleftrightarrow>
     (case cf_mime f of None \<Rightarrow> True | Some m \<Rightarrow> canonical_mime m)"
| "admissible _ \<longleftrightarrow> True"

definition recorded_state :: "codec \<Rightarrow> show_slug \<times> episode_id \<Rightarrow> db \<Rightarrow> episode_state option" where
  "recorded_state X k d = map_option r_state (view X d (fst k) (snd k))"

section \<open>The interface: a store that follows the state machine\<close>

locale lifecycle_store =
  fixes inv :: "'s \<Rightarrow> bool"
    and allowed :: "'op \<Rightarrow> bool"
    and exec :: "'op \<Rightarrow> 's \<Rightarrow> 's"
    and look :: "'k \<Rightarrow> 's \<Rightarrow> episode_state option"
    and revives :: "'k \<Rightarrow> 'op \<Rightarrow> bool"
  assumes inv_exec: "inv s \<Longrightarrow> allowed p \<Longrightarrow> inv (exec p s)"
    and legal: "inv s \<Longrightarrow> allowed p \<Longrightarrow> look k s = Some a \<Longrightarrow>
      \<exists>b. look k (exec p s) = Some b \<and> (b = a \<or> can_transition_to a b)"
    and fresh: "inv s \<Longrightarrow> allowed p \<Longrightarrow> look k s = None \<Longrightarrow>
      look k (exec p s) \<in> {None, Some Discovered}"
    and tombstone: "inv s \<Longrightarrow> allowed p \<Longrightarrow> look k s = Some Pruned \<Longrightarrow> \<not> revives k p \<Longrightarrow>
      look k (exec p s) = Some Pruned"
begin

definition history :: "'op list \<Rightarrow> 's \<Rightarrow> 's" where
  "history ps s = fold exec ps s"

lemma history_simps [simp]:
  "history [] s = s" "history (p # ps) s = history ps (exec p s)"
  by (simp_all add: history_def)

lemma history_inv: "inv s \<Longrightarrow> list_all allowed ps \<Longrightarrow> inv (history ps s)"
  by (induction ps arbitrary: s) (auto intro: inv_exec)

lemma history_legal:
  assumes "inv s" "list_all allowed ps" "look k s = Some a"
  shows "\<exists>b. look k (history ps s) = Some b \<and> can_transition_to\<^sup>*\<^sup>* a b"
  using assms
proof (induction ps arbitrary: s a)
  case (Cons p ps)
  from Cons.prems legal [of s p k a] obtain b where
    b: "look k (exec p s) = Some b" "b = a \<or> can_transition_to a b" by auto
  from Cons.IH [OF _ _ b(1)] Cons.prems obtain c where
    "look k (history ps (exec p s)) = Some c" "can_transition_to\<^sup>*\<^sup>* b c" by (auto intro: inv_exec)
  with b(2) show ?case by (auto intro: converse_rtranclp_into_rtranclp)
qed simp

text \<open>Nothing becomes \<open>Discovered\<close> a second time.\<close>

lemma history_not_rediscovered:
  assumes "inv s" "list_all allowed ps" "look k s = Some a" "a \<noteq> Discovered"
  shows "look k (history ps s) \<noteq> Some Discovered"
proof -
  from history_legal [OF assms(1-3)] obtain b where
    b: "look k (history ps s) = Some b" "can_transition_to\<^sup>*\<^sup>* a b" by auto
  from b(2) assms(4) have "b \<noteq> Discovered"
    by (induction rule: rtranclp_induct) (auto simp: never_into_Discovered)
  with b(1) show ?thesis by simp
qed

lemma history_tombstone:
  assumes "inv s" "list_all allowed ps" "look k s = Some Pruned" "\<forall>p \<in> set ps. \<not> revives k p"
  shows "look k (history ps s) = Some Pruned"
  using assms
proof (induction ps arbitrary: s)
  case (Cons p ps)
  then have "look k (exec p s) = Some Pruned" by (simp add: tombstone)
  with Cons show ?case by (simp add: inv_exec)
qed simp

end

section \<open>The storage layer is such a store\<close>

lemma after_inv:
  "db_inv X d \<Longrightarrow> (\<And>a d'. r = Inr (a, d') \<Longrightarrow> db_inv X d') \<Longrightarrow> db_inv X (after d r)"
  by (cases r) auto

lemma perform_inv:
  assumes "codec_ok X" "db_inv X d" "admissible p"
  shows "db_inv X (perform X p d)"
proof (cases p)
  case (UpsertShow meta provider)
  with upsert_show_inv [OF assms(2), of meta provider] assms(3) show ?thesis
    by (auto simp: list_all_iff intro!: after_inv assms(2))
next
  case (RecordPoll now s err)
  with record_poll_inv [OF assms(1,2), of now s err] show ?thesis
    by (auto simp: list_all_iff intro!: after_inv assms(2))
next
  case (SetArtworkPath s f)
  with set_artwork_path_inv [OF assms(2), of s f] show ?thesis
    by (auto simp: list_all_iff intro!: after_inv assms(2))
next
  case (SetEpisodesEtag s etag)
  with set_episodes_etag_inv [OF assms(2), of s etag] show ?thesis
    by (auto simp: list_all_iff intro!: after_inv assms(2))
next
  case (ResetStaleDownloads now s secs)
  with reset_stale_downloads_inv [OF assms(2), of now s secs] show ?thesis
    by (auto simp: list_all_iff intro!: after_inv assms(2))
next
  case (Discover clk s ms)
  with discover_inv [OF assms(1), of s ms d clk] assms(2,3) show ?thesis
    by (auto simp: list_all_iff intro!: after_inv assms(2))
next
  case (SetProgress now s i b t)
  with set_progress_inv [OF assms(1,2), of now s i b t] show ?thesis
    by (auto simp: list_all_iff intro!: after_inv assms(2))
next
  case (MarkDownloading s i)
  with mark_downloading_inv [OF assms(2), of s i] show ?thesis
    by (auto simp: list_all_iff intro!: after_inv assms(2))
next
  case (MarkCached now s i f)
  with mark_cached_inv [OF assms(1,2), of now s i f] show ?thesis
    by (auto simp: list_all_iff intro!: after_inv assms(2))
next
  case (MarkFailed s i c)
  with mark_failed_inv [OF assms(2), of s i c] show ?thesis
    by (auto simp: list_all_iff intro!: after_inv assms(2))
next
  case (MarkPruned s i)
  with mark_pruned_inv [OF assms(2), of s i] show ?thesis
    by (auto simp: list_all_iff intro!: after_inv assms(2))
qed

lemma view_after:
  "map_res (\<lambda>(_, d'). view X d') r = w \<Longrightarrow>
   view X (after d r) = (case w of Inl e \<Rightarrow> view X d | Inr v \<Rightarrow> v)"
  by (cases r) auto

text \<open>What one step may do to the record of one episode.\<close>

definition lawful :: "store_view \<Rightarrow> store_view \<Rightarrow> show_slug \<Rightarrow> episode_id \<Rightarrow> bool \<Rightarrow> bool" where
  "lawful v v' s j revived \<longleftrightarrow>
     (case v s j of
        None \<Rightarrow> map_option r_state (v' s j) \<in> {None, Some Discovered}
      | Some e \<Rightarrow> \<exists>e'. v' s j = Some e' \<and>
          (r_state e' = r_state e \<or>
           can_transition_to (r_state e) (r_state e') \<and> (r_state e = Pruned \<longrightarrow> revived)))"

lemma lawful_refl: "lawful v v s j rv"
  by (simp add: lawful_def split: option.split)

lemma spec_states [simp]:
  "r_state (spec_downloading e) = Downloading" "r_state (spec_failed c e) = Failed c"
  "r_state (spec_pruned e) = Pruned" "r_state (spec_cached now f e) = Cached"
  "r_state (spec_progress now b t e) = r_state e"
  by (simp_all add: spec_downloading_def spec_failed_def spec_pruned_def spec_cached_def
      spec_progress_def no_progress_def)

lemma lawful_transition:
  assumes "map_res (\<lambda>(_, d'). view X d') r = spec_transition show i to g (view X d)"
    "\<And>e. r_state (g e) = to" "to = Downloading \<Longrightarrow> s = show \<Longrightarrow> j = i \<Longrightarrow> rv"
  shows "lawful (view X d) (view X (after d r)) s j rv"
proof -
  have "can_transition_to Pruned to \<longleftrightarrow> to = Downloading" by (cases to) simp_all
  with assms(2,3) show ?thesis
    unfolding view_after [OF assms(1)]
    by (auto simp: lawful_def spec_transition_def set_at_def split: option.splits)
qed

lemma lawful_progress:
  assumes "map_res (\<lambda>(_, d'). view X d') r =
    Inr (set_at show i (map_option (spec_progress now b t) (view X d show i)) (view X d))"
  shows "lawful (view X d) (view X (after d r)) s j rv"
  unfolding view_after [OF assms] by (auto simp: lawful_def set_at_def split: option.splits)

lemma lawful_heal:
  assumes "map_res (\<lambda>(_, d'). view X d') r =
    Inr (\<lambda>s j. if s = show then map_option (spec_heal X cutoff) (view X d s j) else view X d s j)"
  shows "lawful (view X d) (view X (after d r)) s j rv"
  unfolding view_after [OF assms] by (auto simp: lawful_def spec_heal_def split: option.splits)

lemma lawful_discover:
  assumes "codec_ok X" "db_inv X d" "valid_slug show" "\<forall>m \<in> set ms. valid_id (em_id m)"
  shows "lawful (view X d) (view X (after d (discover X clk show ms d))) s j rv"
proof (cases "list_ex (is_show show) (show_rows d)")
  case True
  then obtain ids d' where d': "discover X clk show ms d = Inr (ids, d')"
    "view X d' = spec_discover clk 0 show ms (view X d)"
    using discover_refines [OF assms(1,3) True assms(2,4), of clk] by blast
  show ?thesis
  proof (cases "view X d s j")
    case None
    show ?thesis
    proof (cases "s = show")
      case True
      with None show ?thesis
        using spec_discover_new [of "view X d" s j clk 0 ms] d' by (auto simp: lawful_def)
    next
      case False
      with None d' show ?thesis by (simp add: lawful_def spec_discover_other)
    qed
  next
    case (Some e)
    with spec_discover_known [where v = "view X d" and s = s and j = j and e = e and clk = clk and k = 0
        and ms = ms] d'
    show ?thesis by (auto simp: lawful_def lifecycle_def)
  qed
next
  case False
  then show ?thesis
    using discover_unregistered [OF assms(2) False, of ms clk] lawful_refl [of "view X d"]
    by (cases "ms = []") (auto simp: discover_def)
qed

fun downloads :: "show_slug \<times> episode_id \<Rightarrow> 'u storage_op \<Rightarrow> bool" where
  "downloads k (MarkDownloading show i) \<longleftrightarrow> k = (show, i)"
| "downloads k _ \<longleftrightarrow> False"

lemma view_show_rows [simp]: "view X (d\<lparr>show_rows := rs\<rparr>) = view X d"
  by (simp add: view_def)

lemma perform_lawful:
  assumes "codec_ok X" "db_inv X d" "admissible p"
  shows "lawful (view X d) (view X (perform X p d)) s j (downloads (s, j) p)"
proof (cases p)
  case (ResetStaleDownloads now s secs)
  then show ?thesis using lawful_heal [OF reset_stale_refines [OF assms(2)]] by simp
next
  case (Discover clk s ms)
  with assms show ?thesis by (simp add: lawful_discover list_all_iff)
next
  case (SetProgress now s i b t)
  then show ?thesis using lawful_progress [OF set_progress_refines [OF assms(2,1)]] by simp
next
  case (MarkDownloading s i)
  then show ?thesis by (auto intro: lawful_transition [OF mark_downloading_refines [OF assms(2)]])
next
  case (MarkCached now s i f)
  with assms show ?thesis
    by (auto intro!: lawful_transition [OF mark_cached_refines [OF assms(2,1)]] split: option.splits)
next
  case (MarkFailed s i c)
  then show ?thesis by (auto intro: lawful_transition [OF mark_failed_refines [OF assms(2)]])
next
  case (MarkPruned s i)
  then show ?thesis by (auto intro: lawful_transition [OF mark_pruned_refines [OF assms(2)]])
qed (simp_all add: lawful_refl upsert_show_def record_poll_def set_artwork_path_def set_episodes_etag_def)

section \<open>Histories of the storage layer\<close>

text \<open>The interface's state is the database of one codec; operations run on it.\<close>

definition storage_inv :: "codec \<times> db \<Rightarrow> bool" where
  "storage_inv s \<longleftrightarrow> codec_ok (fst s) \<and> db_inv (fst s) (snd s)"

definition storage_exec :: "'u storage_op \<Rightarrow> codec \<times> db \<Rightarrow> codec \<times> db" where
  "storage_exec p s = (fst s, perform (fst s) p (snd s))"

definition storage_look :: "show_slug \<times> episode_id \<Rightarrow> codec \<times> db \<Rightarrow> episode_state option" where
  "storage_look k s = recorded_state (fst s) k (snd s)"

interpretation store: lifecycle_store storage_inv admissible storage_exec storage_look downloads
proof unfold_locales
  fix s :: "codec \<times> db" and p :: "'u storage_op" and k :: "show_slug \<times> episode_id" and a
  assume s: "storage_inv s" and p: "admissible p"
  show "storage_inv (storage_exec p s)"
    using s p perform_inv [of "fst s" "snd s" p] by (simp add: storage_inv_def storage_exec_def)
  have law: "lawful (view (fst s) (snd s)) (view (fst s) (perform (fst s) p (snd s))) (fst k) (snd k) (downloads k p)"
    using perform_lawful [of "fst s" "snd s" p "fst k" "snd k"] s p by (simp add: storage_inv_def)
  { assume "storage_look k s = Some a"
    with law show "\<exists>b. storage_look k (storage_exec p s) = Some b \<and> (b = a \<or> can_transition_to a b)"
      by (auto simp: lawful_def storage_look_def storage_exec_def recorded_state_def) }
  { assume "storage_look k s = None"
    with law show "storage_look k (storage_exec p s) \<in> {None, Some Discovered}"
      by (simp add: lawful_def storage_look_def storage_exec_def recorded_state_def) }
  { assume "storage_look k s = Some Pruned" "\<not> downloads k p"
    with law show "storage_look k (storage_exec p s) = Some Pruned"
      by (auto simp: lawful_def storage_look_def storage_exec_def recorded_state_def) }
qed

definition run_ops :: "codec \<Rightarrow> 'u storage_op list \<Rightarrow> db \<Rightarrow> db" where
  "run_ops X ps d = fold (perform X) ps d"

lemma run_ops_history: "store.history ps (X, d) = (X, run_ops X ps d)"
  by (induction ps arbitrary: d) (simp_all add: run_ops_def storage_exec_def)

lemma run_ops_append: "run_ops X (ps @ qs) d = run_ops X qs (run_ops X ps d)"
  by (simp add: run_ops_def)

lemma run_ops_inv:
  "codec_ok X \<Longrightarrow> db_inv X d \<Longrightarrow> list_all admissible ps \<Longrightarrow> db_inv X (run_ops X ps d)"
  using store.history_inv [of "(X, d)" ps] by (simp add: run_ops_history storage_inv_def)

section \<open>Properties\<close>

text \<open>
  C5: The database is never corrupted by its own operations.  After any sequence of storage
  operations on a new database, in any order and whether or not each of them succeeded, the
  invariant holds (unique keys, no orphan episodes, the columns each state requires) and every
  read succeeds, so \<open>StorageError::Corrupt\<close> is reported only for a file changed by others.
\<close>

theorem storage_never_corrupt:
  assumes "codec_ok X" "list_all admissible ps"
  shows "db_inv X (run_ops X ps empty_db) \<and>
    (\<exists>es. storage_episodes X show (run_ops X ps empty_db) = Inr es) \<and>
    (\<exists>r. storage_show X show (run_ops X ps empty_db) = Inr r) \<and>
    (\<exists>rs. storage_shows X (run_ops X ps empty_db) = Inr rs)"
proof -
  have inv: "db_inv X (run_ops X ps empty_db)"
    by (rule run_ops_inv [OF assms(1) db_inv_empty assms(2)])
  then show ?thesis
    by (intro conjI storage_episodes_total storage_show_total storage_shows_total)
qed

abbreviation demo_ops :: "unit storage_op list" where
  "demo_ops \<equiv>
     [UpsertShow \<lparr>sm_slug = demo_slug, sm_title = ''After Hours'', sm_description = None, sm_artwork = None\<rparr> ''difm'',
      Discover (\<lambda>k. 4) demo_slug [demo_meta ''161'', demo_meta ''162''],
      MarkCached 5 demo_slug (demo_id ''161'') demo_file,
      MarkDownloading demo_slug (demo_id ''161''),
      SetProgress 5 demo_slug (demo_id ''161'') 3 (Some 9),
      MarkCached 6 demo_slug (demo_id ''161'') demo_file,
      MarkPruned demo_slug (demo_id ''161'')]"

abbreviation demo_more :: "unit storage_op list" where
  "demo_more \<equiv>
     [Discover (\<lambda>k. 8) demo_slug [demo_meta ''161''], RecordPoll 8 demo_slug None,
      MarkDownloading demo_slug (demo_id ''162'')]"

lemma demo_ops_admissible: "list_all admissible demo_ops" "list_all admissible demo_more"
  by (simp_all add: valid_slug_def valid_id_def slug_char_def ascii_alnum_def char_code_def
      canonical_mime_def mime_from_def)

theorem storage_never_corrupt_witness:
  "db_inv demo_codec (run_ops demo_codec demo_ops empty_db) \<and>
    (\<exists>es. storage_episodes demo_codec demo_slug (run_ops demo_codec demo_ops empty_db) = Inr es) \<and>
    (\<exists>r. storage_show demo_codec demo_slug (run_ops demo_codec demo_ops empty_db) = Inr r) \<and>
    (\<exists>rs. storage_shows demo_codec (run_ops demo_codec demo_ops empty_db) = Inr rs)"
  by (rule storage_never_corrupt [OF demo_codec_ok demo_ops_admissible(1)])

text \<open>
  C2: Every history follows the lifecycle.  Once an episode is stored, no sequence of storage
  operations removes it or moves it along anything but allowed transitions; it never looks
  newly discovered again after it left \<open>Discovered\<close>; and a pruned tombstone stays pruned,
  through any number of polls, until \<open>mark_downloading\<close> is called for that very episode.
\<close>

theorem histories_follow_lifecycle:
  assumes "codec_ok X" "list_all admissible ps" "list_all admissible qs"
    "recorded_state X k (run_ops X ps empty_db) = Some a"
  shows "\<exists>b. recorded_state X k (run_ops X (ps @ qs) empty_db) = Some b \<and>
    can_transition_to\<^sup>*\<^sup>* a b \<and> (b = Discovered \<longrightarrow> a = Discovered) \<and>
    (a = Pruned \<longrightarrow> (\<forall>p \<in> set qs. \<not> downloads k p) \<longrightarrow> b = Pruned)"
proof -
  let ?s = "(X, run_ops X ps empty_db)"
  have s: "storage_inv ?s"
    using run_ops_inv [OF assms(1) db_inv_empty assms(2)] assms(1) by (simp add: storage_inv_def)
  have look: "storage_look k ?s = Some a" using assms(4) by (simp add: storage_look_def)
  have result: "storage_look k (store.history qs ?s) = recorded_state X k (run_ops X (ps @ qs) empty_db)"
    by (simp add: run_ops_history run_ops_append storage_look_def)
  from store.history_legal [OF s assms(3) look] store.history_not_rediscovered [OF s assms(3) look]
    store.history_tombstone [OF s assms(3), of k] look
  show ?thesis unfolding result by auto
qed

theorem histories_follow_lifecycle_witness:
  "\<exists>b. recorded_state demo_codec (demo_slug, demo_id ''161'') (run_ops demo_codec (demo_ops @ demo_more) empty_db) = Some b \<and>
    can_transition_to\<^sup>*\<^sup>* Pruned b \<and> (b = Discovered \<longrightarrow> Pruned = Discovered) \<and>
    (Pruned = Pruned \<longrightarrow> (\<forall>p \<in> set demo_more. \<not> downloads (demo_slug, demo_id ''161'') p) \<longrightarrow> b = Pruned)"
proof (rule histories_follow_lifecycle [OF demo_codec_ok demo_ops_admissible])
  show "recorded_state demo_codec (demo_slug, demo_id ''161'') (run_ops demo_codec demo_ops empty_db) = Some Pruned"
    by code_simp
qed

end
