(* ===== verification/Migrate.thy ===== *)
theory Migrate
  imports Storage
begin

text \<open>
  Schema migration (\<open>migrate\<close> and the \<open>SCHEMA_V*\<close> batches of \<open>crates/core/src/storage.rs\<close>).
  A schema is its tables with their columns, its indexes and the \<open>user_version\<close> pragma.
  \<open>execute_batch\<close> runs statements one by one outside any transaction, so every prefix of the
  work is a state the file can be left in.
\<close>

section \<open>Schemas and statements\<close>

record schema =
  sc_tables :: "(string \<times> string list) list"
  sc_indexes :: "string list"
  sc_version :: int

datatype statement =
    CreateTable string "string list"
  | CreateIndex string string
  | AddColumn string string
  | SetUserVersion int

fun run_statement :: "statement \<Rightarrow> schema \<Rightarrow> sqlite_error + schema" where
  "run_statement (CreateTable t cols) s =
     (if t \<in> fst ` set (sc_tables s) then Inl (SchemaConflict t)
      else Inr (s\<lparr>sc_tables := sc_tables s @ [(t, cols)]\<rparr>))"
| "run_statement (CreateIndex i t) s =
     (if i \<in> set (sc_indexes s) \<or> t \<notin> fst ` set (sc_tables s) then Inl (SchemaConflict i)
      else Inr (s\<lparr>sc_indexes := sc_indexes s @ [i]\<rparr>))"
| "run_statement (AddColumn t c) s =
     (case map_of (sc_tables s) t of
        None \<Rightarrow> Inl (SchemaConflict t)
      | Some cols \<Rightarrow>
          if c \<in> set cols then Inl (SchemaConflict c)
          else Inr (s\<lparr>sc_tables := map (\<lambda>(n, cs). if n = t then (n, cs @ [c]) else (n, cs)) (sc_tables s)\<rparr>))"
| "run_statement (SetUserVersion v) s = Inr (s\<lparr>sc_version := v\<rparr>)"

text \<open>The outcome of a batch and the schema it leaves, also when it stops half-way.\<close>

fun execute_batch :: "statement list \<Rightarrow> schema \<Rightarrow> (sqlite_error + unit) \<times> schema" where
  "execute_batch [] s = (Inr (), s)"
| "execute_batch (st # sts) s =
     (case run_statement st s of
        Inl e \<Rightarrow> (Inl e, s)
      | Inr s' \<Rightarrow> execute_batch sts s')"

definition schema_v1 :: "statement list" where
  "schema_v1 =
     [CreateTable ''shows'' [''slug'', ''provider'', ''title'', ''description'', ''artwork_path'',
        ''last_poll_at'', ''last_poll_ok'', ''last_error''],
      CreateTable ''episodes'' [''show_slug'', ''provider_episode_id'', ''title'', ''description'',
        ''published_at'', ''duration_secs'', ''state'', ''error_class'', ''file_path'', ''bytes'',
        ''blake3'', ''mime'', ''discovered_at'', ''downloaded_at''],
      CreateIndex ''episodes_by_show_state'' ''episodes'']"

definition schema_v2 :: "statement list" where
  "schema_v2 = [AddColumn ''episodes'' ''bytes_done'', AddColumn ''episodes'' ''bytes_total'',
     AddColumn ''episodes'' ''progress_at'']"

definition schema_v3 :: "statement list" where
  "schema_v3 = [AddColumn ''shows'' ''episodes_etag'']"

section \<open>The migration\<close>

fun and_then :: "('e + unit) \<times> 's \<Rightarrow> ('s \<Rightarrow> ('e + unit) \<times> 's) \<Rightarrow> ('e + unit) \<times> 's" where
  "and_then (Inl e, s) f = (Inl e, s)"
| "and_then (Inr u, s) f = f s"

definition migrate :: "schema \<Rightarrow> (sqlite_error + unit) \<times> schema" where
  "migrate s =
     (let version = sc_version s in
      and_then (if version < 1 then execute_batch schema_v1 s else (Inr (), s)) (\<lambda>s.
      and_then (if version < 2 then execute_batch schema_v2 s else (Inr (), s)) (\<lambda>s.
      and_then (if version < 3 then execute_batch schema_v3 s else (Inr (), s)) (\<lambda>s.
      execute_batch [SetUserVersion 3] s))))"

text \<open>The statements a migration from a version goes through.\<close>

definition pending :: "int \<Rightarrow> statement list" where
  "pending v = (if v < 1 then schema_v1 else []) @ (if v < 2 then schema_v2 else []) @
     (if v < 3 then schema_v3 else []) @ [SetUserVersion 3]"

lemma execute_batch_append:
  "execute_batch (xs @ ys) s = and_then (execute_batch xs s) (execute_batch ys)"
  by (induction xs arbitrary: s) (simp_all split: sum.split)

lemma execute_batch_append_fun:
  "execute_batch (xs @ ys) = (\<lambda>s. and_then (execute_batch xs s) (execute_batch ys))"
  by (simp add: fun_eq_iff execute_batch_append)

lemma migrate_pending: "migrate s = execute_batch (pending (sc_version s)) s"
  by (simp add: migrate_def pending_def execute_batch_append_fun Let_def
      del: execute_batch.simps(2))

text \<open>A process killed after \<open>k\<close> statements, and the schema of each released version.\<close>

definition killed_after :: "nat \<Rightarrow> schema \<Rightarrow> schema" where
  "killed_after k s = snd (execute_batch (take k (pending (sc_version s))) s)"

definition new_file :: schema where
  "new_file = \<lparr>sc_tables = [], sc_indexes = [], sc_version = 0\<rparr>"

fun released :: "nat \<Rightarrow> schema" where
  "released 0 = new_file"
| "released (Suc 0) = (snd (execute_batch schema_v1 new_file))\<lparr>sc_version := 1\<rparr>"
| "released (Suc (Suc 0)) = (snd (execute_batch schema_v2 (released 1)))\<lparr>sc_version := 2\<rparr>"
| "released _ = (snd (execute_batch schema_v3 (released 2)))\<lparr>sc_version := 3\<rparr>"

lemmas migration_defs = schema_v1_def schema_v2_def schema_v3_def new_file_def pending_def

lemma migrate_each_release:
  "migrate (released 0) = (Inr (), released 3)" "migrate (released 1) = (Inr (), released 3)"
  "migrate (released 2) = (Inr (), released 3)" "migrate (released 3) = (Inr (), released 3)"
  by code_simp+

lemma migrate_released: "migrate (released v) = (Inr (), released 3)"
proof -
  have "v = 0 \<or> v = 1 \<or> v = 2 \<or> released v = released 3"
    by (cases v rule: released.cases) (auto simp: numeral_3_eq_3)
  then show ?thesis using migrate_each_release by auto
qed

text \<open>A schema on which the migration stops at its first statement.\<close>

definition refused :: "schema \<Rightarrow> bool" where
  "refused s = (case migrate s of (Inl e, s') \<Rightarrow> s' = s | (Inr u, s') \<Rightarrow> False)"

lemma refused_stuck: "refused s \<Longrightarrow> \<exists>e. migrate s = (Inl e, s)"
  by (cases "migrate s") (auto simp: refused_def split: sum.splits)

lemma refused_each_release:
  "list_all (\<lambda>k. refused (killed_after k (released 0))) [1..<length (pending (int 0))]"
  "list_all (\<lambda>k. refused (killed_after k (released 1))) [1..<length (pending (int 1))]"
  "list_all (\<lambda>k. refused (killed_after k (released 2))) [1..<length (pending (int 2))]"
  by code_simp+

section \<open>Properties\<close>


text \<open>
  C39: An interrupted migration is not repaired.  If the process dies after at least one
  statement of a migration and before the version is recorded, every later \<open>migrate\<close>, and so
  every later \<open>Storage::open\<close>, fails, and leaves the file as it found it.
\<close>

theorem interrupted_migration_sticks:
  assumes "v < 3" "0 < k" "k < length (pending (int v))"
  shows "\<exists>e. migrate (killed_after k (released v)) = (Inl e, killed_after k (released v))"
proof -
  have "v = 0 \<or> v = 1 \<or> v = 2" using assms(1) by auto
  then have "k \<in> {1..<length (pending (int v))} \<and>
      list_all (\<lambda>k. refused (killed_after k (released v))) [1..<length (pending (int v))]"
    using assms(2,3) refused_each_release by auto
  then show ?thesis by (intro refused_stuck) (simp add: list_all_iff)
qed

theorem interrupted_migration_sticks_witness:
  "\<exists>e. migrate (killed_after 1 (released 0)) = (Inl e, killed_after 1 (released 0))"
  by (rule interrupted_migration_sticks) code_simp+

end
