(* ===== verification/Download.thy ===== *)
theory Download
  imports Storage
begin

text \<open>
  \<open>crates/core/src/download.rs\<close>: the download engine, and the file system it writes to.
  What the network and the disk do during one attempt is a value of \<open>transfer\<close>; an attempt is
  a function of it and of the files.  The temporary file is private to an attempt and is
  removed unless it is renamed over the destination, so it never appears among the files.
\<close>

section \<open>Files\<close>

datatype io_error = IoNotFound | IoOther string

fun io_error_display :: "io_error \<Rightarrow> string" where
  "io_error_display IoNotFound = ''No such file or directory (os error 2)''"
| "io_error_display (IoOther s) = s"

text \<open>Contents by path, and the errors the disk answers with; \<open>None\<close> is no error.\<close>

record fs =
  fs_files :: "path \<Rightarrow> string option"
  fs_stat_error :: "path \<Rightarrow> io_error option"
  fs_read_error :: "path \<Rightarrow> io_error option"
  fs_remove_error :: "path \<Rightarrow> io_error option"

definition fs_metadata_len :: "fs \<Rightarrow> path \<Rightarrow> io_error + u64" where
  "fs_metadata_len F p =
     (case fs_stat_error F p of
        Some e \<Rightarrow> Inl e
      | None \<Rightarrow> map_res (\<lambda>c. of_nat (length c)) (ok_or IoNotFound (fs_files F p)))"

definition fs_read :: "fs \<Rightarrow> path \<Rightarrow> io_error + string" where
  "fs_read F p =
     (case fs_read_error F p of Some e \<Rightarrow> Inl e | None \<Rightarrow> ok_or IoNotFound (fs_files F p))"

text \<open>\<open>try_exists().unwrap_or(false)\<close>.\<close>

definition fs_exists :: "fs \<Rightarrow> path \<Rightarrow> bool" where
  "fs_exists F p \<longleftrightarrow> fs_stat_error F p = None \<and> fs_files F p \<noteq> None"

definition fs_write :: "path \<Rightarrow> string \<Rightarrow> fs \<Rightarrow> fs" where
  "fs_write p c F = F\<lparr>fs_files := (fs_files F)(p := Some c)\<rparr>"

definition fs_remove :: "path \<Rightarrow> fs \<Rightarrow> (io_error + unit) \<times> fs" where
  "fs_remove p F =
     (case fs_remove_error F p of
        Some e \<Rightarrow> (Inl e, F)
      | None \<Rightarrow>
          (case fs_files F p of
             None \<Rightarrow> (Inl IoNotFound, F)
           | Some c \<Rightarrow> (Inr (), F\<lparr>fs_files := (fs_files F)(p := None)\<rparr>)))"

text \<open>\<open>Path::parent\<close> of a path without trailing separators.\<close>

definition path_parent :: "path \<Rightarrow> path option" where
  "path_parent p =
     (if p = [] \<or> p = ''/'' then None
      else let r = dropWhile (\<lambda>c. c \<noteq> CHR ''/'') (rev p) in
        Some (if tl r = [] then rev r else rev (tl r)))"

section \<open>Errors\<close>

datatype 'u download_error =
    DlClient string
  | DlNetwork "'u redacted_url" string
  | DlStatus u16 "'u redacted_url"
  | DlTruncated "'u redacted_url" u64 u64
  | DlDisk path io_error

fun dl_class :: "'u download_error \<Rightarrow> error_class" where
  "dl_class (DlClient _) = Network"
| "dl_class (DlNetwork _ _) = Network"
| "dl_class (DlTruncated _ _ _) = Network"
| "dl_class (DlStatus _ _) = HttpStatus"
| "dl_class (DlDisk _ _) = Disk"

fun is_transient :: "'u download_error \<Rightarrow> bool" where
  "is_transient (DlNetwork _ _) = True"
| "is_transient (DlTruncated _ _ _) = True"
| "is_transient (DlStatus status _) \<longleftrightarrow> 500 \<le> status"
| "is_transient (DlClient _) = False"
| "is_transient (DlDisk _ _) = False"

record downloaded =
  dl_bytes :: u64
  dl_blake3 :: hash
  dl_mime :: "audio_mime option"

section \<open>One attempt\<close>

record http_reply =
  rp_status :: u16
  rp_content_length :: "u64 option"
  rp_content_type :: "string option"
  rp_chunks :: "string list"
  rp_broken :: "string option" \<comment> \<open>an error after the last chunk instead of the end\<close>

record transfer =
  tf_reply :: "string + http_reply"
  tf_mkdir :: "io_error option"
  tf_temp :: "io_error option"
  tf_clone :: "io_error option"
  tf_write :: "nat \<Rightarrow> io_error option"
  tf_flush :: "io_error option"
  tf_persist :: "io_error option"
  tf_temp_path :: path

text \<open>A step that may meet a disk error.\<close>

definition disk :: "path \<Rightarrow> io_error option \<Rightarrow> 'u download_error + unit" where
  "disk p err = (case err of None \<Rightarrow> Inr () | Some e \<Rightarrow> Inl (DlDisk p e))"

definition is_success :: "u16 \<Rightarrow> bool" where
  "is_success status \<longleftrightarrow> 200 \<le> status \<and> status < 300"

definition audio_content_type :: "string option \<Rightarrow> audio_mime option" where
  "audio_content_type v = map_option mime_from (filter_opt (starts_with ''audio/'') v)"

text \<open>
  The chunk loop: the bytes hashed and written so far, their count in a \<open>u64\<close>, and the
  progress calls made.
\<close>

fun receive :: "transfer \<Rightarrow> 'u redacted_url \<Rightarrow> u64 option \<Rightarrow> string option \<Rightarrow> nat \<Rightarrow> string list
    \<Rightarrow> string \<Rightarrow> u64 \<Rightarrow> (u64 \<times> u64 option) list
    \<Rightarrow> ('u download_error + string \<times> u64) \<times> (u64 \<times> u64 option) list" where
  "receive tf shown expected broken k [] body written log =
     (case broken of
        Some reason \<Rightarrow> (Inl (DlNetwork shown reason), log)
      | None \<Rightarrow> (Inr (body, written), log))"
| "receive tf shown expected broken k (chunk # chunks) body written log =
     (case tf_write tf k of
        Some e \<Rightarrow> (Inl (DlDisk (tf_temp_path tf) e), log)
      | None \<Rightarrow>
          let written' = written + of_nat (length chunk) in
          receive tf shown expected broken (Suc k) chunks (body @ chunk) written'
            (log @ [(written', expected)]))"

definition finish :: "(string \<Rightarrow> hash) \<Rightarrow> 'u audio_source \<Rightarrow> path \<Rightarrow> 'u redacted_url \<Rightarrow> transfer
    \<Rightarrow> http_reply \<Rightarrow> u64 option \<Rightarrow> string \<times> u64 \<Rightarrow> fs \<Rightarrow> ('u download_error + downloaded) \<times> fs" where
  "finish hash source dest shown tf reply expected got F =
     (let (body, written) = got in
      case tf_flush tf of
        Some e \<Rightarrow> (Inl (DlDisk (tf_temp_path tf) e), F)
      | None \<Rightarrow>
          (case filter_opt (\<lambda>n. written \<noteq> n) expected of
             Some n \<Rightarrow> (Inl (DlTruncated shown n written), F)
           | None \<Rightarrow>
               (case tf_persist tf of
                  Some e \<Rightarrow> (Inl (DlDisk dest e), F)
                | None \<Rightarrow>
                    (Inr \<lparr>dl_bytes = written, dl_blake3 = hash body,
                          dl_mime = or_else (audio_content_type (rp_content_type reply)) (as_mime source)\<rparr>,
                     fs_write dest body F))))"

definition attempt :: "(string \<Rightarrow> hash) \<Rightarrow> 'u audio_source \<Rightarrow> path \<Rightarrow> 'u redacted_url \<Rightarrow> transfer \<Rightarrow> fs
    \<Rightarrow> ('u download_error + downloaded) \<times> fs \<times> (u64 \<times> u64 option) list" where
  "attempt hash source dest shown tf F =
     (case tf_reply tf of
        Inl reason \<Rightarrow> (Inl (DlNetwork shown reason), F, [])
      | Inr reply \<Rightarrow>
          if \<not> is_success (rp_status reply) then (Inl (DlStatus (rp_status reply) shown), F, [])
          else
            let expected = or_else (rp_content_length reply) (as_bytes source);
                dir = unwrap_or ''.'' (path_parent dest) in
            case bind_res (disk dir (tf_mkdir tf)) (\<lambda>_.
                 bind_res (disk dir (tf_temp tf)) (\<lambda>_. disk (tf_temp_path tf) (tf_clone tf))) of
              Inl e \<Rightarrow> (Inl e, F, [])
            | Inr _ \<Rightarrow>
                (case receive tf shown expected (rp_broken reply) 0 (rp_chunks reply) [] 0 [] of
                   (Inl e, log) \<Rightarrow> (Inl e, F, log)
                 | (Inr got, log) \<Rightarrow>
                     let (result, F') = finish hash source dest shown tf reply expected got F
                     in (result, F', log)))"

section \<open>Retries\<close>

text \<open>
  \<open>ExponentialBuilder::with_max_times(2)\<close>: two more attempts after a transient failure.  The
  result carries how many attempts were made.
\<close>

definition max_retries :: nat where
  "max_retries = 2"

fun retry :: "nat \<Rightarrow> (string \<Rightarrow> hash) \<Rightarrow> 'u audio_source \<Rightarrow> path \<Rightarrow> 'u redacted_url \<Rightarrow> (nat \<Rightarrow> transfer)
    \<Rightarrow> nat \<Rightarrow> fs \<Rightarrow> (u64 \<times> u64 option) list
    \<Rightarrow> ('u download_error + downloaded) \<times> fs \<times> (u64 \<times> u64 option) list \<times> nat" where
  "retry left hash source dest shown net k F log =
     (case attempt hash source dest shown (net k) F of
        (Inr got, F', calls) \<Rightarrow> (Inr got, F', log @ calls, Suc k)
      | (Inl e, F', calls) \<Rightarrow>
          (case left of
             0 \<Rightarrow> (Inl e, F', log @ calls, Suc k)
           | Suc l \<Rightarrow>
               if is_transient e then retry l hash source dest shown net (Suc k) F' (log @ calls)
               else (Inl e, F', log @ calls, Suc k)))"

declare retry.simps [simp del]

definition fetch :: "'u url_ops \<Rightarrow> (string \<Rightarrow> hash) \<Rightarrow> (nat \<Rightarrow> transfer) \<Rightarrow> 'u audio_source \<Rightarrow> path \<Rightarrow> fs
    \<Rightarrow> ('u download_error + downloaded) \<times> fs \<times> (u64 \<times> u64 option) list \<times> nat" where
  "fetch U hash net source dest F =
     retry max_retries hash source dest (redacted U (as_url source)) net 0 F []"

definition blake3_of_file :: "(string \<Rightarrow> hash) \<Rightarrow> fs \<Rightarrow> path \<Rightarrow> io_error + hash" where
  "blake3_of_file hash F p = map_res hash (fs_read F p)"

text \<open>\<open>probe\<close> is \<open>lofty\<close>: the whole seconds it reads from a file's contents.\<close>

definition probe_duration :: "(string \<Rightarrow> nat option) \<Rightarrow> fs \<Rightarrow> path \<Rightarrow> u32 option" where
  "probe_duration probe F p =
     Option.bind (ok (fs_read F p)) (\<lambda>c.
     Option.bind (probe c) (\<lambda>secs.
     filter_opt (\<lambda>n. 0 < n) (u32_try_from (int secs))))"

section \<open>Facts about attempts\<close>

lemma receive_Inr:
  "receive tf shown expected broken k chunks body written log = (Inr (b, n), log') \<Longrightarrow>
   broken = None \<and> b = body @ concat chunks \<and> n = written + of_nat (length (concat chunks))"
  by (induction tf shown expected broken k chunks body written log rule: receive.induct)
    (auto simp: Let_def split: option.splits)

text \<open>The body an attempt would store, from the reply it meets.\<close>

definition reply_body :: "transfer \<Rightarrow> string" where
  "reply_body tf = (case tf_reply tf of Inl e \<Rightarrow> [] | Inr reply \<Rightarrow> concat (rp_chunks reply))"

definition promised_length :: "'u audio_source \<Rightarrow> transfer \<Rightarrow> u64 option" where
  "promised_length source tf =
     (case tf_reply tf of Inl e \<Rightarrow> as_bytes source | Inr reply \<Rightarrow> or_else (rp_content_length reply) (as_bytes source))"

text \<open>What a completed attempt has established.\<close>

definition delivered :: "(string \<Rightarrow> hash) \<Rightarrow> 'u audio_source \<Rightarrow> path \<Rightarrow> transfer \<Rightarrow> fs \<Rightarrow> downloaded \<Rightarrow> fs \<Rightarrow> bool" where
  "delivered hash source dest tf F got F' \<longleftrightarrow>
     (case tf_reply tf of
        Inl e \<Rightarrow> False
      | Inr reply \<Rightarrow> is_success (rp_status reply) \<and> rp_broken reply = None) \<and>
     F' = fs_write dest (reply_body tf) F \<and> dl_blake3 got = hash (reply_body tf) \<and>
     dl_bytes got = of_nat (length (reply_body tf)) \<and>
     (promised_length source tf = None \<or> promised_length source tf = Some (dl_bytes got))"

lemma finish_Inr:
  "finish hash source dest shown tf reply expected (body, written) F = (Inr got, F') \<Longrightarrow>
   F' = fs_write dest body F \<and> dl_bytes got = written \<and> dl_blake3 got = hash body \<and>
   (expected = None \<or> expected = Some written)"
  by (cases expected) (auto simp: finish_def split: option.splits if_splits)

lemma finish_Inl: "finish hash source dest shown tf reply expected bw F = (Inl e, F') \<Longrightarrow> F' = F"
  by (auto simp: finish_def split: option.splits prod.splits)

lemma attempt_Inr:
  assumes "attempt hash source dest shown tf F = (Inr got, F', log)"
  shows "delivered hash source dest tf F got F'"
proof (cases "tf_reply tf")
  case (Inr reply)
  let ?ex = "or_else (rp_content_length reply) (as_bytes source)"
  obtain body n where r: "is_success (rp_status reply)"
    "receive tf shown ?ex (rp_broken reply) 0 (rp_chunks reply) [] 0 [] = (Inr (body, n), log)"
    "finish hash source dest shown tf reply ?ex (body, n) F = (Inr got, F')"
    using assms Inr by (auto simp: attempt_def Let_def split: if_splits sum.splits prod.splits)
  with receive_Inr [OF r(2)] finish_Inr [OF r(3)] Inr show ?thesis
    by (auto simp: delivered_def reply_body_def promised_length_def)
qed (use assms in \<open>simp add: attempt_def\<close>)

lemma attempt_Inl: "attempt hash source dest shown tf F = (Inl e, F', log) \<Longrightarrow> F' = F"
  by (auto simp: attempt_def Let_def dest: finish_Inl split: if_splits sum.splits prod.splits)

fun error_url :: "'u download_error \<Rightarrow> 'u redacted_url option" where
  "error_url (DlNetwork u _) = Some u"
| "error_url (DlStatus _ u) = Some u"
| "error_url (DlTruncated u _ _) = Some u"
| "error_url (DlClient _) = None"
| "error_url (DlDisk _ _) = None"

lemma receive_error_url:
  "receive tf shown expected broken k chunks body written log = (Inl e, log') \<Longrightarrow>
   error_url e \<in> {None, Some shown}"
  by (induction tf shown expected broken k chunks body written log rule: receive.induct)
    (auto simp: Let_def split: option.splits)

lemma finish_error_url:
  "finish hash source dest shown tf reply expected got F = (Inl e, F') \<Longrightarrow> error_url e \<in> {None, Some shown}"
  by (auto simp: finish_def split: option.splits prod.splits)

lemma disk_error_url: "disk p err = Inl e \<Longrightarrow> error_url e = None"
  by (auto simp: disk_def split: option.splits)

lemma attempt_error_url:
  "attempt hash source dest shown tf F = (Inl e, F', log) \<Longrightarrow> error_url e \<in> {None, Some shown}"
  by (auto simp: attempt_def Let_def bind_res_Inl_iff
      dest: finish_error_url receive_error_url disk_error_url split: if_splits sum.splits prod.splits)

section \<open>Facts about retries\<close>

text \<open>The attempts of a run: all but the last failed transiently, and the files are as they were.\<close>

lemma retry_outcome:
  assumes "retry left hash source dest shown net k F log = (res, F', log', n)"
  shows "k < n \<and> n \<le> Suc (k + left) \<and>
    (\<forall>j \<in> {k..<n - 1}. \<exists>e calls. attempt hash source dest shown (net j) F = (Inl e, F, calls) \<and> is_transient e) \<and>
    (\<exists>calls. attempt hash source dest shown (net (n - 1)) F = (res, F', calls)) \<and>
    (case res of Inr got \<Rightarrow> True | Inl e \<Rightarrow> F' = F \<and> (is_transient e \<longrightarrow> n = Suc (k + left)))"
  using assms
proof (induction left arbitrary: k log)
  case 0
  then show ?case
    by (subst (asm) retry.simps)
      (auto dest: attempt_Inl split: prod.splits sum.splits)
next
  case (Suc left)
  obtain r F1 calls where a: "attempt hash source dest shown (net k) F = (r, F1, calls)"
    by (cases "attempt hash source dest shown (net k) F") auto
  show ?case
  proof (cases "\<exists>e. r = Inl e \<and> is_transient e")
    case True
    then obtain e where e: "r = Inl e" "is_transient e" by blast
    with a have F1: "F1 = F" by (auto dest: attempt_Inl)
    with a e Suc.prems have "retry left hash source dest shown net (Suc k) F (log @ calls) = (res, F', log', n)"
      by (subst (asm) retry.simps) simp
    from Suc.IH [OF this] a e F1 show ?thesis
      by (auto split: sum.splits simp: Ball_def) (metis Suc_leI le_neq_implies_less)+
  next
    case False
    with a Suc.prems show ?thesis
      by (subst (asm) retry.simps) (auto dest: attempt_Inl split: sum.splits)
  qed
qed

lemma fetch_delivered:
  assumes "fetch U hash net source dest F = (Inr got, F', log, n)"
  shows "delivered hash source dest (net (n - 1)) F got F'"
  using retry_outcome [OF assms [unfolded fetch_def]] by (auto dest: attempt_Inr)

lemma fetch_failed: "fetch U hash net source dest F = (Inl e, F', log, n) \<Longrightarrow> F' = F"
  using retry_outcome [of max_retries] by (fastforce simp: fetch_def)

section \<open>Properties\<close>

text \<open>
  C6: A download is all or nothing.  If \<open>fetch\<close> succeeds, its last attempt met a complete
  success reply whose length is the promised one when one was promised, the destination holds
  exactly the bytes of that reply and no other file changed, and the reported hash and size
  are those of the bytes; if it fails, no file has changed.
\<close>

theorem fetch_all_or_nothing:
  "case fetch U hash net source dest F of
     (Inr got, F', log, n) \<Rightarrow>
       delivered hash source dest (net (n - 1)) F got F' \<and>
       fs_files F' dest = Some (reply_body (net (n - 1))) \<and>
       (\<forall>p. p = dest \<or> fs_files F' p = fs_files F p)
   | (Inl e, F', log, n) \<Rightarrow> F' = F"
proof -
  obtain res F' log n where run: "fetch U hash net source dest F = (res, F', log, n)"
    by (cases "fetch U hash net source dest F") auto
  then show ?thesis
    using fetch_delivered [of U hash net source dest F] fetch_failed [of U hash net source dest F]
    by (cases res) (auto simp: delivered_def fs_write_def)
qed

text \<open>
  Retries are bounded and only for transient failures.  A run makes one to three attempts;
  every attempt before the last failed with a network error, a truncated transfer or a 5xx
  status; and a run that reports such a failure has used all three.
\<close>

theorem fetch_retries_transient_only:
  assumes "fetch U hash net source dest F = (res, F', log, n)"
  shows "1 \<le> n \<and> n \<le> 3 \<and>
    (\<forall>j < n - 1. \<exists>e calls. attempt hash source dest (redacted U (as_url source)) (net j) F = (Inl e, F, calls) \<and>
       is_transient e) \<and>
    (\<exists>calls. attempt hash source dest (redacted U (as_url source)) (net (n - 1)) F = (res, F', calls)) \<and>
    (\<forall>e. res = Inl e \<longrightarrow> is_transient e \<longrightarrow> n = 3)"
  using retry_outcome [OF assms [unfolded fetch_def]] by (auto simp: max_retries_def)

abbreviation demo_source :: "tuple_url audio_source" where
  "demo_source \<equiv> \<lparr>as_url = (''https://cdn'', [''a.mp3''], [(''listen_key'', ''s3cret'')]),
     as_mime = Some Mpeg, as_bytes = None\<rparr>"

abbreviation demo_transfer :: "u16 \<Rightarrow> string list \<Rightarrow> transfer" where
  "demo_transfer status chunks \<equiv>
     \<lparr>tf_reply = Inr \<lparr>rp_status = status, rp_content_length = Some 5, rp_content_type = Some ''audio/mp4'',
        rp_chunks = chunks, rp_broken = None\<rparr>,
      tf_mkdir = None, tf_temp = None, tf_clone = None, tf_write = (\<lambda>k. None), tf_flush = None,
      tf_persist = None, tf_temp_path = ''/media/.tmp''\<rparr>"

definition demo_net :: "nat \<Rightarrow> transfer" where
  "demo_net k = (if k = 0 then demo_transfer 503 [] else demo_transfer 200 [''abc'', ''de''])"

definition demo_fs :: fs where
  "demo_fs = \<lparr>fs_files = (\<lambda>p. None), fs_stat_error = (\<lambda>p. None), fs_read_error = (\<lambda>p. None),
     fs_remove_error = (\<lambda>p. None)\<rparr>"

lemmas demo_fetch_defs =
  fetch_def retry.simps attempt_def demo_net_def max_retries_def is_success_def finish_def disk_def
  audio_content_type_def starts_with_def mime_from_def path_parent_def Let_def

lemma demo_fetch:
  "fetch tuple_urls id demo_net demo_source ''/media/a.mp3'' demo_fs =
     (Inr \<lparr>dl_bytes = 5, dl_blake3 = ''abcde'', dl_mime = Some Mp4\<rparr>,
      fs_write ''/media/a.mp3'' ''abcde'' demo_fs, [(3, Some 5), (5, Some 5)], 2)"
  by (simp add: demo_fetch_defs)

theorem fetch_retries_transient_only_witness:
  "(1 :: nat) \<le> 2 \<and> (2 :: nat) \<le> 3 \<and>
    (\<exists>e calls. attempt id demo_source ''/media/a.mp3'' (redacted tuple_urls (as_url demo_source)) (demo_net 0) demo_fs =
       (Inl e, demo_fs, calls) \<and> is_transient e)"
  using fetch_retries_transient_only [OF demo_fetch] by auto

text \<open>
  No credential leaves through an error.  Every URL inside a download error is the
  redacted form of the source URL: in its query each of \<open>listen_key\<close>, \<open>api_key\<close> and
  \<open>audio_token\<close> reads \<open>REDACTED\<close>, whatever the transfer did.
\<close>

theorem fetch_errors_redacted:
  assumes "url_query_laws U" "fetch U hash net source dest F = (Inl e, F', log, n)"
    "error_url e = Some shown" "(k, v) \<in> set (url_query_pairs U (redacted_inner shown))"
    "k \<in> {''listen_key'', ''api_key'', ''audio_token''}"
  shows "v = ''REDACTED''"
proof -
  obtain calls where "attempt hash source dest (redacted U (as_url source)) (net (n - 1)) F = (Inl e, F', calls)"
    using retry_outcome [OF assms(2) [unfolded fetch_def]] by auto
  with assms(3) have shown: "shown = redacted U (as_url source)"
    using attempt_error_url by fastforce
  with assms(4) query_pairs_redacted [OF assms(1)] obtain kv where "(k, v) = redact_pair kv" by auto
  with assms(5) show ?thesis by (auto simp: redact_pair_def secret_params_def split: if_splits)
qed

theorem fetch_errors_redacted_witness:
  "\<exists>e F' log n shown v. fetch tuple_urls id (\<lambda>k. demo_transfer 404 []) demo_source ''/media/a.mp3'' demo_fs =
     (Inl e, F', log, n) \<and> error_url e = Some shown \<and>
     (''listen_key'', v) \<in> set (url_query_pairs tuple_urls (redacted_inner shown)) \<and> v = ''REDACTED''"
proof -
  let ?shown = "redacted tuple_urls (as_url demo_source)"
  have run: "fetch tuple_urls id (\<lambda>k. demo_transfer 404 []) demo_source ''/media/a.mp3'' demo_fs =
      (Inl (DlStatus 404 ?shown), demo_fs, [], 1)"
    by (simp add: demo_fetch_defs)
  have member: "(''listen_key'', ''REDACTED'') \<in> set (url_query_pairs tuple_urls (redacted_inner ?shown))"
    by (simp add: redacted_def tuple_urls_def secret_params_def redact_pair_def)
  with run fetch_errors_redacted [OF tuple_urls_laws run _ member] show ?thesis
    by (intro exI conjI) auto
qed

end
