(* ===== verification/Feeds.thy ===== *)
theory Feeds
  imports Domain
begin

text \<open>
  Feed documents: \<open>crates/core/src/rss.rs\<close> and \<open>crates/core/src/opml.rs\<close>.  Both write through
  the \<open>quick-xml\<close> writer, whose escaping and indentation are not part of the repository; the
  model is the tree of elements they write, in order, and the writer's text of a tree is a
  parameter wherever a document's bytes matter.  RFC 2822 text of a time belongs to \<open>jiff\<close>.
\<close>

section \<open>Documents\<close>

datatype xml =
    Elem (xml_name: string) (xml_attrs: "(string \<times> string) list") (xml_children: "xml list")
  | Text string

definition text_element :: "string \<Rightarrow> string \<Rightarrow> xml" where
  "text_element name t = Elem name [] [Text t]"

section \<open>RSS\<close>

record 'u rss_item =
  it_title :: string
  it_guid :: string
  it_description :: "string option"
  it_published_at :: "timestamp option"
  it_enclosure_url :: 'u
  it_enclosure_bytes :: u64
  it_enclosure_mime :: string
  it_duration_secs :: "u32 option"

record 'u rss_feed =
  fd_title :: string
  fd_link :: 'u
  fd_description :: string
  fd_artwork :: "'u option"
  fd_items :: "'u rss_item list"

definition itunes_ns :: string where
  "itunes_ns = ''http://www.itunes.com/dtds/podcast-1.0.dtd''"

definition hms :: "u32 \<Rightarrow> string" where
  "hms secs = pad2 (unat (secs div 3600)) @ '':'' @ pad2 (unat ((secs mod 3600) div 60)) @ '':'' @
     pad2 (unat (secs mod 60))"

definition rss_write_item :: "'u url_ops \<Rightarrow> (timestamp \<Rightarrow> string) \<Rightarrow> 'u rss_item \<Rightarrow> xml" where
  "rss_write_item U rfc2822 it = Elem ''item'' []
     ([text_element ''title'' (it_title it),
       Elem ''guid'' [(''isPermaLink'', ''false'')] [Text (it_guid it)]] @
      (case it_published_at it of None \<Rightarrow> [] | Some at \<Rightarrow> [text_element ''pubDate'' (rfc2822 at)]) @
      (case it_description it of None \<Rightarrow> [] | Some d \<Rightarrow> [text_element ''description'' d]) @
      [Elem ''enclosure'' [(''url'', url_str U (it_enclosure_url it)),
         (''length'', show_nat (unat (it_enclosure_bytes it))), (''type'', it_enclosure_mime it)] []] @
      (case it_duration_secs it of None \<Rightarrow> [] | Some secs \<Rightarrow> [text_element ''itunes:duration'' (hms secs)]))"

definition rss_write :: "'u url_ops \<Rightarrow> (timestamp \<Rightarrow> string) \<Rightarrow> 'u rss_feed \<Rightarrow> xml" where
  "rss_write U rfc2822 fd = Elem ''rss'' [(''version'', ''2.0''), (''xmlns:itunes'', itunes_ns)]
     [Elem ''channel'' []
       ([text_element ''title'' (fd_title fd), text_element ''link'' (url_str U (fd_link fd)),
         text_element ''description'' (fd_description fd)] @
        (case fd_artwork fd of None \<Rightarrow> []
         | Some art \<Rightarrow> [Elem ''itunes:image'' [(''href'', url_str U art)] []]) @
        map (rss_write_item U rfc2822) (fd_items fd))]"

section \<open>OPML\<close>

record 'u subscription =
  sub_title :: string
  sub_feed_url :: 'u

definition opml_outline :: "'u url_ops \<Rightarrow> 'u subscription \<Rightarrow> xml" where
  "opml_outline U s = Elem ''outline'' [(''type'', ''rss''), (''text'', sub_title s),
     (''title'', sub_title s), (''xmlUrl'', url_str U (sub_feed_url s))] []"

definition opml_write :: "'u url_ops \<Rightarrow> string \<Rightarrow> 'u subscription list \<Rightarrow> xml" where
  "opml_write U title subs = Elem ''opml'' [(''version'', ''2.0'')]
     [Elem ''head'' [] [text_element ''title'' title],
      Elem ''body'' [] (map (opml_outline U) subs)]"

section \<open>Reading documents back\<close>

text \<open>What a feed reader extracts: the children of a given name and the text of an element.\<close>

definition children :: "string \<Rightarrow> xml \<Rightarrow> xml list" where
  "children name x =
     (case x of Text t \<Rightarrow> [] | Elem n as cs \<Rightarrow>
       filter (\<lambda>c. case c of Text t \<Rightarrow> False | Elem m bs ds \<Rightarrow> m = name) cs)"

definition text_of :: "xml list \<Rightarrow> string option" where
  "text_of xs = (case xs of [Elem n as [Text t]] \<Rightarrow> Some t | _ \<Rightarrow> None)"

definition attr_of :: "string \<Rightarrow> xml list \<Rightarrow> string option" where
  "attr_of a xs = (case xs of [Elem n as cs] \<Rightarrow> map_of as a | _ \<Rightarrow> None)"

text \<open>The parts of an item that a podcast client keys on.\<close>

definition read_item :: "xml \<Rightarrow> string option \<times> string option \<times> string option \<times> string option" where
  "read_item x = (text_of (children ''guid'' x), attr_of ''url'' (children ''enclosure'' x),
     attr_of ''length'' (children ''enclosure'' x), text_of (children ''title'' x))"

definition read_feed :: "xml \<Rightarrow> (string option \<times> string option \<times> string option \<times> string option) list" where
  "read_feed x = concat (map (\<lambda>ch. map read_item (children ''item'' ch)) (children ''channel'' x))"

lemma read_item_write:
  "read_item (rss_write_item U rfc it) =
     (Some (it_guid it), Some (url_str U (it_enclosure_url it)),
      Some (show_nat (unat (it_enclosure_bytes it))), Some (it_title it))"
  by (cases "it_published_at it"; cases "it_description it"; cases "it_duration_secs it")
    (simp_all add: read_item_def rss_write_item_def children_def text_of_def attr_of_def text_element_def)

lemma filter_items:
  "filter (\<lambda>c. case c of Text t \<Rightarrow> False | Elem m bs ds \<Rightarrow> m = ''item'') (map (rss_write_item U rfc) is) =
    map (rss_write_item U rfc) is"
  by (rule filter_True) (auto simp: rss_write_item_def)

lemma read_feed_write:
  "read_feed (rss_write U rfc fd) = map (\<lambda>it. read_item (rss_write_item U rfc it)) (fd_items fd)"
  by (cases "fd_artwork fd")
    (simp_all add: read_feed_def rss_write_def children_def text_element_def filter_items comp_def)

lemma hms_fields:
  "hms secs = pad2 (unat secs div 3600) @ '':'' @ pad2 (unat secs mod 3600 div 60) @ '':'' @ pad2 (unat secs mod 60)"
  by (simp add: hms_def unat_div unat_mod)

text \<open>Reading \<open>HH:MM:SS\<close> back as seconds.\<close>

definition read_hms :: "string \<Rightarrow> nat option" where
  "read_hms s =
     (case split_on CHR '':'' s of
        [h, m, sec] \<Rightarrow> Some (read_nat h * 3600 + read_nat m * 60 + read_nat sec)
      | _ \<Rightarrow> None)"

lemma read_pad2 [simp]: "read_nat (pad2 n) = n"
proof -
  have "read_nat (CHR ''0'' # s) = read_nat s" for s
    by (simp add: read_nat_def digit_val_def char_code_def)
  then show ?thesis by (simp add: pad2_def)
qed

lemma pad2_no_colon: "CHR '':'' \<notin> set (pad2 n)"
proof
  assume "CHR '':'' \<in> set (pad2 n)"
  then have "CHR '':'' \<in> set (show_nat n)" by (auto simp: pad2_def split: if_splits)
  from show_nat_digits [OF this] show False by (simp add: char_code_def)
qed

lemma split_on_three:
  assumes "d \<notin> set a" "d \<notin> set b" "d \<notin> set c"
  shows "split_on d (a @ d # b @ d # c) = [a, b, c]"
  using split_on_append [OF assms(3), of "a @ d # b"] split_on_append [OF assms(2), of a] assms(1)
  by (simp add: split_on_no_sep)

lemma length_pad2: "2 \<le> length (pad2 n)" "n < 100 \<Longrightarrow> length (pad2 n) = 2"
proof -
  have small: "length (show_nat n) = 1" if "n < 10" for n
    using that by (subst show_nat.simps) simp
  have "length (show_nat n) = Suc (length (show_nat (n div 10)))" if "\<not> n < 10"
    using that by (subst show_nat.simps) simp
  moreover have "1 \<le> length (show_nat (n div 10))" by (simp add: Suc_le_eq)
  ultimately show "2 \<le> length (pad2 n)" "n < 100 \<Longrightarrow> length (pad2 n) = 2"
    using small [of n] small [of "n div 10"] by (auto simp: pad2_def)
qed

lemma seconds_fields: "n div 3600 * 3600 + n mod 3600 div 60 * 60 + n mod 60 = (n :: nat)"
proof -
  have "n mod 60 = n mod 3600 mod 60" by (simp add: mod_mod_cancel)
  then show ?thesis
    using div_mult_mod_eq [of "n mod 3600" 60] div_mult_mod_eq [of n 3600] by linarith
qed

section \<open>Properties\<close>


text \<open>
  Durations are printed without loss.  \<open>hms\<close> gives three fields separated by colons that
  read back as the same number of seconds, with minutes and seconds below sixty and at least
  two digits each, for every 32-bit duration.
\<close>

lemma hms_roundtrip:
  "read_hms (hms secs) = Some (unat secs) \<and>
   (\<exists>h m s. split_on CHR '':'' (hms secs) = [h, m, s] \<and> read_nat m < 60 \<and> read_nat s < 60 \<and>
      2 \<le> length h \<and> length m = 2 \<and> length s = 2)"
proof -
  let ?n = "unat secs"
  have minutes: "?n mod 3600 div 60 < 60" using mod_less_divisor [of 3600 ?n] by (simp add: less_mult_imp_div_less)
  have fields: "split_on CHR '':'' (hms secs) = [pad2 (?n div 3600), pad2 (?n mod 3600 div 60), pad2 (?n mod 60)]"
    unfolding hms_fields using split_on_three [OF pad2_no_colon pad2_no_colon pad2_no_colon] by simp
  moreover have "length (pad2 (?n mod 3600 div 60)) = 2" "length (pad2 (?n mod 60)) = 2"
    using minutes mod_less_divisor [of 60 ?n] by (intro length_pad2; linarith)+
  ultimately show ?thesis
    using minutes seconds_fields [of ?n] length_pad2(1) [of "?n div 3600"] by (simp add: read_hms_def)
qed

end
