(* ===== verification/Provider.thy ===== *)
theory Provider
  imports Domain
begin

text \<open>
  The provider boundary (\<open>crates/providers/src/lib.rs\<close>): errors, listings, and the \<open>Provider\<close>
  trait as a record of its methods.  What upstream answers changes from call to call, so each
  method takes the moment of the call; the locale \<open>episode_source\<close> is the contract the sync
  engine relies on, and it holds for every implementation that bounds and validates what it
  lists.
\<close>

section \<open>Errors and listings\<close>

datatype 'u provider_error =
    UnknownProvider string
  | MissingCredentials string
  | ShowNotFound show_slug
  | Http string
  | Status u16 "'u redacted_url"
  | ParseFailed string "path option"
  | NoAudioAsset episode_id string

datatype episode_listing =
    NotModified
  | Modified "episode_meta list" "string option"

type_synonym moment = nat

record 'u provider =
  pv_show :: "moment \<Rightarrow> show_slug \<Rightarrow> 'u provider_error + 'u show_meta"
  pv_episodes :: "moment \<Rightarrow> show_slug \<Rightarrow> u32 option \<Rightarrow> string option \<Rightarrow> 'u provider_error + episode_listing"
  pv_resolve_audio :: "moment \<Rightarrow> show_slug \<Rightarrow> episode_id \<Rightarrow> 'u provider_error + 'u audio_source"
  pv_artwork :: "moment \<Rightarrow> show_slug \<Rightarrow> 'u provider_error + 'u option"

text \<open>\<open>#[error("...")]\<close>: the text recorded as a show's last error.\<close>

fun provider_error_display :: "'u url_ops \<Rightarrow> 'u provider_error \<Rightarrow> string" where
  "provider_error_display U (UnknownProvider n) = ''no provider registered as `'' @ n @ ''`''"
| "provider_error_display U (MissingCredentials n) =
     ''provider `'' @ n @ ''` requires credentials that are not configured''"
| "provider_error_display U (ShowNotFound s) = ''show `'' @ slug_str s @ ''` not found upstream''"
| "provider_error_display U (Http m) = ''upstream request failed: '' @ m"
| "provider_error_display U (Status st u) =
     ''upstream returned HTTP '' @ show_nat (unat st) @ '' for '' @ redacted_display U u"
| "provider_error_display U (ParseFailed reason p) =
     ''unparseable upstream response ('' @ reason @ ''); payload quarantined at '' @
     (case p of None \<Rightarrow> ''<write failed>'' | Some q \<Rightarrow> q)"
| "provider_error_display U (NoAudioAsset i hint) =
     ''no audio asset found for episode `'' @ id_str i @ ''`: '' @ hint"

section \<open>The contract of a listing\<close>

text \<open>Newest first, an absent publication time last.\<close>

definition newest_first :: "episode_meta list \<Rightarrow> bool" where
  "newest_first es \<longleftrightarrow> sorted_wrt (\<lambda>a b. em_published_at b \<le> em_published_at a) es"

locale episode_source =
  fixes list_episodes :: "moment \<Rightarrow> show_slug \<Rightarrow> u32 option \<Rightarrow> string option \<Rightarrow> 'u provider_error + episode_listing"
    and show_meta_of :: "moment \<Rightarrow> show_slug \<Rightarrow> 'u provider_error + 'u show_meta"
  assumes ids_valid: "list_episodes t slug limit etag = Inr (Modified es tag) \<Longrightarrow> \<forall>e \<in> set es. valid_id (em_id e)"
    and order: "list_episodes t slug limit etag = Inr (Modified es tag) \<Longrightarrow> newest_first es"
    and bounded: "list_episodes t slug (Some n) etag = Inr (Modified es tag) \<Longrightarrow> length es \<le> unat n"
    and same_show: "show_meta_of t slug = Inr meta \<Longrightarrow> sm_slug meta = slug"
begin

lemma window_bounded:
  assumes "list_episodes t slug limit etag = Inr (Modified es tag)"
  shows "case limit of None \<Rightarrow> True | Some n \<Rightarrow> length es \<le> unat n"
  using assms bounded by (cases limit) auto

lemma newest_leads:
  assumes "list_episodes t slug limit etag = Inr (Modified (e # es) tag)" "e' \<in> set es"
  shows "em_published_at e' \<le> em_published_at e"
  using order [OF assms(1)] assms(2) by (simp add: newest_first_def)

lemma listing_contract:
  assumes "list_episodes t slug limit etag = Inr (Modified es tag)"
  shows "(\<forall>e \<in> set es. valid_id (em_id e)) \<and> newest_first es \<and>
    (case limit of None \<Rightarrow> True | Some n \<Rightarrow> length es \<le> unat n)"
  using ids_valid [OF assms] order [OF assms] window_bounded [OF assms] by simp

end

end
