(* ===== verification/Wire.thy ===== *)
theory Wire
  imports Provider
begin

text \<open>
  \<open>crates/providers/src/difm/v1.rs\<close>: the wire types of the AudioAddict API and their
  conversion to domain values.  Decoding JSON into the wire types is derived by \<open>serde\<close> and
  stays a parameter of the provider; everything after it is here.
\<close>

section \<open>Wire types\<close>

record wire_images =
  im_compact :: "string option"
  im_default :: "string option"

record wire_show =
  ws_slug :: "string option"
  ws_name :: "string option"
  ws_description :: "string option"
  ws_images :: wire_images

record wire_content =
  wc_assets :: "string option list option" \<comment> \<open>the \<open>url\<close> of each asset\<close>
  wc_url :: "string option"

record wire_track =
  wt_length :: "int option"
  wt_display_title :: "string option"
  wt_content :: "wire_content option"
  wt_asset_url :: "string option"

record wire_episode =
  we_slug :: "string option"
  we_name :: "string option"
  we_start_at :: "string option"
  we_description :: "string option"
  we_tracks :: "wire_track list"

datatype wire_error = WireMissing string | WireInvalid string string

section \<open>URLs\<close>

definition normalize_url :: "'u url_ops \<Rightarrow> string \<Rightarrow> 'u option" where
  "normalize_url U raw =
     url_parse U (case strip_prefix ''//'' raw of Some rest \<Rightarrow> ''https://'' @ rest | None \<Rightarrow> raw)"

definition normalize_image_url :: "'u url_ops \<Rightarrow> string \<Rightarrow> 'u option" where
  "normalize_image_url U raw = normalize_url U (split_first CHR ''{'' raw)"

definition has_audio_extension :: "string \<Rightarrow> bool" where
  "has_audio_extension raw \<longleftrightarrow>
     rsplit_first CHR ''.'' (takeWhile (\<lambda>c. c \<noteq> CHR ''?'' \<and> c \<noteq> CHR ''#'') raw)
       \<in> {''mp3'', ''mp4'', ''m4a'', ''aac'', ''ogg'', ''oga''}"

definition mime_for :: "'u url_ops \<Rightarrow> 'u \<Rightarrow> audio_mime option" where
  "mime_for U url =
     (let ext = rsplit_first CHR ''.'' (url_path U url) in
      if ext = ''mp3'' then Some Mpeg
      else if ext = ''mp4'' \<or> ext = ''m4a'' then Some Mp4
      else if ext = ''aac'' then Some Aac
      else if ext = ''ogg'' \<or> ext = ''oga'' then Some Ogg
      else None)"

section \<open>Shows and episodes\<close>

definition into_meta :: "'u url_ops \<Rightarrow> wire_show \<Rightarrow> show_slug \<Rightarrow> 'u show_meta" where
  "into_meta U s requested =
     \<lparr>sm_slug = requested,
      sm_title = unwrap_or (unwrap_or (slug_str requested) (ws_slug s)) (ws_name s),
      sm_description = filter_opt (\<lambda>d. d \<noteq> []) (ws_description s),
      sm_artwork = Option.bind (or_else (im_compact (ws_images s)) (im_default (ws_images s)))
        (normalize_image_url U)\<rparr>"

definition first_track :: "wire_episode \<Rightarrow> wire_track option" where
  "first_track e = (case we_tracks e of [] \<Rightarrow> None | t # _ \<Rightarrow> Some t)"

text \<open>\<open>parse_ts\<close> is \<open>jiff\<close>'s parser for RFC 3339 times, with the text of its error.\<close>

definition episode_try_from :: "(string \<Rightarrow> string + timestamp) \<Rightarrow> wire_episode \<Rightarrow> wire_error + episode_meta" where
  "episode_try_from parse_ts e =
     bind_res (ok_or (WireMissing ''slug'') (filter_opt (\<lambda>s. s \<noteq> []) (we_slug e))) (\<lambda>slug.
     bind_res (map_err (\<lambda>x. WireInvalid ''slug'' (invalid_id_display x)) (parse_episode_id slug)) (\<lambda>i.
     bind_res (traverse_opt (\<lambda>raw. map_err (WireInvalid ''start_at'') (parse_ts raw)) (we_start_at e)) (\<lambda>published.
     let track = first_track e in
     Inr \<lparr>em_id = i,
          em_title = unwrap_or slug (or_else (Option.bind track wt_display_title) (we_name e)),
          em_description = filter_opt (\<lambda>d. d \<noteq> []) (we_description e),
          em_published_at = published,
          em_duration_secs = filter_opt (\<lambda>n. 0 < n)
            (Option.bind (Option.bind track wt_length) u32_try_from)\<rparr>)))"

text \<open>The first asset that has a URL, as \<open>find_map\<close> does.\<close>

fun find_map :: "('a \<Rightarrow> 'b option) \<Rightarrow> 'a list \<Rightarrow> 'b option" where
  "find_map f [] = None"
| "find_map f (x # xs) = (case f x of Some y \<Rightarrow> Some y | None \<Rightarrow> find_map f xs)"

definition track_audio_url :: "'u url_ops \<Rightarrow> wire_track \<Rightarrow> 'u option" where
  "track_audio_url U t =
     or_else
       (Option.bind (wt_content t) (\<lambda>content.
          Option.bind (or_else (find_map (\<lambda>url. url) (unwrap_or [] (wc_assets content))) (wc_url content))
            (normalize_url U)))
       (Option.bind (filter_opt has_audio_extension (wt_asset_url t)) (normalize_url U))"

definition episode_audio_url :: "'u url_ops \<Rightarrow> wire_episode \<Rightarrow> 'u option" where
  "episode_audio_url U e = find_map (track_audio_url U) (we_tracks e)"

section \<open>Facts\<close>

lemma find_map_SomeD: "find_map f xs = Some y \<Longrightarrow> \<exists>x \<in> set xs. f x = Some y"
  by (induction xs) (auto split: option.splits)

lemma find_map_None_iff: "find_map f xs = None \<longleftrightarrow> (\<forall>x \<in> set xs. f x = None)"
  by (induction xs) (auto split: option.splits)

lemma episode_try_from_id:
  "episode_try_from parse_ts e = Inr m \<Longrightarrow> valid_id (em_id m) \<and> we_slug e = Some (id_str (em_id m))"
  by (auto simp: episode_try_from_def bind_res_Inr_iff filter_opt_eq_Some_iff parse_episode_id_Inr_iff
      valid_id_def Let_def)

lemma into_meta_slug [simp]: "sm_slug (into_meta U s requested) = requested"
  by (simp add: into_meta_def)

text \<open>The URLs a track's content offers, in the order they are tried.\<close>

definition content_urls :: "wire_content \<Rightarrow> string list" where
  "content_urls c = concat (map (\<lambda>u. case u of None \<Rightarrow> [] | Some s \<Rightarrow> [s]) (unwrap_or [] (wc_assets c))) @
     (case wc_url c of None \<Rightarrow> [] | Some s \<Rightarrow> [s])"

lemma track_audio_urlD:
  assumes "track_audio_url U t = Some u"
  shows "\<exists>raw. normalize_url U raw = Some u \<and>
    ((\<exists>c. wt_content t = Some c \<and> raw \<in> set (content_urls c)) \<or>
     wt_asset_url t = Some raw \<and> has_audio_extension raw)"
proof (cases "Option.bind (wt_content t) (\<lambda>c.
    Option.bind (or_else (find_map (\<lambda>url. url) (unwrap_or [] (wc_assets c))) (wc_url c)) (normalize_url U))")
  case None
  with assms show ?thesis
    by (auto simp: track_audio_url_def bind_eq_Some_conv filter_opt_eq_Some_iff)
next
  case (Some v)
  then obtain c raw where c: "wt_content t = Some c" "normalize_url U raw = Some v"
    "or_else (find_map (\<lambda>url. url) (unwrap_or [] (wc_assets c))) (wc_url c) = Some raw"
    by (auto simp: bind_eq_Some_conv)
  from c(3) have "raw \<in> set (content_urls c)"
    by (cases "find_map (\<lambda>url. url) (unwrap_or [] (wc_assets c))")
      (force simp: content_urls_def dest: find_map_SomeD)+
  with assms Some c show ?thesis by (auto simp: track_audio_url_def)
qed

end
