(* ===== verification/Difm.thy ===== *)
theory Difm
  imports Wire Config Storage
begin

text \<open>
  The DI.FM provider (\<open>crates/providers/src/difm.rs\<close>), its quarantine
  (\<open>crates/providers/src/quarantine.rs\<close>) and the provider registry
  (\<open>crates/providers/src/lib.rs\<close>).  What is outside the repository is the record \<open>upstream\<close>:
  the HTTP replies, \<open>serde_json\<close>'s decoders, the clock text of quarantine files and the writes
  that fail.  A method returns its result and the quarantine files it wrote.
\<close>

section \<open>Surroundings\<close>

record http_response =
  hr_status :: u16
  hr_etag :: "string option"
  hr_text :: "string + string"

record 'j json_ops =
  js_show :: "string \<Rightarrow> string + wire_show"
  js_array :: "string \<Rightarrow> string + 'j list"
  js_text :: "'j \<Rightarrow> string"
  js_entry :: "'j \<Rightarrow> string + wire_episode"
  js_episode :: "string \<Rightarrow> string + wire_episode"

record ('u, 'j) upstream =
  up_url :: "'u url_ops"
  up_http :: "moment \<Rightarrow> 'u \<Rightarrow> string option \<Rightarrow> string + http_response"
  up_json :: "'j json_ops"
  up_ts_parse :: "string \<Rightarrow> string + timestamp"
  up_stamp :: "moment \<Rightarrow> nat \<Rightarrow> string"
  up_write_fails :: "path \<Rightarrow> bool"

type_synonym quarantined = "(path \<times> string) list"

text \<open>\<open>Quarantine::write_or_note\<close>: the path written, if the write succeeded.\<close>

definition quarantine_path :: "path \<Rightarrow> string \<Rightarrow> string \<Rightarrow> path" where
  "quarantine_path dir stamp label = path_join dir (stamp @ ''-'' @ label @ ''.json'')"

definition write_or_note :: "(path \<Rightarrow> bool) \<Rightarrow> path \<Rightarrow> string \<Rightarrow> string \<Rightarrow> string
    \<Rightarrow> path option \<times> quarantined" where
  "write_or_note fails dir stamp label payload =
     (let p = quarantine_path dir stamp label in
      if fails p then (None, []) else (Some p, [(p, payload)]))"

section \<open>The provider\<close>

record 'u difm =
  df_base_url :: 'u
  df_api_key :: api_key
  df_listen_key :: "listen_key option"
  df_quarantine_dir :: path
  df_per_page :: u32

definition default_base_url :: string where
  "default_base_url = ''https://api.audioaddict.com/v1/di/''"

definition default_per_page :: u32 where
  "default_per_page = 25"

datatype fetched = FetchedNotModified | FetchedBody string "string option"

definition endpoint :: "'u url_ops \<Rightarrow> 'u difm \<Rightarrow> string list \<Rightarrow> (string \<times> string) list
    \<Rightarrow> 'u provider_error + 'u" where
  "endpoint U D segments query =
     map_res (\<lambda>url. if query = [] then url else url_query_extend U query url)
       (ok_or (Http ''base URL cannot hold a path'') (url_path_extend U segments (df_base_url D)))"

definition success_status :: "u16 \<Rightarrow> bool" where
  "success_status st \<longleftrightarrow> 200 \<le> st \<and> st < 300"

definition get :: "('u, 'j) upstream \<Rightarrow> moment \<Rightarrow> 'u \<Rightarrow> string option \<Rightarrow> 'u provider_error + fetched" where
  "get UP t url if_none_match =
     (let shown = redacted (up_url UP) url in
      bind_res (map_err Http (up_http UP t url if_none_match)) (\<lambda>r.
      if hr_status r = 304 then Inr FetchedNotModified
      else if \<not> success_status (hr_status r) then Inl (Status (hr_status r) shown)
      else map_res (\<lambda>text. FetchedBody text (hr_etag r)) (map_err Http (hr_text r))))"

definition get_text :: "('u, 'j) upstream \<Rightarrow> moment \<Rightarrow> 'u \<Rightarrow> 'u provider_error + string" where
  "get_text UP t url =
     bind_res (get UP t url None) (\<lambda>f.
     case f of
       FetchedBody text etag \<Rightarrow> Inr text
     | FetchedNotModified \<Rightarrow> Inl (Http ''unexpected 304 to an unconditional request''))"

definition parse_payload :: "('u, 'j) upstream \<Rightarrow> 'u difm \<Rightarrow> moment \<Rightarrow> (string \<Rightarrow> string + 'a)
    \<Rightarrow> string \<Rightarrow> string \<Rightarrow> ('u provider_error + 'a) \<times> quarantined" where
  "parse_payload UP D t decode payload label =
     (case decode payload of
        Inr a \<Rightarrow> (Inr a, [])
      | Inl reason \<Rightarrow>
          let (p, written) = write_or_note (up_write_fails UP) (df_quarantine_dir D) (up_stamp UP t 0) label payload
          in (Inl (ParseFailed reason p), written))"

fun not_found_means_no_show :: "show_slug \<Rightarrow> 'u provider_error \<Rightarrow> 'u provider_error" where
  "not_found_means_no_show slug (Status st url) = (if st = 404 then ShowNotFound slug else Status st url)"
| "not_found_means_no_show slug e = e"

definition difm_show :: "('u, 'j) upstream \<Rightarrow> 'u difm \<Rightarrow> moment \<Rightarrow> show_slug
    \<Rightarrow> ('u provider_error + 'u show_meta) \<times> quarantined" where
  "difm_show UP D t slug =
     (case bind_res (endpoint (up_url UP) D [''shows'', slug_str slug] []) (\<lambda>url.
           map_err (not_found_means_no_show slug) (get_text UP t url)) of
        Inl e \<Rightarrow> (Inl e, [])
      | Inr payload \<Rightarrow>
          (case parse_payload UP D t (js_show (up_json UP)) payload (''show-'' @ slug_str slug) of
             (r, written) \<Rightarrow> (map_res (\<lambda>s. into_meta (up_url UP) s slug) r, written)))"

text \<open>
  Each entry of the listing on its own: converted, or quarantined and skipped.  \<open>k\<close> counts
  the entries, for the clock text of the file name.
\<close>

definition convert_entry :: "('u, 'j) upstream \<Rightarrow> 'j \<Rightarrow> string + episode_meta" where
  "convert_entry UP j =
     bind_res (js_entry (up_json UP) j) (\<lambda>wire.
     map_err (\<lambda>e. case e of WireMissing f \<Rightarrow> ''missing required field `'' @ f @ ''`''
                 | WireInvalid f why \<Rightarrow> ''invalid field `'' @ f @ ''`: '' @ why)
       (episode_try_from (up_ts_parse UP) wire))"

fun convert_entries :: "('u, 'j) upstream \<Rightarrow> 'u difm \<Rightarrow> moment \<Rightarrow> show_slug \<Rightarrow> nat \<Rightarrow> 'j list
    \<Rightarrow> episode_meta list \<times> quarantined" where
  "convert_entries UP D t slug k [] = ([], [])"
| "convert_entries UP D t slug k (j # js) =
     (let (es, written) = convert_entries UP D t slug (Suc k) js in
      case convert_entry UP j of
        Inr e \<Rightarrow> (e # es, written)
      | Inl reason \<Rightarrow>
          (es, snd (write_or_note (up_write_fails UP) (df_quarantine_dir D) (up_stamp UP t k)
                 (''episode-entry-'' @ slug_str slug) (js_text (up_json UP) j)) @ written))"

text \<open>\<open>sort_by_key(|e| Reverse(e.published_at))\<close>: stable, newest first.\<close>

definition sort_newest :: "episode_meta list \<Rightarrow> episode_meta list" where
  "sort_newest es = rev (sort_key em_published_at (rev es))"

definition difm_episodes :: "('u, 'j) upstream \<Rightarrow> 'u difm \<Rightarrow> moment \<Rightarrow> show_slug \<Rightarrow> u32 option \<Rightarrow> string option
    \<Rightarrow> ('u provider_error + episode_listing) \<times> quarantined" where
  "difm_episodes UP D t slug limit etag =
     (let per_page = show_nat (unat (unwrap_or (df_per_page D) limit)) in
      case bind_res (endpoint (up_url UP) D [''shows'', slug_str slug, ''episodes'']
             [(''page'', ''1''), (''per_page'', per_page)]) (\<lambda>url.
           map_err (not_found_means_no_show slug) (get UP t url etag)) of
        Inl e \<Rightarrow> (Inl e, [])
      | Inr FetchedNotModified \<Rightarrow> (Inr NotModified, [])
      | Inr (FetchedBody payload new_etag) \<Rightarrow>
          (case parse_payload UP D t (js_array (up_json UP)) payload (''episodes-'' @ slug_str slug) of
             (Inl e, written) \<Rightarrow> (Inl e, written)
           | (Inr entries, written) \<Rightarrow>
               let (es, skipped) = convert_entries UP D t slug 0 entries;
                   sorted = sort_newest es;
                   bounded = (case limit of None \<Rightarrow> sorted | Some n \<Rightarrow> take (unat n) sorted)
               in (Inr (Modified bounded new_etag), skipped)))"

definition already_authorized :: "'u url_ops \<Rightarrow> 'u \<Rightarrow> bool" where
  "already_authorized U url \<longleftrightarrow>
     list_ex (\<lambda>kv. fst kv \<in> {''listen_key'', ''audio_token'', ''auth''}) (url_query_pairs U url)"

definition difm_resolve_audio :: "('u, 'j) upstream \<Rightarrow> 'u difm \<Rightarrow> moment \<Rightarrow> show_slug \<Rightarrow> episode_id
    \<Rightarrow> ('u provider_error + 'u audio_source) \<times> quarantined" where
  "difm_resolve_audio UP D t show i =
     (case bind_res (endpoint (up_url UP) D [''shows'', slug_str show, ''episodes'', id_str i]
             [(''api_key'', api_key_expose (df_api_key D))]) (\<lambda>url.
           map_err (not_found_means_no_show show) (get_text UP t url)) of
        Inl e \<Rightarrow> (Inl e, [])
      | Inr payload \<Rightarrow>
          (case parse_payload UP D t (js_episode (up_json UP)) payload
                  (''episode-'' @ slug_str show @ ''-'' @ id_str i) of
             (Inl e, written) \<Rightarrow> (Inl e, written)
           | (Inr wire, written) \<Rightarrow>
               (case episode_audio_url (up_url UP) wire of
                  None \<Rightarrow> (Inl (NoAudioAsset i
                    (''the response held no audio asset despite an api_key; either the key '' @
                     ''is stale/wrong or the upstream schema drifted '' @
                     map char_of [226 :: nat, 128, 148] @ '' run `splicefeed probe`'')), written)
                | Some url \<Rightarrow>
                    let audio_url =
                      (case df_listen_key D of
                         Some key \<Rightarrow>
                           if \<not> already_authorized (up_url UP) url
                           then url_query_extend (up_url UP) [(''listen_key'', listen_key_expose key)] url
                           else url
                       | None \<Rightarrow> url)
                    in (Inr \<lparr>as_url = audio_url, as_mime = mime_for (up_url UP) audio_url, as_bytes = None\<rparr>,
                        written))))"

definition difm_artwork :: "('u, 'j) upstream \<Rightarrow> 'u difm \<Rightarrow> moment \<Rightarrow> show_slug
    \<Rightarrow> ('u provider_error + 'u option) \<times> quarantined" where
  "difm_artwork UP D t slug = (case difm_show UP D t slug of (r, written) \<Rightarrow> (map_res sm_artwork r, written))"

definition difm_provider :: "('u, 'j) upstream \<Rightarrow> 'u difm \<Rightarrow> 'u provider" where
  "difm_provider UP D =
     \<lparr>pv_show = (\<lambda>t slug. fst (difm_show UP D t slug)),
      pv_episodes = (\<lambda>t slug limit etag. fst (difm_episodes UP D t slug limit etag)),
      pv_resolve_audio = (\<lambda>t show i. fst (difm_resolve_audio UP D t show i)),
      pv_artwork = (\<lambda>t slug. fst (difm_artwork UP D t slug))\<rparr>"

section \<open>The registry\<close>

text \<open>The builder, with one method per setting.\<close>

record 'u difm_builder =
  bu_api_key :: api_key
  bu_listen_key :: "listen_key option"
  bu_base_url :: "'u option"
  bu_quarantine_dir :: "path option"
  bu_per_page :: "u32 option"

definition new_builder :: "api_key \<Rightarrow> 'u difm_builder" where
  "new_builder key = \<lparr>bu_api_key = key, bu_listen_key = None, bu_base_url = None, bu_quarantine_dir = None, bu_per_page = None\<rparr>"

definition set_listen_key :: "listen_key \<Rightarrow> 'u difm_builder \<Rightarrow> 'u difm_builder" where
  "set_listen_key key b = b\<lparr>bu_listen_key := Some key\<rparr>"

definition set_base_url :: "'u \<Rightarrow> 'u difm_builder \<Rightarrow> 'u difm_builder" where
  "set_base_url url b = b\<lparr>bu_base_url := Some url\<rparr>"

definition set_quarantine_dir :: "path \<Rightarrow> 'u difm_builder \<Rightarrow> 'u difm_builder" where
  "set_quarantine_dir dir b = b\<lparr>bu_quarantine_dir := Some dir\<rparr>"

definition set_per_page :: "u32 \<Rightarrow> 'u difm_builder \<Rightarrow> 'u difm_builder" where
  "set_per_page n b = b\<lparr>bu_per_page := Some n\<rparr>"

text \<open>
  What building a provider takes from outside: the parsed \<open>DEFAULT_BASE_URL\<close>, and whether the HTTP
  client can be built.
\<close>

record 'u difm_outside =
  do_std_base :: 'u
  do_client :: "string + unit"

definition build_provider :: "'u difm_outside \<Rightarrow> 'u difm_builder \<Rightarrow> 'u provider_error + 'u difm" where
  "build_provider out b =
     map_res (\<lambda>_.
       \<lparr>df_base_url = unwrap_or (do_std_base out) (bu_base_url b), df_api_key = bu_api_key b,
        df_listen_key = bu_listen_key b,
        df_quarantine_dir = unwrap_or (path_join ''quarantine'' ''difm'') (bu_quarantine_dir b),
        df_per_page = unwrap_or default_per_page (bu_per_page b)\<rparr>)
       (map_err Http (do_client out))"

definition difm_create :: "'u difm_outside \<Rightarrow> 'u config \<Rightarrow> path \<Rightarrow> 'u provider_error + 'u difm" where
  "difm_create out c data_dir =
     bind_res (ok_or (MissingCredentials ''difm'') (difm_api_key c)) (\<lambda>key.
     let b = set_quarantine_dir (path_join (path_join data_dir ''quarantine'') ''difm'') (new_builder key);
         b = (case difm_listen_key c of Some k \<Rightarrow> set_listen_key k b | None \<Rightarrow> b);
         b = (case difm_base_url c of Some url \<Rightarrow> set_base_url url b | None \<Rightarrow> b)
     in build_provider out b)"

definition factory :: "string \<Rightarrow> 'u provider_error + string" where
  "factory name = (if name = ''difm'' then Inr ''difm'' else Inl (UnknownProvider name))"

type_synonym 'u registry = "(string \<times> 'u difm) list"

fun registry_from_shows :: "'u difm_outside \<Rightarrow> 'u config \<Rightarrow> path \<Rightarrow> 'u show_config list \<Rightarrow> 'u registry
    \<Rightarrow> 'u provider_error + 'u registry" where
  "registry_from_shows out c data_dir [] reg = Inr reg"
| "registry_from_shows out c data_dir (sc # rest) reg =
     (if map_of reg (sc_provider sc) \<noteq> None then registry_from_shows out c data_dir rest reg
      else bind_res (factory (sc_provider sc)) (\<lambda>name.
           bind_res (difm_create out c data_dir) (\<lambda>p.
           registry_from_shows out c data_dir rest ((name, p) # reg))))"

definition registry_from_config :: "'u difm_outside \<Rightarrow> 'u config \<Rightarrow> path \<Rightarrow> 'u provider_error + 'u registry" where
  "registry_from_config out c data_dir = registry_from_shows out c data_dir (cfg_shows c) []"

definition registry_get :: "'u registry \<Rightarrow> string \<Rightarrow> 'u provider_error + 'u difm" where
  "registry_get reg name = ok_or (UnknownProvider name) (map_of reg name)"

text \<open>\<open>ProviderRegistry::create\<close>, for a provider that no configured show names.\<close>

definition registry_create :: "'u difm_outside \<Rightarrow> 'u config \<Rightarrow> path \<Rightarrow> string \<Rightarrow> 'u provider_error + 'u difm" where
  "registry_create out c data_dir name = bind_res (factory name) (\<lambda>_. difm_create out c data_dir)"

section \<open>Listings\<close>

lemma sort_newest_newest_first: "newest_first (sort_newest es)"
proof -
  have "sorted_wrt (\<lambda>a b. em_published_at a \<le> em_published_at b) (sort_key em_published_at (rev es))"
    using sorted_sort_key [of em_published_at "rev es"] by (simp add: sorted_wrt_map)
  then show ?thesis by (simp add: newest_first_def sort_newest_def sorted_wrt_rev)
qed

lemma mset_sort_newest [simp]: "mset (sort_newest es) = mset es"
  by (simp add: sort_newest_def)

lemma set_sort_newest [simp]: "set (sort_newest es) = set es"
  by (simp add: sort_newest_def)

lemma newest_first_take: "newest_first es \<Longrightarrow> newest_first (take n es)"
  by (simp add: newest_first_def sorted_wrt_take)

lemma convert_entry_valid: "convert_entry UP j = Inr e \<Longrightarrow> valid_id (em_id e)"
  by (auto simp: convert_entry_def bind_res_Inr_iff dest: episode_try_from_id)

text \<open>The entries that convert, in order, and those that do not.\<close>

fun good_entries :: "('u, 'j) upstream \<Rightarrow> 'j list \<Rightarrow> episode_meta list" where
  "good_entries UP [] = []"
| "good_entries UP (j # js) =
     (case convert_entry UP j of Inr e \<Rightarrow> e # good_entries UP js | Inl _ \<Rightarrow> good_entries UP js)"

definition bad_entries :: "('u, 'j) upstream \<Rightarrow> 'j list \<Rightarrow> 'j list" where
  "bad_entries UP js = filter (\<lambda>j. ok (convert_entry UP j) = None) js"

lemma fst_convert_entries: "fst (convert_entries UP D t slug k js) = good_entries UP js"
proof (induction js arbitrary: k)
  case (Cons j js)
  from Cons [of "Suc k"] show ?case
    by (cases "convert_entries UP D t slug (Suc k) js"; cases "convert_entry UP j") simp_all
qed simp

lemma snd_convert_entries:
  assumes "\<And>p. \<not> up_write_fails UP p"
  shows "map snd (snd (convert_entries UP D t slug k js)) = map (js_text (up_json UP)) (bad_entries UP js)"
proof (induction js arbitrary: k)
  case (Cons j js)
  obtain es written where c: "convert_entries UP D t slug (Suc k) js = (es, written)" by fastforce
  with Cons [of "Suc k"] show ?case
    by (cases "convert_entry UP j")
      (simp_all add: bad_entries_def write_or_note_def Let_def assms)
qed (simp add: bad_entries_def)

lemma good_entries_valid: "e \<in> set (good_entries UP js) \<Longrightarrow> valid_id (em_id e)"
  by (induction js) (auto dest: convert_entry_valid split: sum.splits)

definition listing_window :: "u32 option \<Rightarrow> episode_meta list \<Rightarrow> episode_meta list" where
  "listing_window limit es =
     (case limit of None \<Rightarrow> sort_newest es | Some n \<Rightarrow> take (unat n) (sort_newest es))"

lemma difm_episodes_modified:
  assumes "difm_episodes UP D t slug limit etag = (Inr (Modified es tag), written)"
  shows "\<exists>payload entries. js_array (up_json UP) payload = Inr entries \<and>
    es = listing_window limit (good_entries UP entries) \<and>
    written = snd (convert_entries UP D t slug 0 entries)"
proof -
  obtain payload entries where js: "js_array (up_json UP) payload = Inr entries"
    and out: "es = listing_window limit (fst (convert_entries UP D t slug 0 entries))"
      "written = snd (convert_entries UP D t slug 0 entries)"
    using assms
    by (auto simp: difm_episodes_def parse_payload_def listing_window_def Let_def case_prod_beta
        split: sum.splits fetched.splits option.splits)
  then show ?thesis by (auto simp: fst_convert_entries)
qed

interpretation difm: episode_source
  "\<lambda>t slug limit etag. fst (difm_episodes UP D t slug limit etag)"
  "\<lambda>t slug. fst (difm_show UP D t slug)"
proof unfold_locales
  fix t slug limit etag es tag
  assume "fst (difm_episodes UP D t slug limit etag) = Inr (Modified es tag)"
  then obtain written where "difm_episodes UP D t slug limit etag = (Inr (Modified es tag), written)"
    by (metis prod.collapse)
  from difm_episodes_modified [OF this] obtain entries where
    es: "es = listing_window limit (good_entries UP entries)" by blast
  then have "set es \<subseteq> set (good_entries UP entries)"
    by (auto simp: listing_window_def split: option.splits dest: in_set_takeD)
  with good_entries_valid show "\<forall>e \<in> set es. valid_id (em_id e)" by blast
  show "newest_first es"
    unfolding es listing_window_def
    by (auto split: option.split intro: newest_first_take sort_newest_newest_first)
next
  fix t slug n etag es tag
  assume "fst (difm_episodes UP D t slug (Some n) etag) = Inr (Modified es tag)"
  then obtain written where "difm_episodes UP D t slug (Some n) etag = (Inr (Modified es tag), written)"
    by (metis prod.collapse)
  from difm_episodes_modified [OF this] show "length es \<le> unat n"
    by (auto simp: listing_window_def)
next
  fix t slug meta
  assume "fst (difm_show UP D t slug) = Inr meta"
  then show "sm_slug meta = slug"
    by (auto simp: difm_show_def map_res_Inr_iff split: sum.splits prod.splits)
qed

section \<open>Audio and errors\<close>

text \<open>The listen key goes only on a URL that carries no authorisation of its own.\<close>

definition with_listen_key :: "'u url_ops \<Rightarrow> listen_key option \<Rightarrow> 'u \<Rightarrow> 'u" where
  "with_listen_key U key url =
     (case key of
        Some k \<Rightarrow> if \<not> already_authorized U url
          then url_query_extend U [(''listen_key'', listen_key_expose k)] url else url
      | None \<Rightarrow> url)"

lemma resolve_audio_cases:
  assumes "fst (difm_resolve_audio UP D t show i) = Inr src"
  shows "\<exists>payload wire url. js_episode (up_json UP) payload = Inr wire \<and>
    episode_audio_url (up_url UP) wire = Some url \<and>
    as_url src = with_listen_key (up_url UP) (df_listen_key D) url \<and>
    as_mime src = mime_for (up_url UP) (as_url src)"
proof -
  obtain payload wire url where js: "js_episode (up_json UP) payload = Inr wire"
    and url: "episode_audio_url (up_url UP) wire = Some url"
    and src: "src = \<lparr>as_url = with_listen_key (up_url UP) (df_listen_key D) url,
      as_mime = mime_for (up_url UP) (with_listen_key (up_url UP) (df_listen_key D) url), as_bytes = None\<rparr>"
    using assms
    by (auto simp: difm_resolve_audio_def parse_payload_def Let_def case_prod_beta
        with_listen_key_def [symmetric] split: sum.splits option.splits)
  from src have "as_url src = with_listen_key (up_url UP) (df_listen_key D) url"
    "as_mime src = mime_for (up_url UP) (as_url src)" by simp_all
  with js url show ?thesis by blast
qed

fun provider_error_url :: "'u provider_error \<Rightarrow> 'u redacted_url option" where
  "provider_error_url (Status st u) = Some u"
| "provider_error_url _ = None"

lemma get_error_url: "get UP t url etag = Inl e \<Longrightarrow> provider_error_url e \<in> {None, Some (redacted (up_url UP) url)}"
  by (auto simp: get_def Let_def bind_res_Inl_iff map_err_Inl_iff split: if_splits)

lemma get_text_error_url:
  "get_text UP t url = Inl e \<Longrightarrow> provider_error_url e \<in> {None, Some (redacted (up_url UP) url)}"
proof (cases "get UP t url None")
  case (Inr f)
  then show "get_text UP t url = Inl e \<Longrightarrow> ?thesis" by (cases f) (auto simp: get_text_def)
qed (use get_error_url [of UP t url None] in \<open>simp add: get_text_def\<close>)

lemma not_found_error_url:
  "provider_error_url (not_found_means_no_show slug e) \<in> {None, provider_error_url e}"
  by (cases e) simp_all

lemma endpoint_error_url: "endpoint U D segs q = Inl e \<Longrightarrow> provider_error_url e = None"
  by (cases "url_path_extend U segs (df_base_url D)") (auto simp: endpoint_def)

definition redacted_somewhere :: "'u url_ops \<Rightarrow> 'u provider_error \<Rightarrow> bool" where
  "redacted_somewhere U e \<longleftrightarrow> (\<forall>r. provider_error_url e = Some r \<longrightarrow> (\<exists>url. r = redacted U url))"

lemma parse_payload_redacted: "parse_payload UP D t dec payload label = (Inl e, w) \<Longrightarrow> redacted_somewhere U e"
  by (auto simp: parse_payload_def redacted_somewhere_def Let_def split: sum.splits prod.splits)

lemma request_redacted:
  assumes "bind_res (endpoint (up_url UP) D segs q) (\<lambda>url. map_err (not_found_means_no_show slug) (f url)) = Inl e"
    "\<And>url e. f url = Inl e \<Longrightarrow> provider_error_url e \<in> {None, Some (redacted (up_url UP) url)}"
  shows "redacted_somewhere (up_url UP) e"
proof -
  consider "endpoint (up_url UP) D segs q = Inl e"
    | url e' where "f url = Inl e'" "e = not_found_means_no_show slug e'"
    using assms(1) by (auto simp: bind_res_Inl_iff map_err_Inl_iff)
  then show ?thesis
  proof cases
    case 1
    then show ?thesis by (simp add: redacted_somewhere_def endpoint_error_url)
  next
    case (2 url e')
    with assms(2) [OF 2(1)] not_found_error_url [of slug e'] show ?thesis
      by (auto simp: redacted_somewhere_def)
  qed
qed

lemmas get_text_redacted = request_redacted [where f = "get_text UP t" for UP t, OF _ get_text_error_url]

lemmas get_redacted = request_redacted [where f = "\<lambda>url. get UP t url etag" for UP t etag, OF _ get_error_url]

lemma difm_show_redacted:
  assumes "fst (difm_show UP D t slug) = Inl e"
  shows "redacted_somewhere (up_url UP) e"
  using assms
  by (auto simp: difm_show_def dest: get_text_redacted parse_payload_redacted split: sum.splits prod.splits)

lemma difm_episodes_redacted:
  assumes "fst (difm_episodes UP D t slug limit etag) = Inl e"
  shows "redacted_somewhere (up_url UP) e"
  using assms
  by (auto simp: difm_episodes_def Let_def dest: get_redacted parse_payload_redacted
      split: sum.splits prod.splits fetched.splits)

lemma difm_resolve_redacted:
  assumes "fst (difm_resolve_audio UP D t show i) = Inl e"
  shows "redacted_somewhere (up_url UP) e"
  using assms
  by (auto simp: difm_resolve_audio_def Let_def redacted_somewhere_def [of _ "NoAudioAsset _ _"]
      dest: get_text_redacted parse_payload_redacted split: sum.splits prod.splits option.splits)

section \<open>A concrete upstream\<close>

abbreviation demo_wire :: "string \<Rightarrow> string option \<Rightarrow> wire_episode" where
  "demo_wire slug start \<equiv>
     \<lparr>we_slug = Some slug, we_name = Some ''Show 1'', we_start_at = start, we_description = Some [],
      we_tracks = [\<lparr>wt_length = Some 7200, wt_display_title = None,
        wt_content = Some \<lparr>wc_assets = Some [None, Some ''//content/a.mp4''], wc_url = None\<rparr>,
        wt_asset_url = Some ''//images/a.png''\<rparr>]\<rparr>"

definition demo_json :: "wire_episode json_ops" where
  "demo_json =
     \<lparr>js_show = (\<lambda>p. Inr \<lparr>ws_slug = None, ws_name = Some ''After Hours'', ws_description = Some [],
        ws_images = \<lparr>im_compact = Some ''//images/c.png{?size}'', im_default = None\<rparr>\<rparr>),
      js_array = (\<lambda>p. Inr [demo_wire ''160'' None, demo_wire ''161'' (Some ''x''), demo_wire [] None,
        demo_wire ''162'' (Some ''xyz'')]),
      js_text = (\<lambda>w. unwrap_or ''-'' (we_slug w)),
      js_entry = Inr, js_episode = (\<lambda>p. Inr (demo_wire ''162'' None))\<rparr>"

definition demo_upstream :: "(tuple_url, wire_episode) upstream" where
  "demo_upstream =
     \<lparr>up_url = tuple_urls,
      up_http = (\<lambda>t url etag. Inr \<lparr>hr_status = (if t = 0 then 500 else 200), hr_etag = Some ''v1'', hr_text = Inr ''[]''\<rparr>),
      up_json = demo_json, up_ts_parse = (\<lambda>s. Inr (int (length s))),
      up_stamp = (\<lambda>t k. show_nat k), up_write_fails = (\<lambda>p. False)\<rparr>"

abbreviation demo_difm :: "tuple_url difm" where
  "demo_difm \<equiv>
     \<lparr>df_base_url = (''https://api'', [], []), df_api_key = ApiKey ''a-key'',
      df_listen_key = Some (ListenKey ''l-key''), df_quarantine_dir = ''/data/quarantine/difm'', df_per_page = 25\<rparr>"

section \<open>Properties\<close>



text \<open>
  A signed playback URL is used as it is.  When \<open>resolve_audio\<close> succeeds, the URL is the
  episode's audio URL; if that URL carries \<open>listen_key\<close>, \<open>audio_token\<close> or \<open>auth\<close> nothing is
  added to it, and otherwise exactly the configured listen key is appended, once.
\<close>

theorem signed_urls_untouched:
  assumes "url_query_laws (up_url UP)" "fst (difm_resolve_audio UP D t show i) = Inr src"
  shows "\<exists>payload wire url. js_episode (up_json UP) payload = Inr wire \<and>
    episode_audio_url (up_url UP) wire = Some url \<and>
    (if (\<exists>kv \<in> set (url_query_pairs (up_url UP) url). fst kv \<in> {''listen_key'', ''audio_token'', ''auth''})
        \<or> df_listen_key D = None
     then as_url src = url
     else \<exists>k. df_listen_key D = Some (ListenKey k) \<and>
       url_query_pairs (up_url UP) (as_url src) = url_query_pairs (up_url UP) url @ [(''listen_key'', k)])"
proof -
  obtain payload wire url where r: "js_episode (up_json UP) payload = Inr wire"
    "episode_audio_url (up_url UP) wire = Some url"
    "as_url src = with_listen_key (up_url UP) (df_listen_key D) url"
    using resolve_audio_cases [OF assms(2)] by blast
  have auth: "already_authorized (up_url UP) url \<longleftrightarrow>
      (\<exists>kv \<in> set (url_query_pairs (up_url UP) url). fst kv \<in> {''listen_key'', ''audio_token'', ''auth''})"
    by (simp add: already_authorized_def list_ex_iff)
  show ?thesis
  proof (cases "df_listen_key D")
    case None
    with r show ?thesis by (auto simp: with_listen_key_def)
  next
    case (Some key)
    obtain k where "key = ListenKey k" by (cases key)
    with Some assms(1) r auth show ?thesis
      by (auto simp: with_listen_key_def url_query_laws_def)
  qed
qed

theorem signed_urls_untouched_witness:
  "\<exists>src. fst (difm_resolve_audio demo_upstream demo_difm 1 (ShowSlug ''s'') (EpisodeId ''162'')) = Inr src \<and>
    (\<exists>url k. url_query_pairs tuple_urls (as_url src) = url_query_pairs tuple_urls url @ [(''listen_key'', k)])"
proof -
  have laws: "url_query_laws (up_url demo_upstream)" by (simp add: demo_upstream_def tuple_urls_laws)
  have run: "fst (difm_resolve_audio demo_upstream demo_difm 1 (ShowSlug ''s'') (EpisodeId ''162'')) =
      Inr \<lparr>as_url = (''https://content/a.mp4'', [], [(''listen_key'', ''l-key'')]), as_mime = None, as_bytes = None\<rparr>"
    by code_simp
  from signed_urls_untouched [OF laws run] run show ?thesis
    by (auto simp: demo_upstream_def tuple_urls_def)
qed

text \<open>
  C35: Provider errors are free of credentials.  Whatever upstream answers, an error of
  \<open>show\<close>, \<open>episodes\<close> or \<open>resolve_audio\<close> that carries a URL carries a redacted one: in its query
  the values of \<open>listen_key\<close>, \<open>api_key\<close> and \<open>audio_token\<close> read \<open>REDACTED\<close>.
\<close>

theorem provider_errors_redacted:
  assumes "url_query_laws (up_url UP)"
    "e \<in> {e. fst (difm_show UP D t slug) = Inl e \<or> fst (difm_episodes UP D t slug limit etag) = Inl e \<or>
       fst (difm_resolve_audio UP D t slug i) = Inl e}"
    "provider_error_url e = Some shown" "(k, v) \<in> set (url_query_pairs (up_url UP) (redacted_inner shown))"
    "k \<in> {''listen_key'', ''api_key'', ''audio_token''}"
  shows "v = ''REDACTED''"
proof -
  have "redacted_somewhere (up_url UP) e"
    using assms(2) difm_show_redacted difm_episodes_redacted difm_resolve_redacted by blast
  with assms(3) obtain url where "shown = redacted (up_url UP) url"
    by (auto simp: redacted_somewhere_def)
  with assms(4) query_pairs_redacted [OF assms(1)] obtain kv where "(k, v) = redact_pair kv" by auto
  with assms(5) show ?thesis by (auto simp: redact_pair_def secret_params_def split: if_splits)
qed

theorem provider_errors_redacted_witness:
  "\<exists>e shown v. fst (difm_resolve_audio demo_upstream demo_difm 0 (ShowSlug ''s'') (EpisodeId ''162'')) = Inl e \<and>
     provider_error_url e = Some shown \<and>
     (''api_key'', v) \<in> set (url_query_pairs tuple_urls (redacted_inner shown)) \<and> v = ''REDACTED''"
proof -
  let ?shown = "RedactedUrl (''https://api'', [''shows'', ''s'', ''episodes'', ''162''], [(''api_key'', ''REDACTED'')]) :: tuple_url redacted_url"
  have run: "fst (difm_resolve_audio demo_upstream demo_difm 0 (ShowSlug ''s'') (EpisodeId ''162'')) =
      Inl (Status 500 ?shown)"
    by code_simp
  have pairs: "(''api_key'', ''REDACTED'') \<in> set (url_query_pairs (up_url demo_upstream) (redacted_inner ?shown))"
    by (simp add: demo_upstream_def tuple_urls_def)
  have laws: "url_query_laws (up_url demo_upstream)" by (simp add: demo_upstream_def tuple_urls_laws)
  have "''REDACTED'' = ''REDACTED''"
    by (rule provider_errors_redacted [OF laws _ _ pairs]) (use run in auto)
  with run pairs show ?thesis by (intro exI conjI) (auto simp: demo_upstream_def)
qed

lemma registry_from_shows_Inr:
  "registry_from_shows b c dir scs reg = Inr reg' \<Longrightarrow>
     (\<forall>n. map_of reg n \<noteq> None \<longrightarrow> map_of reg' n \<noteq> None) \<and>
     (\<forall>sc \<in> set scs. map_of reg' (sc_provider sc) \<noteq> None)"
proof (induction scs arbitrary: reg)
  case (Cons sc scs)
  show ?case
  proof (cases "map_of reg (sc_provider sc)")
    case (Some p)
    with Cons show ?thesis by simp
  next
    case None
    with Cons.prems obtain p where f: "sc_provider sc = ''difm''"
      "registry_from_shows b c dir scs ((''difm'', p) # reg) = Inr reg'"
      by (auto simp: bind_res_Inr_iff factory_def split: if_splits)
    from Cons.IH [OF f(2)] f(1) show ?thesis by (auto split: if_splits)
  qed
qed simp

text \<open>What the factory makes of a configuration.\<close>

lemma difm_create_eq:
  "difm_create out c data_dir =
     bind_res (ok_or (MissingCredentials ''difm'') (difm_api_key c)) (\<lambda>key.
     map_res (\<lambda>_.
       \<lparr>df_base_url = unwrap_or (do_std_base out) (difm_base_url c), df_api_key = key, df_listen_key = difm_listen_key c,
        df_quarantine_dir = path_join (path_join data_dir ''quarantine'') ''difm'', df_per_page = default_per_page\<rparr>)
       (map_err Http (do_client out)))"
  by (cases "difm_api_key c"; cases "difm_listen_key c"; cases "difm_base_url c")
    (simp_all add: difm_create_def build_provider_def new_builder_def set_listen_key_def set_base_url_def set_quarantine_dir_def)

lemma registry_from_shows_total:
  assumes "do_client b = Inr ()" "difm_api_key c \<noteq> None" "\<forall>sc \<in> set scs. sc_provider sc = ''difm''"
  shows "\<exists>reg'. registry_from_shows b c dir scs reg = Inr reg'"
  using assms(3)
proof (induction scs arbitrary: reg)
  case (Cons sc scs)
  from assms(1,2) Cons show ?case
    by (cases "map_of reg ''difm''") (auto simp: factory_def difm_create_eq)
qed simp

lemma registry_from_shows_Inl:
  "registry_from_shows b c dir scs reg = Inl e \<Longrightarrow>
     (\<exists>sc \<in> set scs. sc_provider sc \<noteq> ''difm'' \<and> e = UnknownProvider (sc_provider sc)) \<or>
     (\<exists>sc \<in> set scs. sc_provider sc = ''difm'' \<and> (difm_api_key c = None \<and> e = MissingCredentials ''difm'' \<or> (\<exists>m. do_client b = Inl m \<and> e = Http m)))"
proof (induction scs arbitrary: reg)
  case (Cons sc scs)
  show ?case
  proof (cases "map_of reg (sc_provider sc)")
    case None
    with Cons show ?thesis
      by (cases "difm_api_key c"; cases "do_client b") (auto simp: factory_def difm_create_eq split: if_splits)
  qed (use Cons in auto)
qed simp

text \<open>
  A validated configuration gets its providers.  Building the registry for a configuration
  that passed \<open>validate\<close> fails only by naming a show's unregistered provider or for want of an
  HTTP client, never for missing credentials; when it succeeds every configured show finds its provider.
\<close>

theorem registry_covers_config:
  assumes "validate c = Inr ()"
  shows "case registry_from_config b c dir of
     Inr reg \<Rightarrow> \<forall>sc \<in> set (cfg_shows c). \<exists>p. registry_get reg (sc_provider sc) = Inr p
   | Inl e \<Rightarrow> \<exists>sc \<in> set (cfg_shows c). sc_provider sc \<noteq> ''difm'' \<and> e = UnknownProvider (sc_provider sc) \<or>
       (\<exists>m. do_client b = Inl m \<and> e = Http m)"
proof (cases "registry_from_config b c dir")
  case (Inr reg)
  then show ?thesis
    using registry_from_shows_Inr [of b c dir "cfg_shows c" "[]" reg]
    by (auto simp: registry_from_config_def registry_get_def)
next
  case (Inl e)
  have "\<forall>sc \<in> set (cfg_shows c). sc_provider sc = ''difm'' \<longrightarrow> difm_api_key c \<noteq> None"
    using assms by (auto simp: validate_def validate_shows_Inr_iff)
  with Inl registry_from_shows_Inl [of b c dir "cfg_shows c" "[]" e] show ?thesis
    by (auto simp: registry_from_config_def)
qed

theorem registry_covers_config_witness:
  "\<exists>reg. registry_from_config \<lparr>do_std_base = ''u'', do_client = Inr ()\<rparr> (override_auth demo_env demo_config) ''/d'' = Inr reg \<and>
     (\<forall>sc \<in> set (cfg_shows demo_config). \<exists>p. registry_get reg (sc_provider sc) = Inr p)"
proof -
  let ?out = "\<lparr>do_std_base = ''u'', do_client = Inr ()\<rparr>"
  let ?c = "override_auth demo_env demo_config"
  have sh: "cfg_shows ?c = cfg_shows demo_config" "difm_api_key ?c = Some (ApiKey ''k'')"
    by (simp_all add: override_auth_def difm_api_key_def)
  have valid: "validate ?c = Inr ()" using sh by (simp add: validate_def)
  have "\<exists>reg. registry_from_config ?out ?c ''/d'' = Inr reg"
    unfolding registry_from_config_def by (rule registry_from_shows_total) (simp_all add: sh)
  then obtain reg where "registry_from_config ?out ?c ''/d'' = Inr reg" ..
  with registry_covers_config [OF valid, of ?out "''/d''"] sh show ?thesis by auto
qed

end
