(* ===== verification/Ipc.thy ===== *)
theory Ipc
  imports Domain
begin

text \<open>
  \<open>crates/core/src/ipc.rs\<close>: the messages of the control socket and the events of the sync
  engine.  Their JSON encoding is derived by \<open>serde\<close>; an event of an unknown kind keeps the
  JSON value it came in, whose type is the parameter \<open>'j\<close>.
\<close>

definition protocol_version :: u32 where
  "protocol_version = 1"

record hello =
  he_protocol_version :: u32
  he_daemon_version :: string

datatype request = RequestSnapshot | RequestSubscribe

record show_status =
  ss_slug :: show_slug
  ss_provider :: string
  ss_last_poll_at :: "int option"
  ss_last_poll_ok :: "bool option"
  ss_next_poll_at :: "int option"
  ss_episodes_cached :: u64
  ss_cache_bytes :: u64
  ss_last_error :: "string option"

record download_status =
  ds_show :: show_slug
  ds_episode :: episode_id
  ds_bytes_done :: u64
  ds_bytes_total :: "u64 option"
  ds_bytes_per_sec :: u64

record snapshot =
  sn_uptime_secs :: u64
  sn_shows :: "show_status list"
  sn_downloads :: "download_status list"
  sn_data_dir_bytes :: u64
  sn_http_requests :: u64

datatype response = RespSnapshot snapshot | RespError string

datatype known_event =
    PollStarted show_slug
  | PollFinished show_slug bool u32
  | EpisodeDiscovered show_slug episode_id
  | DownloadFinished show_slug episode_id "error_class option"
  | EpisodesPruned show_slug u32 u64
  | Quarantined string "path option"

datatype 'j event = KnownEvent known_event | UnknownEvent 'j

text \<open>
  The untagged reader tries the known events first and falls back to the raw value, so it has
  no failing branch; \<open>read_known\<close> is \<open>serde\<close>'s derived reader.
\<close>

definition read_event :: "('j \<Rightarrow> known_event option) \<Rightarrow> 'j \<Rightarrow> 'j event" where
  "read_event read_known j = (case read_known j of Some e \<Rightarrow> KnownEvent e | None \<Rightarrow> UnknownEvent j)"

end
