(* ===== verification/Library.thy ===== *)
theory Library
  imports Lifecycle Retention Download Feeds Ipc Difm
begin

text \<open>
  \<open>crates/splicefeed/src/lib.rs\<close>: the \<open>Library\<close> facade.  The state of a library is its
  database, its files and the events it has broadcast; a method is a function from the state
  to a result and the next state.  Everything outside (the clock, the network, the disk's
  temporary files, the order in which concurrent downloads run) is a field of \<open>host\<close>, looked
  up at the tick of the call, so two calls may be answered differently.

  Downloads of one sync run concurrently in the program.  They are taken here one after the
  other, in the order \<open>host_order\<close> picks; each works on its own row and its own file.
\<close>

section \<open>Errors and reports\<close>

datatype 'u library_error =
    LibProvider "'u provider_error"
  | LibStorage storage_error
  | LibDownload "'u download_error"
  | UnknownShow show_slug
  | NotSynced show_slug

record sync_report =
  sr_discovered :: u32
  sr_downloaded :: u32
  sr_pruned :: u32

datatype file_problem =
    Missing
  | SizeMismatch u64 u64
  | HashMismatch
  | Unreadable string

fun file_problem_display :: "file_problem \<Rightarrow> string" where
  "file_problem_display Missing = ''missing''"
| "file_problem_display (SizeMismatch expected actual) =
     ''size mismatch (expected '' @ show_nat (unat expected) @ '' bytes, got '' @ show_nat (unat actual) @ '')''"
| "file_problem_display HashMismatch = ''hash mismatch''"
| "file_problem_display (Unreadable reason) = ''unreadable: '' @ reason"

record verify_outcome =
  vo_id :: episode_id
  vo_problem :: file_problem
  vo_fixed :: bool

record verify_report =
  vr_checked :: u32
  vr_intact :: u32
  vr_problems :: "verify_outcome list"

datatype 'u episode_sync_error =
    SyncProvider "'u provider_error"
  | SyncDownload "'u download_error"
  | SyncStorage storage_error

fun sync_error_class :: "'u episode_sync_error \<Rightarrow> error_class" where
  "sync_error_class (SyncProvider (Http m)) = Network"
| "sync_error_class (SyncProvider (Status st u)) = HttpStatus"
| "sync_error_class (SyncProvider (ShowNotFound s)) = HttpStatus"
| "sync_error_class (SyncProvider (ParseFailed r p)) = Parse"
| "sync_error_class (SyncProvider (NoAudioAsset i h)) = Parse"
| "sync_error_class (SyncProvider e) = Network"
| "sync_error_class (SyncDownload e) = dl_class e"
| "sync_error_class (SyncStorage e) = Disk"

section \<open>The library and its surroundings\<close>

record 'u host =
  host_url :: "'u url_ops"
  host_codec :: codec
  host_hash :: "string \<Rightarrow> hash"
  host_clock :: "moment \<Rightarrow> nat \<Rightarrow> timestamp"
  host_net :: "moment \<Rightarrow> nat \<Rightarrow> transfer"
  host_elapsed_ms :: "moment \<Rightarrow> nat \<Rightarrow> u64"
  host_probe :: "string \<Rightarrow> nat option"
  host_copy_error :: "moment \<Rightarrow> io_error option"
  host_order :: "moment \<Rightarrow> episode_record list \<Rightarrow> episode_record list"

record 'u library =
  lib_config :: "'u config"
  lib_data_dir :: path
  lib_providers :: "string \<Rightarrow> 'u provider option"

record lib_state =
  ls_db :: db
  ls_fs :: fs
  ls_events :: "known_event list"
  ls_tick :: moment

definition tick :: "lib_state \<Rightarrow> lib_state" where
  "tick s = s\<lparr>ls_tick := Suc (ls_tick s)\<rparr>"

definition emit :: "known_event \<Rightarrow> lib_state \<Rightarrow> lib_state" where
  "emit e s = s\<lparr>ls_events := ls_events s @ [e]\<rparr>"

text \<open>A storage call: the clock moves on, and an error leaves the database alone.\<close>

definition stored :: "'a stored \<Rightarrow> lib_state \<Rightarrow> (storage_error + 'a) \<times> lib_state" where
  "stored r s =
     (case r of
        Inl e \<Rightarrow> (Inl e, tick s)
      | Inr (a, d) \<Rightarrow> (Inr a, tick (s\<lparr>ls_db := d\<rparr>)))"

definition now_at :: "'u host \<Rightarrow> lib_state \<Rightarrow> timestamp" where
  "now_at H s = host_clock H (ls_tick s) 0"

text \<open>The \<open>?\<close> operator on a result with a state.\<close>

definition andThen :: "('e + 'a) \<times> 's \<Rightarrow> ('a \<Rightarrow> 's \<Rightarrow> ('e + 'b) \<times> 's) \<Rightarrow> ('e + 'b) \<times> 's" where
  "andThen rs f = (case rs of (Inl e, s) \<Rightarrow> (Inl e, s) | (Inr a, s) \<Rightarrow> f a s)"

definition lift_err :: "('e \<Rightarrow> 'f) \<Rightarrow> ('e + 'a) \<times> 's \<Rightarrow> ('f + 'a) \<times> 's" where
  "lift_err f rs = (map_err f (fst rs), snd rs)"

lemma andThen_simps [simp]:
  "andThen (Inl e, s) f = (Inl e, s)" "andThen (Inr a, s) f = f a s"
  by (simp_all add: andThen_def)

lemma lift_err_simps [simp]:
  "lift_err f (Inl e, s) = (Inl (f e), s)" "lift_err f (Inr a, s) = (Inr a, s)"
  by (simp_all add: lift_err_def)

definition find_show :: "'u library \<Rightarrow> show_slug \<Rightarrow> 'u library_error + 'u show_config" where
  "find_show L slug = ok_or (UnknownShow slug) (List.find (\<lambda>sc. sc_slug sc = slug) (cfg_shows (lib_config L)))"

definition get_provider :: "'u library \<Rightarrow> string \<Rightarrow> 'u library_error + 'u provider" where
  "get_provider L name = ok_or (LibProvider (UnknownProvider name)) (lib_providers L name)"

section \<open>Paths and URLs\<close>

text \<open>\<open>url_extension\<close>: at most four ASCII alphanumerics after the last dot of the path.\<close>

definition url_extension :: "'u url_ops \<Rightarrow> 'u \<Rightarrow> string option" where
  "url_extension U url =
     filter_opt (\<lambda>ext. CHR ''/'' \<notin> set ext \<and> 1 \<le> length ext \<and> length ext \<le> 4 \<and> list_all ascii_alnum ext)
       (Some (rsplit_first CHR ''.'' (url_path U url)))"

definition extension_for :: "'u url_ops \<Rightarrow> 'u audio_source \<Rightarrow> string" where
  "extension_for U source =
     (case Option.bind (as_mime source) mime_extension of
        Some ext \<Rightarrow> ext
      | None \<Rightarrow> unwrap_or ''bin'' (url_extension U (as_url source)))"

text \<open>One character per Unicode scalar value: itself when it is safe in a file name, else \<open>_\<close>.\<close>

definition sanitize :: "string \<Rightarrow> string" where
  "sanitize s = map (\<lambda>c. if ascii_alnum c \<or> c = CHR ''-'' \<or> c = CHR ''_'' then c else CHR ''_'') (scalar_heads s)"

definition media_file_name :: "'u url_ops \<Rightarrow> episode_id \<Rightarrow> 'u audio_source \<Rightarrow> string" where
  "media_file_name U i source = sanitize (id_str i) @ ''.'' @ extension_for U source"

definition media_path :: "'u url_ops \<Rightarrow> 'u library \<Rightarrow> show_slug \<Rightarrow> episode_id \<Rightarrow> 'u audio_source \<Rightarrow> path" where
  "media_path U L slug i source =
     path_join (path_join (path_join (lib_data_dir L) ''media'') (slug_str slug)) (media_file_name U i source)"

definition under :: "'u url_ops \<Rightarrow> 'u \<Rightarrow> string list \<Rightarrow> 'u option" where
  "under U base segments = url_path_extend U segments base"

section \<open>Progress\<close>

text \<open>
  The throttle of \<open>progress_writer\<close>: of the callbacks made at the given milliseconds, those
  that write.  \<open>u64::MAX\<close> marks that nothing was written yet.
\<close>

definition should_write :: "u64 \<Rightarrow> u64 \<Rightarrow> bool" where
  "should_write prev now_ms \<longleftrightarrow>
     \<not> (prev \<noteq> - 1 \<and> (if now_ms \<ge> prev then now_ms - prev else 0) < 1000)"

fun progress_writes :: "(nat \<Rightarrow> u64) \<Rightarrow> nat \<Rightarrow> u64 \<Rightarrow> (u64 \<times> u64 option) list
    \<Rightarrow> (u64 \<times> (u64 \<times> u64 option)) list" where
  "progress_writes elapsed k prev [] = []"
| "progress_writes elapsed k prev (c # cs) =
     (if should_write prev (elapsed k)
      then (elapsed k, c) # progress_writes elapsed (Suc k) (elapsed k) cs
      else progress_writes elapsed (Suc k) prev cs)"

text \<open>Each write is a storage call of its own; its error is only logged.\<close>

fun write_progress :: "'u host \<Rightarrow> show_slug \<Rightarrow> episode_id \<Rightarrow> (u64 \<times> (u64 \<times> u64 option)) list
    \<Rightarrow> lib_state \<Rightarrow> lib_state" where
  "write_progress H show i [] s = s"
| "write_progress H show i ((ms, bytes_done, bytes_total) # ws) s =
     write_progress H show i ws
       (snd (stored (set_progress (host_codec H) (now_at H s) show i bytes_done bytes_total (ls_db s)) s))"

section \<open>Downloading one episode\<close>

text \<open>The three stretches of \<open>try_download\<close>: record a finished file, transfer it, and the whole.\<close>

definition record_cached :: "'u host \<Rightarrow> show_slug \<Rightarrow> episode_record \<Rightarrow> path \<Rightarrow> downloaded
    \<Rightarrow> lib_state \<Rightarrow> ('u episode_sync_error + unit) \<times> lib_state" where
  "record_cached H slug ep dest got s =
     (let duration = (case r_duration_secs ep of
                        Some _ \<Rightarrow> None
                      | None \<Rightarrow> probe_duration (host_probe H) (ls_fs s) dest)
      in lift_err SyncStorage (stored (mark_cached (host_codec H) (now_at H s) slug (r_id ep)
           \<lparr>cf_file_path = dest, cf_bytes = dl_bytes got, cf_blake3 = dl_blake3 got,
            cf_mime = dl_mime got, cf_duration_secs = duration\<rparr> (ls_db s)) s))"

definition transfer_file :: "'u host \<Rightarrow> show_slug \<Rightarrow> episode_record \<Rightarrow> 'u audio_source \<Rightarrow> path
    \<Rightarrow> lib_state \<Rightarrow> ('u episode_sync_error + downloaded) \<times> lib_state" where
  "transfer_file H slug ep source dest s =
     (let t = ls_tick s in
      case fetch (host_url H) (host_hash H) (host_net H t) source dest (ls_fs s) of
        (result, F, calls, attempts) \<Rightarrow>
          (map_err SyncDownload result,
           write_progress H slug (r_id ep) (progress_writes (host_elapsed_ms H t) 0 (- 1) calls)
             (tick (s\<lparr>ls_fs := F\<rparr>))))"

definition try_download :: "'u host \<Rightarrow> 'u library \<Rightarrow> 'u provider \<Rightarrow> show_slug \<Rightarrow> episode_record
    \<Rightarrow> lib_state \<Rightarrow> ('u episode_sync_error + unit) \<times> lib_state" where
  "try_download H L pv slug ep s =
     andThen (lift_err SyncStorage (stored (mark_downloading slug (r_id ep) (ls_db s)) s)) (\<lambda>_ s.
     andThen (map_err SyncProvider (pv_resolve_audio pv (ls_tick s) slug (r_id ep)), tick s) (\<lambda>source s.
     let dest = media_path (host_url H) L slug (r_id ep) source in
     andThen (transfer_file H slug ep source dest s) (\<lambda>got s.
     record_cached H slug ep dest got s)))"

definition download_episode :: "'u host \<Rightarrow> 'u library \<Rightarrow> 'u provider \<Rightarrow> show_slug \<Rightarrow> episode_record
    \<Rightarrow> lib_state \<Rightarrow> bool \<times> lib_state" where
  "download_episode H L pv slug ep s =
     (case try_download H L pv slug ep s of
        (Inr _, s) \<Rightarrow> (True, emit (DownloadFinished slug (r_id ep) None) s)
      | (Inl err, s) \<Rightarrow>
          let cls = sync_error_class err;
              s = snd (stored (mark_failed slug (r_id ep) cls (ls_db s)) s)
          in (False, emit (DownloadFinished slug (r_id ep) (Some cls)) s))"

fun download_all :: "'u host \<Rightarrow> 'u library \<Rightarrow> 'u provider \<Rightarrow> show_slug \<Rightarrow> episode_record list
    \<Rightarrow> u32 \<Rightarrow> lib_state \<Rightarrow> u32 \<times> lib_state" where
  "download_all H L pv slug [] done s = (done, s)"
| "download_all H L pv slug (ep # eps) done s =
     (case download_episode H L pv slug ep s of
        (success, s) \<Rightarrow> download_all H L pv slug eps (if success then done + 1 else done) s)"

section \<open>Retention\<close>

definition cached_candidates :: "episode_record list \<Rightarrow> candidate list" where
  "cached_candidates records =
     map (\<lambda>ep. \<lparr>cand_id = r_id ep, cand_bytes = unwrap_or 0 (r_bytes ep)\<rparr>)
       (filter (\<lambda>ep. r_state ep = Cached) records)"

text \<open>
  One iteration per doomed episode.  The file goes first; if it cannot be deleted, for another
  reason than its absence, the episode stays cached.
\<close>

fun prune_loop :: "show_slug \<Rightarrow> episode_record list \<Rightarrow> episode_id list \<Rightarrow> u32 \<Rightarrow> u64 \<Rightarrow> lib_state
    \<Rightarrow> (storage_error + u32 \<times> u64) \<times> lib_state" where
  "prune_loop slug records [] pruned freed s = (Inr (pruned, freed), s)"
| "prune_loop slug records (i # ids) pruned freed s =
     (let record = List.find (\<lambda>ep. r_id ep = i) records;
          (removed, s) =
            (case Option.bind record r_file_path of
               None \<Rightarrow> (True, s)
             | Some p \<Rightarrow>
                 (case fs_remove p (ls_fs s) of
                    (Inr _, F) \<Rightarrow> (True, s\<lparr>ls_fs := F\<rparr>)
                  | (Inl IoNotFound, F) \<Rightarrow> (True, s\<lparr>ls_fs := F\<rparr>)
                  | (Inl (IoOther why), F) \<Rightarrow> (False, s\<lparr>ls_fs := F\<rparr>)))
      in if \<not> removed then prune_loop slug records ids pruned freed s
         else andThen (stored (mark_pruned slug i (ls_db s)) s) (\<lambda>_ s.
              prune_loop slug records ids (pruned + 1)
                (freed + unwrap_or 0 (Option.bind record r_bytes)) s))"

definition apply_retention :: "'u host \<Rightarrow> show_slug \<Rightarrow> retention \<Rightarrow> lib_state
    \<Rightarrow> ('u library_error + u32) \<times> lib_state" where
  "apply_retention H slug policy s =
     andThen (map_err LibStorage (storage_episodes (host_codec H) slug (ls_db s)), tick s) (\<lambda>records s.
     andThen (lift_err LibStorage (prune_loop slug records (plan policy (cached_candidates records)) 0 0 s))
       (\<lambda>(pruned, freed) s.
        (Inr pruned, if 0 < pruned then emit (EpisodesPruned slug pruned freed) s else s)))"

section \<open>Artwork\<close>

datatype 'u art_source = ArtFetch 'u | ArtCopy path

definition pick_art_source :: "'u show_config \<Rightarrow> 'u show_meta \<Rightarrow> 'u art_source option" where
  "pick_art_source sc meta =
     (case sc_artwork sc of
        Some (ArtUrl url) \<Rightarrow> Some (ArtFetch url)
      | Some (ArtPath p) \<Rightarrow> Some (ArtCopy p)
      | None \<Rightarrow> map_option ArtFetch (sm_artwork meta))"

fun art_ext_key :: "'u url_ops \<Rightarrow> 'u art_source \<Rightarrow> string \<times> string" where
  "art_ext_key U (ArtFetch url) = (unwrap_or ''img'' (url_extension U url), url_str U url)"
| "art_ext_key U (ArtCopy p) = (unwrap_or ''img'' (path_extension p), p)"

definition art_dest :: "'u host \<Rightarrow> 'u library \<Rightarrow> show_slug \<Rightarrow> 'u art_source \<Rightarrow> path" where
  "art_dest H L slug src =
     (let (ext, key) = art_ext_key (host_url H) src;
          source_hash = take 8 (hash_to_hex (host_codec H) (host_hash H key))
      in path_join (path_join (lib_data_dir L) ''artwork'') (slug_str slug @ ''-'' @ source_hash @ ''.'' @ ext))"

text \<open>Fetch or copy the picture; an override that cannot be read is an error text.\<close>

fun art_fetch :: "'u host \<Rightarrow> path \<Rightarrow> 'u art_source \<Rightarrow> lib_state \<Rightarrow> bool \<times> lib_state" where
  "art_fetch H dest (ArtFetch url) s =
     (case fetch (host_url H) (host_hash H) (host_net H (ls_tick s))
             \<lparr>as_url = url, as_mime = None, as_bytes = None\<rparr> dest (ls_fs s) of
        (result, F, calls, attempts) \<Rightarrow> (ok result \<noteq> None, tick (s\<lparr>ls_fs := F\<rparr>)))"
| "art_fetch H dest (ArtCopy p) s =
     (case (host_copy_error H (ls_tick s), fs_read (ls_fs s) p) of
        (None, Inr c) \<Rightarrow> (True, tick (s\<lparr>ls_fs := fs_write dest c (ls_fs s)\<rparr>))
      | _ \<Rightarrow> (False, tick s))"

definition cache_artwork :: "'u host \<Rightarrow> 'u library \<Rightarrow> 'u show_config \<Rightarrow> 'u show_meta \<Rightarrow> show_slug
    \<Rightarrow> lib_state \<Rightarrow> lib_state" where
  "cache_artwork H L sc meta slug s =
     (case storage_show (host_codec H) slug (ls_db s) of
        Inl e \<Rightarrow> tick s
      | Inr found \<Rightarrow>
          let s = tick s; existing = Option.bind found rs_artwork_path in
          (case pick_art_source sc meta of
             None \<Rightarrow> s
           | Some src \<Rightarrow>
               let dest = art_dest H L slug src in
               if existing = Some dest \<and> fs_exists (ls_fs s) dest then s
               else (case art_fetch H dest src s of
                       (False, s) \<Rightarrow> s
                     | (True, s) \<Rightarrow>
                         (case stored (set_artwork_path slug dest (ls_db s)) s of
                            (Inl e, s) \<Rightarrow> s
                          | (Inr _, s) \<Rightarrow>
                              (case filter_opt (\<lambda>old. old \<noteq> dest) existing of
                                 None \<Rightarrow> s
                               | Some old \<Rightarrow> s\<lparr>ls_fs := snd (fs_remove old (ls_fs s))\<rparr>)))))"

section \<open>Sync\<close>

definition stale_download_after :: nat where
  "stale_download_after = 10 * 60"

definition poll_failed :: "'u host \<Rightarrow> 'u library \<Rightarrow> show_slug \<Rightarrow> 'u provider_error \<Rightarrow> lib_state
    \<Rightarrow> ('u library_error + 'u library_error) \<times> lib_state" where
  "poll_failed H L slug err s =
     andThen (lift_err LibStorage (stored (record_poll (host_codec H) (now_at H s) slug
       (Some (provider_error_display (host_url H) err)) (ls_db s)) s)) (\<lambda>_ s.
     let s = (case err of
                ParseFailed reason qpath \<Rightarrow>
                  emit (Quarantined (case find_show L slug of Inr sc \<Rightarrow> sc_provider sc | Inl _ \<Rightarrow> []) qpath) s
              | _ \<Rightarrow> s)
     in (Inr (LibProvider err), emit (PollFinished slug False 0) s))"

text \<open>A failed listing ends the sync with the error that \<open>poll_failed\<close> hands back.\<close>

definition fail_poll :: "'u host \<Rightarrow> 'u library \<Rightarrow> show_slug \<Rightarrow> 'u provider_error \<Rightarrow> lib_state
    \<Rightarrow> ('u library_error + 'a) \<times> lib_state" where
  "fail_poll H L slug err s = andThen (poll_failed H L slug err s) (\<lambda>e s. (Inl e, s))"

text \<open>A full listing, once its show's metadata is there: the window and the number of new episodes.\<close>

definition record_listing :: "'u host \<Rightarrow> 'u library \<Rightarrow> 'u show_config \<Rightarrow> show_slug \<Rightarrow> episode_meta list
    \<Rightarrow> string option \<Rightarrow> 'u show_meta \<Rightarrow> lib_state \<Rightarrow> ('u library_error + episode_id list \<times> u32) \<times> lib_state" where
  "record_listing H L sc slug episodes etag meta s =
     andThen (lift_err LibStorage (stored (upsert_show meta (sc_provider sc) (ls_db s)) s)) (\<lambda>_ s.
     let s = cache_artwork H L sc meta slug s in
     andThen (lift_err LibStorage (stored (discover (host_codec H) (host_clock H (ls_tick s)) slug episodes (ls_db s)) s)) (\<lambda>new s.
     let s = fold (\<lambda>i. emit (EpisodeDiscovered slug i)) new s in
     andThen (lift_err LibStorage (stored (set_episodes_etag slug etag (ls_db s)) s)) (\<lambda>_ s.
     (Inr (map em_id episodes, of_nat (length new)), s))))"

definition take_listing :: "'u host \<Rightarrow> 'u library \<Rightarrow> 'u show_config \<Rightarrow> 'u provider \<Rightarrow> show_slug \<Rightarrow> u32 option
    \<Rightarrow> episode_listing \<Rightarrow> lib_state \<Rightarrow> ('u library_error + episode_id list \<times> u32) \<times> lib_state" where
  "take_listing H L sc pv slug limit listing s =
     (case listing of
        Modified episodes etag \<Rightarrow>
          (case pv_show pv (ls_tick s) slug of
             Inl err \<Rightarrow> fail_poll H L slug err (tick s)
           | Inr meta \<Rightarrow> record_listing H L sc slug episodes etag meta (tick s))
      | NotModified \<Rightarrow>
          andThen (map_err LibStorage (storage_episodes (host_codec H) slug (ls_db s)), tick s) (\<lambda>records s.
          (Inr (map r_id (case limit of None \<Rightarrow> records | Some n \<Rightarrow> take (unat n) records), 0), s)))"

definition listing_candidates :: "episode_record list \<Rightarrow> episode_id list \<Rightarrow> candidate list" where
  "listing_candidates records window =
     map (\<lambda>i. \<lparr>cand_id = i,
        cand_bytes = unwrap_or 0 (Option.bind (List.find (\<lambda>ep. r_id ep = i) records) r_bytes)\<rparr>) window"

definition awaits_download :: "episode_state \<Rightarrow> bool" where
  "awaits_download st \<longleftrightarrow>
     (case st of Discovered \<Rightarrow> True | Failed _ \<Rightarrow> True | Pruned \<Rightarrow> True | _ \<Rightarrow> False)"

text \<open>The records of the window that retention will keep and that have no file.\<close>

definition pending_downloads :: "retention \<Rightarrow> episode_record list \<Rightarrow> episode_id list \<Rightarrow> episode_record list" where
  "pending_downloads policy records window =
     (let want = set (fst (split policy (listing_candidates records window))) in
      filter (\<lambda>ep. awaits_download (r_state ep))
        (List.map_filter (\<lambda>i. if i \<in> want then List.find (\<lambda>ep. r_id ep = i) records else None) window))"

text \<open>
  The second half of a sync, once the window and the stored records are known: download what
  retention keeps, apply retention, record the poll.
\<close>

definition finish_sync :: "'u host \<Rightarrow> 'u library \<Rightarrow> 'u provider \<Rightarrow> show_slug \<Rightarrow> retention \<Rightarrow> episode_record list
    \<Rightarrow> episode_id list \<Rightarrow> u32 \<Rightarrow> lib_state \<Rightarrow> ('u library_error + sync_report) \<times> lib_state" where
  "finish_sync H L pv slug policy records window discovered s =
     (let pending = host_order H (ls_tick s) (pending_downloads policy records window) in
      case download_all H L pv slug pending 0 s of
        (downloaded_count, s) \<Rightarrow>
          andThen (apply_retention H slug policy s) (\<lambda>pruned s.
          andThen (lift_err LibStorage (stored (record_poll (host_codec H) (now_at H s) slug None (ls_db s)) s)) (\<lambda>_ s.
          (Inr \<lparr>sr_discovered = discovered, sr_downloaded = downloaded_count, sr_pruned = pruned\<rparr>,
           emit (PollFinished slug True discovered) s))))"

text \<open>From the provider's answer on.\<close>

definition poll_listing :: "'u host \<Rightarrow> 'u library \<Rightarrow> 'u show_config \<Rightarrow> 'u provider \<Rightarrow> show_slug \<Rightarrow> string option
    \<Rightarrow> lib_state \<Rightarrow> ('u library_error + sync_report) \<times> lib_state" where
  "poll_listing H L sc pv slug etag s =
     (let limit = show_fetch_last sc (cfg_fetch_last (lib_config L)) in
      case pv_episodes pv (ls_tick s) slug limit etag of
        Inl err \<Rightarrow> fail_poll H L slug err (tick s)
      | Inr listing \<Rightarrow>
          andThen (take_listing H L sc pv slug limit listing (tick s)) (\<lambda>(window, discovered) s.
          andThen (map_err LibStorage (storage_episodes (host_codec H) slug (ls_db s)), tick s) (\<lambda>records s.
          finish_sync H L pv slug (show_retention sc (cfg_retention (lib_config L))) records window discovered s)))"

definition sync :: "'u host \<Rightarrow> 'u library \<Rightarrow> show_slug \<Rightarrow> lib_state
    \<Rightarrow> ('u library_error + sync_report) \<times> lib_state" where
  "sync H L slug s =
     andThen (find_show L slug, s) (\<lambda>sc s.
     andThen (get_provider L (sc_provider sc), s) (\<lambda>pv s.
     let s = emit (PollStarted slug) s in
     andThen (map_err LibStorage (storage_show (host_codec H) slug (ls_db s)), tick s) (\<lambda>found s.
     andThen (lift_err LibStorage (stored (reset_stale_downloads (host_codec H) (now_at H s) slug
       stale_download_after (ls_db s)) s)) (\<lambda>healed s.
     poll_listing H L sc pv slug (Option.bind found rs_episodes_etag) s))))"

section \<open>Verification\<close>

definition check_file :: "'u host \<Rightarrow> fs \<Rightarrow> episode_record \<Rightarrow> file_problem option" where
  "check_file H F ep =
     (case r_file_path ep of
        None \<Rightarrow> Some Missing
      | Some p \<Rightarrow>
          (case fs_metadata_len F p of
             Inl IoNotFound \<Rightarrow> Some Missing
           | Inl (IoOther why) \<Rightarrow> Some (Unreadable why)
           | Inr len \<Rightarrow>
               (case filter_opt (\<lambda>expected. len \<noteq> expected) (r_bytes ep) of
                  Some expected \<Rightarrow> Some (SizeMismatch expected len)
                | None \<Rightarrow>
                    (case r_blake3 ep of
                       None \<Rightarrow> None
                     | Some expected \<Rightarrow>
                         (case blake3_of_file (host_hash H) F p of
                            Inr actual \<Rightarrow> if actual = expected then None else Some HashMismatch
                          | Inl e \<Rightarrow> Some (Unreadable (io_error_display e)))))))"

definition verify_episode :: "'u host \<Rightarrow> 'u library \<Rightarrow> 'u provider option \<Rightarrow> show_slug \<Rightarrow> episode_record
    \<Rightarrow> lib_state \<Rightarrow> verify_outcome option \<times> lib_state" where
  "verify_episode H L pv slug ep s =
     (case check_file H (ls_fs s) ep of
        None \<Rightarrow> (None, tick s)
      | Some problem \<Rightarrow>
          (case (case pv of
                   Some pv \<Rightarrow> download_episode H L pv slug ep (tick s)
                 | None \<Rightarrow> (False, tick s)) of
             (fixed, s) \<Rightarrow> (Some \<lparr>vo_id = r_id ep, vo_problem = problem, vo_fixed = fixed\<rparr>, s)))"

fun verify_all :: "'u host \<Rightarrow> 'u library \<Rightarrow> 'u provider option \<Rightarrow> show_slug \<Rightarrow> episode_record list
    \<Rightarrow> lib_state \<Rightarrow> verify_outcome list \<times> lib_state" where
  "verify_all H L pv slug [] s = ([], s)"
| "verify_all H L pv slug (ep # eps) s =
     (case verify_episode H L pv slug ep s of
        (out, s) \<Rightarrow>
          (case verify_all H L pv slug eps s of
             (outs, s) \<Rightarrow> ((case out of None \<Rightarrow> outs | Some x \<Rightarrow> x # outs), s)))"

definition verify :: "'u host \<Rightarrow> 'u library \<Rightarrow> show_slug \<Rightarrow> bool \<Rightarrow> lib_state
    \<Rightarrow> ('u library_error + verify_report) \<times> lib_state" where
  "verify H L slug fix_files s =
     andThen (if fix_files
              then map_res Some (bind_res (find_show L slug) (\<lambda>sc. get_provider L (sc_provider sc)))
              else Inr None, s) (\<lambda>pv s.
     andThen (map_err LibStorage (storage_episodes (host_codec H) slug (ls_db s)), tick s) (\<lambda>records s.
     let cached = filter (\<lambda>ep. r_state ep = Cached) records in
     (case verify_all H L pv slug (host_order H (ls_tick s) cached) s of
        (problems, s) \<Rightarrow>
          (Inr \<lparr>vr_checked = of_nat (length cached),
                vr_intact = of_nat (length cached) - of_nat (length problems), vr_problems = problems\<rparr>, s))))"

section \<open>Feeds\<close>

definition feed_item :: "'u url_ops \<Rightarrow> 'u \<Rightarrow> 'u show_config \<Rightarrow> show_slug \<Rightarrow> episode_record \<Rightarrow> 'u rss_item option" where
  "feed_item U base sc slug ep =
     Option.bind (Option.bind (r_file_path ep) path_file_name) (\<lambda>file.
     Option.bind (under U base [''media'', slug_str slug, file]) (\<lambda>url.
     Option.bind (r_bytes ep) (\<lambda>bytes.
     Some \<lparr>it_title = r_title ep, it_guid = sc_provider sc @ ''/'' @ slug_str slug @ ''/'' @ id_str (r_id ep),
           it_description = r_description ep, it_published_at = r_published_at ep,
           it_enclosure_url = url, it_enclosure_bytes = bytes,
           it_enclosure_mime = (case r_mime ep of None \<Rightarrow> ''application/octet-stream'' | Some m \<Rightarrow> mime_display m),
           it_duration_secs = r_duration_secs ep\<rparr>)))"

definition build_feed :: "'u url_ops \<Rightarrow> 'u \<Rightarrow> 'u show_config \<Rightarrow> show_slug \<Rightarrow> show_record \<Rightarrow> episode_record list
    \<Rightarrow> 'u rss_feed" where
  "build_feed U base sc slug rec episodes =
     (let title = unwrap_or (rs_title rec) (sc_title sc) in
      \<lparr>fd_title = title, fd_link = base, fd_description = unwrap_or title (rs_description rec),
       fd_artwork = Option.bind (Option.bind (rs_artwork_path rec) path_file_name)
         (\<lambda>name. under U base [''artwork'', name]),
       fd_items = List.map_filter (feed_item U base sc slug) (filter (\<lambda>ep. r_state ep = Cached) episodes)\<rparr>)"

text \<open>\<open>base\<close> is \<open>Config::external_base_url\<close>; the document is written with \<open>Feeds.rss_write\<close>.\<close>

definition write_feed :: "'u host \<Rightarrow> 'u library \<Rightarrow> 'u \<Rightarrow> show_slug \<Rightarrow> db \<Rightarrow> 'u library_error + 'u rss_feed" where
  "write_feed H L base slug d =
     bind_res (find_show L slug) (\<lambda>sc.
     bind_res (map_err LibStorage (storage_show (host_codec H) slug d)) (\<lambda>found.
     bind_res (ok_or (NotSynced slug) found) (\<lambda>rec.
     bind_res (map_err LibStorage (storage_episodes (host_codec H) slug d)) (\<lambda>episodes.
     Inr (build_feed (host_url H) base sc slug rec episodes)))))"

definition write_opml :: "'u host \<Rightarrow> 'u library \<Rightarrow> 'u \<Rightarrow> db \<Rightarrow> 'u library_error + 'u subscription list" where
  "write_opml H L base d =
     bind_res (map_err LibStorage (storage_shows (host_codec H) d)) (\<lambda>records.
     Inr (List.map_filter (\<lambda>rec.
       Option.bind (ok (find_show L (rs_slug rec))) (\<lambda>sc.
       Option.bind (under (host_url H) base [''feeds'', slug_str (rs_slug rec) @ ''.xml'']) (\<lambda>url.
       Some \<lparr>sub_title = unwrap_or (rs_title rec) (sc_title sc), sub_feed_url = url\<rparr>))) records))"

section \<open>Opening and reloading\<close>

text \<open>
  What opening takes from outside: \<open>ProviderRegistry::from_config\<close>, \<open>Storage::open\<close> (theory \<open>Migrate\<close>
  has its schema), and the HTTP client of \<open>Downloader::new\<close>.  \<open>data_dir\<close> is what \<open>Config::data_dir\<close>
  answers for the configuration at hand.  Theory \<open>Transfers\<close> has the permits of the downloader,
  which a reload shares unless the concurrency changed.
\<close>

record 'u backend =
  bk_registry :: "'u config \<Rightarrow> path \<Rightarrow> 'u provider_error + (string \<Rightarrow> 'u provider option)"
  bk_storage :: "path \<Rightarrow> storage_error + unit"
  bk_client :: "string + unit"

definition open_library :: "'u backend \<Rightarrow> path \<Rightarrow> 'u config \<Rightarrow> 'u library_error + 'u library" where
  "open_library build data_dir c =
     bind_res (map_err LibProvider (bk_registry build c data_dir)) (\<lambda>providers.
     bind_res (map_err LibStorage (bk_storage build data_dir)) (\<lambda>_.
     bind_res (map_err (LibDownload \<circ> DlClient) (bk_client build)) (\<lambda>_.
     Inr \<lparr>lib_config = c, lib_data_dir = data_dir, lib_providers = providers\<rparr>)))"

definition reload_library :: "'u backend \<Rightarrow> path \<Rightarrow> 'u library \<Rightarrow> 'u config \<Rightarrow> 'u library_error + 'u library" where
  "reload_library build data_dir L c =
     bind_res (map_err LibProvider (bk_registry build c data_dir)) (\<lambda>providers.
     bind_res (if cfg_download_concurrency c = cfg_download_concurrency (lib_config L) then Inr ()
               else map_err (LibDownload \<circ> DlClient) (bk_client build)) (\<lambda>_.
     Inr (L\<lparr>lib_config := c, lib_data_dir := data_dir, lib_providers := providers\<rparr>)))"

end
