(* ===== verification/Library_Steps.thy ===== *)
theory Library_Steps
  imports Library
begin

text \<open>
  Every method of the library changes its database only through operations of the storage
  layer: the database after a call is reached from the one before by a history of admissible
  operations, all of them on the call's own show.  The facts of \<open>Lifecycle\<close> about histories
  thereby hold of the whole program.
\<close>

section \<open>Reachable databases\<close>

definition reaches :: "codec \<Rightarrow> ('u storage_op \<Rightarrow> bool) \<Rightarrow> db \<Rightarrow> db \<Rightarrow> bool" where
  "reaches X Q d d' \<longleftrightarrow> (\<exists>ps. list_all (\<lambda>p. admissible p \<and> Q p) ps \<and> d' = run_ops X ps d)"

lemma reaches_refl [simp]: "reaches X Q d d"
  unfolding reaches_def by (intro exI [of _ "[]"]) (simp add: run_ops_def)

lemma reaches_trans: "reaches X Q a b \<Longrightarrow> reaches X Q b c \<Longrightarrow> reaches X Q a c"
  unfolding reaches_def
proof (elim exE conjE)
  fix ps qs
  assume "list_all (\<lambda>p. admissible p \<and> Q p) ps" "b = run_ops X ps a"
    "list_all (\<lambda>p. admissible p \<and> Q p) qs" "c = run_ops X qs b"
  then show "\<exists>rs. list_all (\<lambda>p. admissible p \<and> Q p) rs \<and> c = run_ops X rs a"
    by (intro exI [of _ "ps @ qs"]) (simp add: run_ops_append)
qed

lemma reaches_step: "admissible p \<Longrightarrow> Q p \<Longrightarrow> reaches X Q d (perform X p d)"
  unfolding reaches_def by (intro exI [of _ "[p]"]) (simp add: run_ops_def)

lemma reaches_mono: "reaches X Q d d' \<Longrightarrow> (\<And>p. Q p \<Longrightarrow> R p) \<Longrightarrow> reaches X R d d'"
  unfolding reaches_def by (auto simp: list_all_iff)

lemma reaches_inv: "reaches X Q d d' \<Longrightarrow> codec_ok X \<Longrightarrow> db_inv X d \<Longrightarrow> db_inv X d'"
  unfolding reaches_def using run_ops_inv by (auto simp: list_all_iff)

text \<open>The show an operation is about.\<close>

fun op_show :: "'u storage_op \<Rightarrow> show_slug" where
  "op_show (UpsertShow meta provider) = sm_slug meta"
| "op_show (RecordPoll t show err) = show"
| "op_show (SetArtworkPath show p) = show"
| "op_show (SetEpisodesEtag show etag) = show"
| "op_show (ResetStaleDownloads t show secs) = show"
| "op_show (Discover clk show ms) = show"
| "op_show (SetProgress t show i b n) = show"
| "op_show (MarkDownloading show i) = show"
| "op_show (MarkCached t show i f) = show"
| "op_show (MarkFailed show i c) = show"
| "op_show (MarkPruned show i) = show"

text \<open>Operations on one show that start downloads only of given episodes.\<close>

definition within :: "show_slug \<Rightarrow> episode_id set \<Rightarrow> 'u storage_op \<Rightarrow> bool" where
  "within slug ids p \<longleftrightarrow> op_show p = slug \<and> (\<forall>show i. downloads (show, i) p \<longrightarrow> i \<in> ids)"

lemma within_mono: "within slug ids p \<Longrightarrow> ids \<subseteq> ids' \<Longrightarrow> within slug ids' p"
  by (auto simp: within_def)

section \<open>Library state\<close>

lemma ls_db_simps [simp]:
  "ls_db (tick s) = ls_db s" "ls_db (emit e s) = ls_db s" "ls_fs (tick s) = ls_fs s" "ls_fs (emit e s) = ls_fs s"
  by (simp_all add: tick_def emit_def)

lemma ls_db_stored [simp]: "ls_db (snd (stored r s)) = after (ls_db s) r"
  by (cases r) (auto simp: stored_def)

lemma ls_fs_stored [simp]: "ls_fs (snd (stored r s)) = ls_fs s"
  by (cases r) (auto simp: stored_def)

lemma fst_stored: "fst (stored r s) = map_res fst r"
  by (cases r) (auto simp: stored_def)

lemma snd_lift_err [simp]: "snd (lift_err f rs) = snd rs"
  by (simp add: lift_err_def)

lemma ls_db_fold_emit [simp]: "ls_db (fold (\<lambda>x. emit (g x)) xs s) = ls_db s"
  by (induction xs arbitrary: s) simp_all

lemma reaches_andThen:
  assumes "reaches X Q (ls_db s0) (ls_db (snd rs))"
    "\<And>a s. rs = (Inr a, s) \<Longrightarrow> reaches X Q (ls_db s) (ls_db (snd (f a s)))"
  shows "reaches X Q (ls_db s0) (ls_db (snd (andThen rs f)))"
proof (cases rs)
  case (Pair r s)
  with assms show ?thesis by (cases r) (auto intro: reaches_trans)
qed

lemma reaches_stored:
  assumes "admissible p" "Q p" "perform X p (ls_db s) = after (ls_db s) r"
  shows "reaches X Q (ls_db s) (ls_db (snd (stored r s)))"
  using reaches_step [of p Q X "ls_db s"] assms by simp

section \<open>Downloads\<close>

definition provider_ok :: "'u provider \<Rightarrow> bool" where
  "provider_ok pv \<longleftrightarrow>
     (\<forall>t slug limit etag es tag. pv_episodes pv t slug limit etag = Inr (Modified es tag) \<longrightarrow>
        (\<forall>e \<in> set es. valid_id (em_id e))) \<and>
     (\<forall>t slug meta. pv_show pv t slug = Inr meta \<longrightarrow> sm_slug meta = slug) \<and>
     (\<forall>t slug i src m. pv_resolve_audio pv t slug i = Inr src \<longrightarrow> as_mime src = Some m \<longrightarrow> canonical_mime m)"

lemma provider_ok_ids:
  "provider_ok pv \<Longrightarrow> pv_episodes pv t slug limit etag = Inr (Modified es tag) \<Longrightarrow>
   \<forall>e \<in> set es. valid_id (em_id e)"
  unfolding provider_ok_def by blast

lemma mime_for_canonical: "mime_for U url = Some m \<Longrightarrow> canonical_mime m"
  by (auto simp: mime_for_def Let_def canonical_mime_def mime_from_def split: if_splits)

lemma difm_provider_ok: "provider_ok (difm_provider UP D)"
proof -
  have "canonical_mime m" if "fst (difm_resolve_audio UP D t slug i) = Inr src" "as_mime src = Some m" for t slug i src m
    using resolve_audio_cases [OF that(1)] that(2) mime_for_canonical by fastforce
  then show ?thesis
    unfolding provider_ok_def difm_provider_def
    using difm.ids_valid difm.same_show by simp blast
qed

lemma delivered_mime:
  assumes "attempt hash source dest shown tf F = (Inr got, F', calls)" "dl_mime got = Some m"
    "\<forall>m. as_mime source = Some m \<longrightarrow> canonical_mime m"
  shows "canonical_mime m"
proof -
  have "\<exists>v. dl_mime got = or_else (audio_content_type v) (as_mime source)"
    using assms(1)
    by (auto simp: attempt_def finish_def Let_def split: if_splits sum.splits prod.splits option.splits)
  then obtain v where v: "dl_mime got = or_else (audio_content_type v) (as_mime source)" ..
  show ?thesis
  proof (cases "audio_content_type v")
    case (Some m')
    then obtain w where "m' = mime_from w" by (auto simp: audio_content_type_def)
    with Some v assms(2) show ?thesis by simp
  qed (use v assms(2,3) in auto)
qed

lemma fetch_mime:
  assumes "fetch U hash net source dest F = (Inr got, F', calls, n)" "dl_mime got = Some m"
    "\<forall>m. as_mime source = Some m \<longrightarrow> canonical_mime m"
  shows "canonical_mime m"
proof -
  obtain calls' where "attempt hash source dest (redacted U (as_url source)) (net (n - 1)) F = (Inr got, F', calls')"
    using retry_outcome [OF assms(1) [unfolded fetch_def]] by auto
  from delivered_mime [OF this assms(2,3)] show ?thesis .
qed

lemma write_progress_reaches:
  "reaches (host_codec H) (within slug ids) (ls_db s) (ls_db (write_progress H slug i ws s))"
proof (induction H slug i ws s rule: write_progress.induct)
  case (2 H slug i ms b n ws s)
  have "reaches (host_codec H) (within slug ids) (ls_db s)
      (ls_db (snd (stored (set_progress (host_codec H) (now_at H s) slug i b n (ls_db s)) s)))"
    by (rule reaches_stored [where p = "SetProgress (now_at H s) slug i b n"]) (simp_all add: within_def)
  from reaches_trans [OF this 2] show ?case by simp
qed simp

lemma write_progress_fs [simp]: "ls_fs (write_progress H slug i ws s) = ls_fs s"
  by (induction H slug i ws s rule: write_progress.induct) simp_all

lemma record_cached_reaches:
  assumes "\<forall>m. dl_mime got = Some m \<longrightarrow> canonical_mime m"
  shows "reaches (host_codec H) (within slug ids) (ls_db s) (ls_db (snd (record_cached H slug ep dest got s)))"
  unfolding record_cached_def Let_def snd_lift_err
  by (rule reaches_stored [where p = "MarkCached (now_at H s) slug (r_id ep) _"])
    (use assms in \<open>auto simp: within_def split: option.split\<close>)

lemma transfer_file_reaches:
  "reaches (host_codec H) (within slug ids) (ls_db s) (ls_db (snd (transfer_file H slug ep source dest s)))"
proof -
  obtain result F calls n where f: "fetch (host_url H) (host_hash H) (host_net H (ls_tick s)) source dest (ls_fs s) =
      (result, F, calls, n)"
    using prod_cases4 by blast
  with write_progress_reaches [of H slug ids "tick (s\<lparr>ls_fs := F\<rparr>)"] show ?thesis
    by (simp add: transfer_file_def)
qed

lemma transfer_file_mime:
  assumes "fst (transfer_file H slug ep source dest s) = Inr got" "dl_mime got = Some m"
    "\<forall>m. as_mime source = Some m \<longrightarrow> canonical_mime m"
  shows "canonical_mime m"
proof -
  obtain result F calls n where f: "fetch (host_url H) (host_hash H) (host_net H (ls_tick s)) source dest (ls_fs s) =
      (result, F, calls, n)"
    using prod_cases4 by blast
  with assms(1) have "result = Inr got" by (simp add: transfer_file_def)
  from fetch_mime [OF f [unfolded this] assms(2,3)] show ?thesis .
qed

lemma fetch_and_record_reaches:
  assumes "\<forall>m. as_mime source = Some m \<longrightarrow> canonical_mime m"
  shows "reaches (host_codec H) (within slug ids) (ls_db s)
    (ls_db (snd (andThen (transfer_file H slug ep source dest s) (record_cached H slug ep dest))))"
proof (rule reaches_andThen [OF transfer_file_reaches])
  fix got s'
  assume "transfer_file H slug ep source dest s = (Inr got, s')"
  then have "\<forall>m. dl_mime got = Some m \<longrightarrow> canonical_mime m"
    using transfer_file_mime [of H slug ep source dest s got] assms by simp
  then show "reaches (host_codec H) (within slug ids) (ls_db s') (ls_db (snd (record_cached H slug ep dest got s')))"
    by (rule record_cached_reaches)
qed

lemma try_download_reaches:
  assumes "provider_ok pv" "r_id ep \<in> ids"
  shows "reaches (host_codec H) (within slug ids) (ls_db s) (ls_db (snd (try_download H L pv slug ep s)))"
  unfolding try_download_def Let_def
proof (rule reaches_andThen, unfold snd_lift_err)
  show "reaches (host_codec H) (within slug ids) (ls_db s) (ls_db (snd (stored (mark_downloading slug (r_id ep) (ls_db s)) s)))"
    by (rule reaches_stored [where p = "MarkDownloading slug (r_id ep)"]) (simp_all add: within_def assms(2))
next
  fix u s1
  show "reaches (host_codec H) (within slug ids) (ls_db s1)
      (ls_db (snd (andThen (map_err SyncProvider (pv_resolve_audio pv (ls_tick s1) slug (r_id ep)), tick s1) (\<lambda>source s.
        andThen (transfer_file H slug ep source (media_path (host_url H) L slug (r_id ep) source) s)
          (record_cached H slug ep (media_path (host_url H) L slug (r_id ep) source))))))"
    using assms(1) by (intro reaches_andThen fetch_and_record_reaches) (auto simp: provider_ok_def)
qed

text \<open>A step whose effect is one storage operation, whatever it returns.\<close>

lemma reaches_after:
  "admissible p \<Longrightarrow> Q p \<Longrightarrow> perform X p d = after d r \<Longrightarrow> reaches X Q d (after d r)"
  by (metis reaches_step)

lemma download_episode_reaches:
  assumes "provider_ok pv" "r_id ep \<in> ids"
  shows "reaches (host_codec H) (within slug ids) (ls_db s) (ls_db (snd (download_episode H L pv slug ep s)))"
proof -
  obtain r s1 where t: "try_download H L pv slug ep s = (r, s1)" by fastforce
  then have step: "reaches (host_codec H) (within slug ids) (ls_db s) (ls_db s1)"
    using try_download_reaches [OF assms, of H slug s L] by simp
  show ?thesis
  proof (cases r)
    case (Inl err)
    have "reaches (host_codec H) (within slug ids) (ls_db s1)
        (after (ls_db s1) (mark_failed slug (r_id ep) (sync_error_class err) (ls_db s1)))"
      by (rule reaches_after [where p = "MarkFailed slug (r_id ep) (sync_error_class err)"]) (simp_all add: within_def)
    from reaches_trans [OF step this] t Inl show ?thesis by (simp add: download_episode_def Let_def)
  qed (use t step in \<open>simp add: download_episode_def\<close>)
qed

lemma download_all_reaches:
  assumes "provider_ok pv" "r_id ` set eps \<subseteq> ids"
  shows "reaches (host_codec H) (within slug ids) (ls_db s) (ls_db (snd (download_all H L pv slug eps done s)))"
  using assms(2)
proof (induction eps arbitrary: "done" s)
  case (Cons ep eps)
  obtain success s1 where d: "download_episode H L pv slug ep s = (success, s1)" by fastforce
  with download_episode_reaches [OF assms(1), of ep ids H slug s L] Cons.prems
  have "reaches (host_codec H) (within slug ids) (ls_db s) (ls_db s1)" by simp
  from reaches_trans [OF this Cons.IH] Cons.prems d show ?case by simp
qed simp

section \<open>Retention\<close>

lemma prune_loop_reaches:
  "reaches X (within slug ids :: 'u storage_op \<Rightarrow> bool) (ls_db s) (ls_db (snd (prune_loop slug records doomed n b s)))"
proof (induction doomed arbitrary: n b s)
  case (Cons i doomed)
  let ?hit = "List.find (\<lambda>ep. r_id ep = i) records"
  obtain removed s1 where rm: "(case Option.bind ?hit r_file_path of None \<Rightarrow> (True, s)
      | Some p \<Rightarrow> (case fs_remove p (ls_fs s) of (Inr _, F) \<Rightarrow> (True, s\<lparr>ls_fs := F\<rparr>)
          | (Inl IoNotFound, F) \<Rightarrow> (True, s\<lparr>ls_fs := F\<rparr>)
          | (Inl (IoOther why), F) \<Rightarrow> (False, s\<lparr>ls_fs := F\<rparr>))) = (removed, s1)" by fastforce
  then have db: "ls_db s1 = ls_db s" by (auto split: option.splits prod.splits sum.splits io_error.splits)
  have "reaches X (within slug ids :: 'u storage_op \<Rightarrow> bool) (ls_db s1) (ls_db (snd (stored (mark_pruned slug i (ls_db s1)) s1)))"
    by (rule reaches_stored [where p = "MarkPruned slug i"]) (simp_all add: within_def)
  then have "reaches X (within slug ids :: 'u storage_op \<Rightarrow> bool) (ls_db s1) (ls_db (snd (andThen (stored (mark_pruned slug i (ls_db s1)) s1)
      (\<lambda>_ s. prune_loop slug records doomed (n + 1) (b + unwrap_or 0 (Option.bind ?hit r_bytes)) s))))"
    by (rule reaches_andThen) (rule Cons.IH)
  with Cons.IH [of s1 n b] rm db show ?case by (simp add: Let_def)
qed simp

lemma apply_retention_reaches:
  "reaches (host_codec H) (within slug ids) (ls_db s) (ls_db (snd (apply_retention H slug policy s)))"
  unfolding apply_retention_def
proof (intro reaches_andThen, unfold snd_lift_err)
  fix records s1
  show "reaches (host_codec H) (within slug ids) (ls_db s1)
      (ls_db (snd (prune_loop slug records (plan policy (cached_candidates records)) 0 0 s1)))"
    by (rule prune_loop_reaches)
qed (auto split: prod.split)

section \<open>Sync\<close>

lemma art_fetch_db [simp]: "ls_db (snd (art_fetch H dest src s)) = ls_db s"
  by (cases src) (auto simp: tick_def split: prod.splits option.splits sum.splits)

lemma cache_artwork_reaches:
  "reaches (host_codec H) (within slug ids) (ls_db s) (ls_db (cache_artwork H L sc meta slug s))"
proof -
  have set_art: "reaches (host_codec H) (within slug ids) d (after d (set_artwork_path slug p d))" for d p
    by (rule reaches_after [where p = "SetArtworkPath slug p"]) (simp_all add: within_def)
  show ?thesis
  proof (cases "storage_show (host_codec H) slug (ls_db s)")
    case (Inr found)
    show ?thesis
    proof (cases "pick_art_source sc meta")
      case (Some src)
      let ?dest = "art_dest H L slug src"
      obtain fetched s1 where f: "art_fetch H ?dest src (tick s) = (fetched, s1)" by fastforce
      have db: "ls_db s1 = ls_db s" using art_fetch_db [of H ?dest src "tick s"] f by simp
      obtain r s2 where w: "stored (set_artwork_path slug ?dest (ls_db s1)) s1 = (r, s2)" by fastforce
      then have "ls_db s2 = after (ls_db s) (set_artwork_path slug ?dest (ls_db s))"
        using ls_db_stored [of "set_artwork_path slug ?dest (ls_db s1)" s1] db by simp
      with set_art [of "ls_db s" ?dest] f w db Inr Some show ?thesis
        by (auto simp: cache_artwork_def Let_def split: bool.split sum.split option.split)
    qed (use Inr in \<open>simp add: cache_artwork_def\<close>)
  qed (simp add: cache_artwork_def)
qed

definition failed_poll_db :: "'u host \<Rightarrow> show_slug \<Rightarrow> 'u provider_error \<Rightarrow> lib_state \<Rightarrow> db" where
  "failed_poll_db H slug err s = after (ls_db s)
     (record_poll (host_codec H) (now_at H s) slug (Some (provider_error_display (host_url H) err)) (ls_db s))"

lemma fail_poll_db: "ls_db (snd (fail_poll H L slug err s)) = failed_poll_db H slug err s"
proof -
  let ?r = "record_poll (host_codec H) (now_at H s) slug (Some (provider_error_display (host_url H) err)) (ls_db s)"
  obtain r s1 where st: "stored ?r s = (r, s1)" by fastforce
  then have "ls_db s1 = failed_poll_db H slug err s"
    using ls_db_stored [of ?r s] by (simp add: failed_poll_db_def)
  with st show ?thesis
    by (cases r; cases err) (simp_all add: fail_poll_def poll_failed_def Let_def)
qed

lemma fail_poll_reaches:
  "reaches (host_codec H) (within slug ids :: 'u storage_op \<Rightarrow> bool) (ls_db s) (ls_db (snd (fail_poll H L slug err s)))"
  unfolding fail_poll_db failed_poll_db_def
  by (rule reaches_after [where p = "RecordPoll (now_at H s) slug (Some (provider_error_display (host_url H) err))"])
    (simp_all add: within_def)

lemma reaches_lift:
  assumes "admissible p" "Q p" "perform X p (ls_db s) = after (ls_db s) r"
  shows "reaches X Q (ls_db s) (ls_db (snd (lift_err g (stored r s))))"
  unfolding snd_lift_err by (rule reaches_stored [where p = p and Q = Q]) (rule assms)+

lemma record_listing_reaches:
  fixes meta :: "'u show_meta"
  assumes "valid_slug slug" "\<forall>e \<in> set es. valid_id (em_id e)" "sm_slug meta = slug"
  shows "reaches (host_codec H) (within slug ids :: 'u storage_op \<Rightarrow> bool) (ls_db s) (ls_db (snd (record_listing H L sc slug es etag meta s)))"
  unfolding record_listing_def Let_def
proof (intro reaches_andThen)
  show "reaches (host_codec H) (within slug ids :: 'u storage_op \<Rightarrow> bool) (ls_db s)
      (ls_db (snd (lift_err LibStorage (stored (upsert_show meta (sc_provider sc) (ls_db s)) s))))"
    by (rule reaches_lift [where p = "UpsertShow meta (sc_provider sc)"]) (simp_all add: within_def assms)
next
  fix u s1
  let ?s = "cache_artwork H L sc meta slug s1"
  have "reaches (host_codec H) (within slug ids :: 'u storage_op \<Rightarrow> bool) (ls_db ?s)
      (ls_db (snd (lift_err LibStorage (stored (discover (host_codec H) (host_clock H (ls_tick ?s)) slug es (ls_db ?s)) ?s))))"
    by (rule reaches_lift [where p = "Discover (host_clock H (ls_tick ?s)) slug es"])
      (use assms in \<open>simp_all add: within_def list_all_iff\<close>)
  from reaches_trans [OF cache_artwork_reaches this]
  show "reaches (host_codec H) (within slug ids :: 'u storage_op \<Rightarrow> bool) (ls_db s1)
      (ls_db (snd (lift_err LibStorage (stored (discover (host_codec H) (host_clock H (ls_tick ?s)) slug es (ls_db ?s)) ?s))))" .
next
  fix new s1
  let ?s = "fold (\<lambda>i. emit (EpisodeDiscovered slug i)) new s1"
  have "reaches (host_codec H) (within slug ids :: 'u storage_op \<Rightarrow> bool) (ls_db ?s)
      (ls_db (snd (lift_err LibStorage (stored (set_episodes_etag slug etag (ls_db ?s)) ?s))))"
    by (rule reaches_lift [where p = "SetEpisodesEtag slug etag"]) (simp_all add: within_def)
  then show "reaches (host_codec H) (within slug ids :: 'u storage_op \<Rightarrow> bool) (ls_db s1)
      (ls_db (snd (lift_err LibStorage (stored (set_episodes_etag slug etag (ls_db ?s)) ?s))))"
    by simp
qed simp_all

lemma take_listing_reaches:
  fixes pv :: "'u provider"
  assumes "provider_ok pv" "valid_slug slug" "\<forall>es tag. listing = Modified es tag \<longrightarrow> (\<forall>e \<in> set es. valid_id (em_id e))"
  shows "reaches (host_codec H) (within slug ids :: 'u storage_op \<Rightarrow> bool) (ls_db s) (ls_db (snd (take_listing H L sc pv slug limit listing s)))"
proof (cases listing)
  case (Modified es tag)
  show ?thesis
  proof (cases "pv_show pv (ls_tick s) slug")
    case (Inl err)
    with Modified fail_poll_reaches [of H slug ids "tick s" L err] show ?thesis
      by (simp add: take_listing_def)
  next
    case (Inr meta)
    with assms(1) have "sm_slug meta = slug" by (simp add: provider_ok_def)
    with record_listing_reaches [of slug es meta H ids "tick s" L sc tag] assms Modified Inr show ?thesis
      by (simp add: take_listing_def)
  qed
next
  case NotModified
  then show ?thesis by (auto simp: take_listing_def intro!: reaches_andThen)
qed

definition host_ok :: "'u host \<Rightarrow> bool" where
  "host_ok H \<longleftrightarrow> codec_ok (host_codec H) \<and> (\<forall>t eps. mset (host_order H t eps) = mset eps)"

definition library_ok :: "'u library \<Rightarrow> bool" where
  "library_ok L \<longleftrightarrow> (\<forall>n pv. lib_providers L n = Some pv \<longrightarrow> provider_ok pv)"

lemma host_order_set: "host_ok H \<Longrightarrow> set (host_order H t eps) = set eps"
  unfolding host_ok_def by (metis set_mset_mset)

lemma in_map_filter: "y \<in> set (List.map_filter f xs) \<longleftrightarrow> (\<exists>x \<in> set xs. f x = Some y)"
  by (induction xs) (auto simp: List.map_filter_simps split: option.splits)

lemma pending_ids:
  "r_id ` set (pending_downloads policy records window) \<subseteq> set (fst (split policy (listing_candidates records window)))"
  by (auto simp: pending_downloads_def Let_def in_map_filter split: if_splits dest!: find_Some_mem)

text \<open>The last stretch of a sync: downloads, retention and the record of the poll.\<close>

lemma finish_sync_reaches:
  assumes "host_ok H" "provider_ok pv"
    "set (fst (split policy (listing_candidates records window))) \<subseteq> ids"
  shows "reaches (host_codec H) (within slug ids :: 'u storage_op \<Rightarrow> bool) (ls_db s)
    (ls_db (snd (finish_sync H L pv slug policy records window discovered s)))"
proof -
  let ?pending = "host_order H (ls_tick s) (pending_downloads policy records window)"
  have "r_id ` set ?pending \<subseteq> ids"
    using pending_ids [of policy records window] assms(3) host_order_set [OF assms(1)] by auto
  note down = download_all_reaches [OF assms(2) this, of H slug s L 0]
  obtain n s1 where d: "download_all H L pv slug ?pending 0 s = (n, s1)" by fastforce
  have rest: "reaches (host_codec H) (within slug ids :: 'u storage_op \<Rightarrow> bool) (ls_db s1)
      (ls_db (snd (andThen (apply_retention H slug policy s1) (\<lambda>pruned s.
        andThen (lift_err LibStorage (stored (record_poll (host_codec H) (now_at H s) slug None (ls_db s)) s)) (\<lambda>_ s.
        (Inr \<lparr>sr_discovered = discovered, sr_downloaded = n, sr_pruned = pruned\<rparr>,
         emit (PollFinished slug True discovered) s))))))"
  proof (intro reaches_andThen apply_retention_reaches)
    fix s2 :: lib_state
    show "reaches (host_codec H) (within slug ids :: 'u storage_op \<Rightarrow> bool) (ls_db s2)
        (ls_db (snd (lift_err LibStorage (stored (record_poll (host_codec H) (now_at H s2) slug None (ls_db s2)) s2))))"
      by (rule reaches_lift [where p = "RecordPoll (now_at H s2) slug None"]) (simp_all add: within_def)
  qed simp
  from reaches_trans [OF down] rest d show ?thesis by (simp add: finish_sync_def Let_def)
qed

lemma poll_listing_reaches:
  assumes "host_ok H" "provider_ok pv" "valid_slug slug"
  shows "reaches (host_codec H) (within slug UNIV :: 'u storage_op \<Rightarrow> bool) (ls_db s)
    (ls_db (snd (poll_listing H L sc (pv :: 'u provider) slug etag s)))"
proof -
  let ?limit = "show_fetch_last sc (cfg_fetch_last (lib_config L))"
  show ?thesis
  proof (cases "pv_episodes pv (ls_tick s) slug ?limit etag")
    case (Inl err)
    with fail_poll_reaches [of H slug UNIV "tick s" L err] show ?thesis
      by (simp add: poll_listing_def Let_def)
  next
    case (Inr listing)
    have valid: "\<forall>es tag. listing = Modified es tag \<longrightarrow> (\<forall>e \<in> set es. valid_id (em_id e))"
      using provider_ok_ids [OF assms(2)] Inr by blast
    have "reaches (host_codec H) (within slug UNIV :: 'u storage_op \<Rightarrow> bool) (ls_db (tick s))
        (ls_db (snd (andThen (take_listing H L sc pv slug ?limit listing (tick s)) (\<lambda>(window, discovered) s.
          andThen (map_err LibStorage (storage_episodes (host_codec H) slug (ls_db s)), tick s) (\<lambda>records s.
          finish_sync H L pv slug (show_retention sc (cfg_retention (lib_config L))) records window discovered s)))))"
      using assms(1,2)
      by (intro reaches_andThen take_listing_reaches [OF assms(2,3) valid])
        (auto intro!: reaches_andThen finish_sync_reaches split: prod.split)
    with Inr show ?thesis by (simp add: poll_listing_def Let_def)
  qed
qed

lemma sync_reaches:
  assumes "host_ok H" "library_ok L" "valid_slug slug"
  shows "reaches (host_codec H) (within slug UNIV :: 'u storage_op \<Rightarrow> bool) (ls_db s)
    (ls_db (snd (sync H (L :: 'u library) slug s)))"
  unfolding sync_def Let_def
proof (intro reaches_andThen)
  fix sc :: "'u show_config" and pv s1 s2 s3 s4 and found :: "show_record option" and healed :: u32
  assume "(get_provider L (sc_provider sc), s1) = (Inr pv, s2)"
  then have "provider_ok pv" using assms(2) by (auto simp: get_provider_def library_ok_def)
  then show "reaches (host_codec H) (within slug UNIV :: 'u storage_op \<Rightarrow> bool) (ls_db s4)
      (ls_db (snd (poll_listing H L sc pv slug (Option.bind found rs_episodes_etag) s4)))"
    using assms by (intro poll_listing_reaches)
next
  fix s3 :: lib_state
  show "reaches (host_codec H) (within slug UNIV :: 'u storage_op \<Rightarrow> bool) (ls_db s3)
      (ls_db (snd (lift_err LibStorage (stored (reset_stale_downloads (host_codec H) (now_at H s3) slug
        stale_download_after (ls_db s3)) s3))))"
    by (rule reaches_lift [where p = "ResetStaleDownloads (now_at H s3) slug stale_download_after"])
      (simp_all add: within_def)
qed simp_all

section \<open>Other shows\<close>

lemma spec_transition_other:
  "s \<noteq> show \<Longrightarrow> (case spec_transition show i to g v of Inl e \<Rightarrow> v | Inr v' \<Rightarrow> v') s j = v s j"
  by (simp add: spec_transition_def split: option.split)

lemma discover_other:
  assumes "codec_ok X" "db_inv X d" "valid_slug show" "\<forall>m \<in> set ms. valid_id (em_id m)" "s \<noteq> show"
  shows "view X (after d (discover X clk show ms d)) s j = view X d s j"
proof (cases "list_ex (is_show show) (show_rows d)")
  case True
  from discover_refines [OF assms(1,3) True assms(2,4), of clk] assms(5) show ?thesis
    by (auto simp: spec_discover_other)
next
  case False
  then show ?thesis
    using discover_unregistered [OF assms(2) False, of ms clk] by (cases "ms = []") (auto simp: discover_def)
qed

lemma perform_other_view:
  assumes "codec_ok X" "db_inv X d" "admissible p" "op_show p \<noteq> s"
  shows "view X (perform X p d) s j = view X d s j"
proof (cases p)
  case (ResetStaleDownloads t sl secs)
  with assms(4) show ?thesis by (simp add: view_after [OF reset_stale_refines [OF assms(2)]])
next
  case (Discover clk sl ms)
  with assms show ?thesis by (simp add: discover_other list_all_iff)
next
  case (SetProgress t sl i b n)
  with assms(4) show ?thesis by (simp add: view_after [OF set_progress_refines [OF assms(2,1)]])
next
  case (MarkDownloading sl i)
  with assms(4) show ?thesis
    by (simp add: view_after [OF mark_downloading_refines [OF assms(2)]] spec_transition_other)
next
  case (MarkCached t sl i f)
  with assms have "\<forall>m. cf_mime f = Some m \<longrightarrow> canonical_mime m" by (auto split: option.splits)
  with MarkCached assms(4) show ?thesis
    by (simp add: view_after [OF mark_cached_refines [OF assms(2,1)]] spec_transition_other)
next
  case (MarkFailed sl i c)
  with assms(4) show ?thesis
    by (simp add: view_after [OF mark_failed_refines [OF assms(2)]] spec_transition_other)
next
  case (MarkPruned sl i)
  with assms(4) show ?thesis
    by (simp add: view_after [OF mark_pruned_refines [OF assms(2)]] spec_transition_other)
qed (simp_all add: upsert_show_def record_poll_def set_artwork_path_def set_episodes_etag_def)

lemma find_show_update:
  assumes "s \<noteq> show" "\<And>r. s_slug (f r) = s_slug r"
  shows "List.find (is_show s) (update_where (is_show show) f rows) = List.find (is_show s) rows"
  using assms by (induction rows) (auto simp: update_where_def is_show_def slug_str_inj)

lemma discover_loop_shows: "discover_loop X clk k show ms new d = Inr (ids, d') \<Longrightarrow> show_rows d' = show_rows d"
  by (induction X clk k "show" ms new d rule: discover_loop.induct) (auto split: if_splits)

lemma after_shows: "(\<And>a d'. r = Inr (a, d') \<Longrightarrow> show_rows d' = show_rows d) \<Longrightarrow> show_rows (after d r) = show_rows d"
  by (cases r) auto

lemma transition_shows: "show_rows (after d (transition show i to f d)) = show_rows d"
  by (rule after_shows) (auto simp: transition_def bind_res_Inr_iff split: option.splits if_splits)

lemma perform_other_show_row:
  assumes "op_show p \<noteq> s"
  shows "List.find (is_show s) (show_rows (perform X p d)) = List.find (is_show s) (show_rows d)"
proof (cases p)
  case (UpsertShow meta provider)
  with assms have "\<not> is_show s (new_show_row meta provider)"
    by (simp add: is_show_def new_show_row_def slug_str_inj)
  with UpsertShow assms show ?thesis
    by (auto simp: upsert_show_def find_append find_show_update split: option.split)
next
  case (Discover clk sl ms)
  have "show_rows (after d (discover X clk sl ms d)) = show_rows d"
    by (rule after_shows) (auto simp: discover_def dest: discover_loop_shows)
  with Discover show ?thesis by simp
qed (use assms in \<open>simp_all add: record_poll_def set_artwork_path_def set_episodes_etag_def find_show_update
    reset_stale_downloads_def Let_def set_progress_def mark_downloading_def mark_cached_def mark_failed_def
    mark_pruned_def transition_shows\<close>)

lemma run_ops_other:
  assumes "codec_ok X" "db_inv X d" "list_all (\<lambda>p. admissible p \<and> op_show p \<noteq> s) ps"
  shows "view X (run_ops X ps d) s j = view X d s j \<and>
    storage_show X s (run_ops X ps d) = storage_show X s d"
  using assms(2,3)
proof (induction ps arbitrary: d)
  case (Cons p ps)
  have "db_inv X (perform X p d)" using perform_inv [OF assms(1) Cons.prems(1), of p] Cons.prems by simp
  from Cons.IH [OF this] Cons.prems perform_other_view [OF assms(1) Cons.prems(1), of p s j]
    perform_other_show_row [of p s X d]
  show ?case by (simp add: run_ops_def storage_show_def)
qed (simp add: run_ops_def)

lemma reaches_other:
  assumes "reaches X (within slug ids :: 'u storage_op \<Rightarrow> bool) d d'" "codec_ok X" "db_inv X d" "s \<noteq> slug"
  shows "view X d' s j = view X d s j \<and> storage_show X s d' = storage_show X s d"
proof -
  obtain ps :: "'u storage_op list" where ps: "list_all (\<lambda>p. admissible p \<and> within slug ids p) ps"
    "d' = run_ops X ps d" using assms(1) by (auto simp: reaches_def)
  then have "list_all (\<lambda>p. admissible p \<and> op_show p \<noteq> s) ps"
    using assms(4) by (auto simp: list_all_iff within_def)
  from run_ops_other [OF assms(2,3) this] ps(2) show ?thesis by simp
qed

section \<open>A concrete library\<close>

definition demo_host :: "tuple_url host" where
  "demo_host =
     \<lparr>host_url = tuple_urls, host_codec = demo_codec, host_hash = id, host_clock = (\<lambda>t k. int t + int k),
      host_net = (\<lambda>t. demo_net), host_elapsed_ms = (\<lambda>t k. of_nat k * 600), host_probe = (\<lambda>c. None),
      host_copy_error = (\<lambda>t. None), host_order = (\<lambda>t eps. rev eps)\<rparr>"

abbreviation demo_follow :: "tuple_url show_config" where
  "demo_follow \<equiv>
     \<lparr>sc_provider = ''difm'', sc_slug = demo_slug, sc_title = None, sc_poll_interval = None,
      sc_fetch_last = None, sc_artwork = None,
      sc_retention = Some \<lparr>ret_keep_last = Some 2, ret_max_gb = None\<rparr>\<rparr>"

definition demo_library :: "tuple_url library" where
  "demo_library =
     \<lparr>lib_config = \<lparr>cfg_bind = default_bind, cfg_external_base_url = None, cfg_data_dir = Some ''/data'',
        cfg_poll_interval = default_poll_interval, cfg_download_concurrency = 2, cfg_fetch_last = None,
        cfg_control_socket = None, cfg_otlp = None,
        cfg_retention = \<lparr>ret_keep_last = None, ret_max_gb = None\<rparr>, cfg_auth_difm = None,
        cfg_shows = [demo_follow], cfg_source = None\<rparr>,
      lib_data_dir = ''/data'',
      lib_providers = (\<lambda>n. if n = ''difm'' then Some (difm_provider demo_upstream demo_difm) else None)\<rparr>"

definition demo_state :: lib_state where
  "demo_state = \<lparr>ls_db = demo_db, ls_fs = demo_fs, ls_events = [], ls_tick = 1\<rparr>"

lemma demo_host_ok: "host_ok demo_host"
  by (simp add: host_ok_def demo_host_def demo_codec_ok)

lemma demo_library_ok: "library_ok demo_library"
  by (simp add: library_ok_def demo_library_def difm_provider_ok)

lemma demo_slug_valid: "valid_slug demo_slug"
  by code_simp

lemma demo_state_inv: "db_inv (host_codec demo_host) (ls_db demo_state)"
  by (simp add: demo_host_def demo_state_def demo_db_inv)

section \<open>Properties\<close>

text \<open>
  C1: A sync is a history of storage operations on its own show.  Whatever the provider, the
  network and the disk answer, and whether it returns a report or an error, \<open>sync\<close> keeps the
  database invariant, keeps every stored episode, moves states only along allowed transitions
  and never back to \<open>Discovered\<close>, and leaves the records of every other show as they were.
\<close>

theorem sync_follows_lifecycle:
  fixes L :: "'u library"
  assumes "host_ok H" "library_ok L" "valid_slug slug" "db_inv (host_codec H) (ls_db s)"
  shows "db_inv (host_codec H) (ls_db (snd (sync H L slug s))) \<and>
    (\<forall>k a. recorded_state (host_codec H) k (ls_db s) = Some a \<longrightarrow>
       (\<exists>b. recorded_state (host_codec H) k (ls_db (snd (sync H L slug s))) = Some b \<and>
          can_transition_to\<^sup>*\<^sup>* a b \<and> (b = Discovered \<longrightarrow> a = Discovered))) \<and>
    (\<forall>show i. show \<noteq> slug \<longrightarrow>
       view (host_codec H) (ls_db (snd (sync H L slug s))) show i = view (host_codec H) (ls_db s) show i \<and>
       storage_show (host_codec H) show (ls_db (snd (sync H L slug s))) = storage_show (host_codec H) show (ls_db s))"
proof -
  let ?X = "host_codec H" and ?d = "ls_db s" and ?d' = "ls_db (snd (sync H L slug s))"
  have codec: "codec_ok ?X" using assms(1) by (simp add: host_ok_def)
  note step = sync_reaches [OF assms(1-3), of s]
  from step obtain ps :: "'u storage_op list" where ps: "list_all admissible ps" "?d' = run_ops ?X ps ?d"
    by (auto simp: reaches_def list_all_iff)
  have inv: "storage_inv (?X, ?d)" using codec assms(4) by (simp add: storage_inv_def)
  have "\<exists>b. recorded_state ?X k ?d' = Some b \<and> can_transition_to\<^sup>*\<^sup>* a b \<and> (b = Discovered \<longrightarrow> a = Discovered)"
    if "recorded_state ?X k ?d = Some a" for k a
    using store.history_legal [OF inv ps(1), of k a] store.history_not_rediscovered [OF inv ps(1), of k a] that
    by (auto simp: run_ops_history storage_look_def ps(2))
  with reaches_inv [OF step codec assms(4)] reaches_other [OF step codec assms(4)] show ?thesis by blast
qed

theorem sync_follows_lifecycle_witness:
  "db_inv (host_codec demo_host) (ls_db (snd (sync demo_host demo_library demo_slug demo_state)))"
  using sync_follows_lifecycle [OF demo_host_ok demo_library_ok demo_slug_valid demo_state_inv] by blast

end
