(* ===== verification/Library_Downloads.thy ===== *)
theory Library_Downloads
  imports Library_Steps
begin

text \<open>
  What a download achieves, stated on decoded records and files: it leaves a file that
  verification finds intact, or it changes no file at all.
\<close>

section \<open>Downloads\<close>

lemma ls_events_simps [simp]:
  "ls_events (tick s) = ls_events s" "ls_events (emit e s) = ls_events s @ [e]"
  "ls_events (snd (stored r s)) = ls_events s"
  by (simp_all add: tick_def emit_def) (cases r; auto simp: stored_def tick_def)

lemma write_progress_events [simp]: "ls_events (write_progress H slug i ws s) = ls_events s"
  by (induction H slug i ws s rule: write_progress.induct) simp_all

lemma no_progress_eqD:
  assumes "no_progress e' = no_progress e"
  shows "r_state e' = r_state e" "spec_cached now f e' = spec_cached now f e"
    "spec_failed c e' = spec_failed c e" "no_progress (spec_progress now b t e') = no_progress e"
  using assms by (cases e; cases e'; simp add: no_progress_def spec_cached_def spec_failed_def spec_progress_def)+

lemma set_at_twice [simp]: "set_at sl i x (set_at sl i y v) = set_at sl i x v"
  by (auto simp: set_at_def fun_eq_iff)

lemma set_at_same: "v sl i = x \<Longrightarrow> set_at sl i x v = v"
  by (auto simp: set_at_def fun_eq_iff)

text \<open>Progress reports change only the progress columns of their own record.\<close>

lemma write_progress_view:
  assumes "codec_ok (host_codec H)" "db_inv (host_codec H) (ls_db s)" "view (host_codec H) (ls_db s) slug i = Some e"
  shows "db_inv (host_codec H) (ls_db (write_progress H slug i ws s)) \<and>
    (\<exists>e'. no_progress e' = no_progress e \<and>
      view (host_codec H) (ls_db (write_progress H slug i ws s)) = set_at slug i (Some e') (view (host_codec H) (ls_db s)))"
  using assms
proof (induction H slug i ws s arbitrary: e rule: write_progress.induct)
  case (1 H slug i s)
  then show ?case by (auto simp: set_at_same)
next
  case (2 H slug i ms b n ws s)
  let ?r = "set_progress (host_codec H) (now_at H s) slug i b n (ls_db s)"
  let ?s = "snd (stored ?r s)"
  have view: "view (host_codec H) (ls_db ?s) =
      set_at slug i (Some (spec_progress (now_at H s) b n e)) (view (host_codec H) (ls_db s))"
    using view_after [OF set_progress_refines [OF 2(3,2)]] 2(4) by simp
  have "db_inv (host_codec H) (ls_db ?s)"
    using set_progress_inv [OF 2(2,3), of "now_at H s" slug i b n] 2(3) by (auto intro!: after_inv)
  from "2.IH" [OF 2(2) this] view no_progress_eqD(4) [of e e] show ?case by simp
qed

lemma transfer_outcome:
  assumes "transfer_file H slug ep source dest s = (res, s')"
  shows "ls_events s' = ls_events s \<and>
    (\<exists>ws s0. ls_db s0 = ls_db s \<and> ls_db s' = ls_db (write_progress H slug (r_id ep) ws s0)) \<and>
    (case res of
       Inl e \<Rightarrow> ls_fs s' = ls_fs s
     | Inr got \<Rightarrow> \<exists>k. let body = reply_body (host_net H (ls_tick s) k) in
         ls_fs s' = fs_write dest body (ls_fs s) \<and> dl_bytes got = of_nat (length body) \<and>
         dl_blake3 got = host_hash H body)"
proof -
  obtain result F calls n where f: "fetch (host_url H) (host_hash H) (host_net H (ls_tick s)) source dest (ls_fs s) =
      (result, F, calls, n)"
    using prod_cases4 by blast
  let ?ws = "progress_writes (host_elapsed_ms H (ls_tick s)) 0 (- 1) calls"
  from assms f have s': "s' = write_progress H slug (r_id ep) ?ws (tick (s\<lparr>ls_fs := F\<rparr>))"
    "res = map_err SyncDownload result"
    by (auto simp: transfer_file_def Let_def)
  have "\<exists>ws s0. ls_db s0 = ls_db s \<and> ls_db s' = ls_db (write_progress H slug (r_id ep) ws s0)"
    unfolding s' by (intro exI [of _ ?ws] exI [of _ "tick (s\<lparr>ls_fs := F\<rparr>)"]) simp
  moreover have "case res of Inl e \<Rightarrow> ls_fs s' = ls_fs s
     | Inr got \<Rightarrow> \<exists>k. let body = reply_body (host_net H (ls_tick s) k) in
         ls_fs s' = fs_write dest body (ls_fs s) \<and> dl_bytes got = of_nat (length body) \<and>
         dl_blake3 got = host_hash H body"
    using f fetch_delivered [of "host_url H"] fetch_failed [of "host_url H"] s'
    by (cases result) (fastforce simp: delivered_def Let_def)+
  ultimately show ?thesis by (simp add: s')
qed

text \<open>
  What \<open>try_download\<close> leaves behind.  On success the file is the body of a reply and the record
  is the one of a cached file with its hash and size; on failure no file has changed, and the
  record, if it was not being downloaded already, is left \<open>Downloading\<close>.
\<close>

definition file_cached :: "'u host \<Rightarrow> show_slug \<Rightarrow> episode_id \<Rightarrow> path \<Rightarrow> episode_record \<Rightarrow> lib_state \<Rightarrow> lib_state \<Rightarrow> bool" where
  "file_cached H slug i dest e s s' \<longleftrightarrow>
     (\<exists>t k now f.
        let body = reply_body (host_net H t k) in
        cf_file_path f = dest \<and> cf_bytes f = of_nat (length body) \<and> cf_blake3 f = host_hash H body \<and>
        view (host_codec H) (ls_db s') = set_at slug i (Some (spec_cached now f e)) (view (host_codec H) (ls_db s)) \<and>
        ls_fs s' = fs_write dest body (ls_fs s))"

definition stored_download :: "'u host \<Rightarrow> 'u library \<Rightarrow> show_slug \<Rightarrow> episode_id \<Rightarrow> lib_state \<Rightarrow> lib_state \<Rightarrow> bool" where
  "stored_download H L slug i s s' \<longleftrightarrow>
     (\<exists>e source. view (host_codec H) (ls_db s) slug i = Some e \<and>
        file_cached H slug i (media_path (host_url H) L slug i source) e s s')"

definition left_downloading :: "'u host \<Rightarrow> show_slug \<Rightarrow> episode_id \<Rightarrow> lib_state \<Rightarrow> lib_state \<Rightarrow> bool" where
  "left_downloading H slug i s s' \<longleftrightarrow>
     ls_fs s' = ls_fs s \<and>
     (case view (host_codec H) (ls_db s) slug i of
        None \<Rightarrow> view (host_codec H) (ls_db s') = view (host_codec H) (ls_db s)
      | Some e \<Rightarrow> \<exists>e'. r_state e' = Downloading \<and> spec_failed Network e' = spec_failed Network e \<and>
          view (host_codec H) (ls_db s') = set_at slug i (Some e') (view (host_codec H) (ls_db s)))"

lemma spec_cached_downloading [simp]: "spec_cached now f (spec_downloading e) = spec_cached now f e"
  by (simp add: spec_cached_def spec_downloading_def no_progress_def)

lemma file_cached_from:
  assumes "view (host_codec H) (ls_db s1) = set_at slug i (Some (spec_downloading e)) (view (host_codec H) (ls_db s))"
    "ls_fs s1 = ls_fs s" "file_cached H slug i dest (spec_downloading e) s1 s'"
  shows "file_cached H slug i dest e s s'"
  using assms by (auto simp: file_cached_def Let_def)

lemma spec_failed_downloading [simp]: "spec_failed c (spec_downloading e) = spec_failed c e"
  by (simp add: spec_failed_def spec_downloading_def no_progress_def)

lemma marked_downloading:
  assumes "db_inv X (ls_db s)" "stored (mark_downloading slug i (ls_db s)) s = (Inr u, s1)"
  shows "\<exists>e. view X (ls_db s) slug i = Some e \<and>
    view X (ls_db s1) = set_at slug i (Some (spec_downloading e)) (view X (ls_db s)) \<and>
    db_inv X (ls_db s1) \<and> ls_fs s1 = ls_fs s \<and> ls_events s1 = ls_events s"
proof -
  obtain d where d: "mark_downloading slug i (ls_db s) = Inr ((), d)" "s1 = tick (s\<lparr>ls_db := d\<rparr>)"
    using assms(2) by (auto simp: stored_def split: sum.splits)
  then have "Inr (view X d) = spec_transition slug i Downloading spec_downloading (view X (ls_db s))"
    using mark_downloading_refines [OF assms(1), of slug i] by simp
  with d mark_downloading_inv [OF assms(1) d(1)] show ?thesis
    by (auto simp: spec_transition_def split: option.splits if_splits)
qed

text \<open>Recording a finished transfer cannot fail: the record is still \<open>Downloading\<close>.\<close>

lemma recorded_cached:
  assumes "codec_ok (host_codec H)" "db_inv (host_codec H) (ls_db s)"
    "view (host_codec H) (ls_db s) slug (r_id ep) = Some e" "r_state e = Downloading"
    "\<forall>m. dl_mime got = Some m \<longrightarrow> canonical_mime m"
  shows "\<exists>f s'. record_cached H slug ep dest got s = (Inr (), s') \<and>
    cf_file_path f = dest \<and> cf_bytes f = dl_bytes got \<and> cf_blake3 f = dl_blake3 got \<and>
    view (host_codec H) (ls_db s') = set_at slug (r_id ep) (Some (spec_cached (now_at H s) f e)) (view (host_codec H) (ls_db s)) \<and>
    db_inv (host_codec H) (ls_db s') \<and> ls_fs s' = ls_fs s \<and> ls_events s' = ls_events s"
proof -
  obtain dur where rec: "record_cached H slug ep dest got s =
      lift_err SyncStorage (stored (mark_cached (host_codec H) (now_at H s) slug (r_id ep)
        \<lparr>cf_file_path = dest, cf_bytes = dl_bytes got, cf_blake3 = dl_blake3 got,
         cf_mime = dl_mime got, cf_duration_secs = dur\<rparr> (ls_db s)) s)"
    by (simp add: record_cached_def Let_def)
  let ?f = "\<lparr>cf_file_path = dest, cf_bytes = dl_bytes got, cf_blake3 = dl_blake3 got,
    cf_mime = dl_mime got, cf_duration_secs = dur\<rparr>"
  have ref: "map_res (\<lambda>(_, d'). view (host_codec H) d') (mark_cached (host_codec H) (now_at H s) slug (r_id ep) ?f (ls_db s)) =
      Inr (set_at slug (r_id ep) (Some (spec_cached (now_at H s) ?f e)) (view (host_codec H) (ls_db s)))"
    using mark_cached_refines [OF assms(2,1), of ?f "now_at H s" slug "r_id ep"] assms(3-5)
    by (simp add: spec_transition_def)
  then obtain d where d: "mark_cached (host_codec H) (now_at H s) slug (r_id ep) ?f (ls_db s) = Inr ((), d)"
    by (auto simp: map_res_Inr_iff)
  with ref have "view (host_codec H) d = set_at slug (r_id ep) (Some (spec_cached (now_at H s) ?f e)) (view (host_codec H) (ls_db s))"
    by simp
  moreover have "db_inv (host_codec H) d"
    by (rule mark_cached_inv [OF assms(1,2) d])
  ultimately show ?thesis
    by (intro exI [of _ ?f] exI [of _ "tick (s\<lparr>ls_db := d\<rparr>)"]) (simp add: rec d stored_def tick_def)
qed

lemma fetch_and_record_outcome:
  assumes "codec_ok (host_codec H)" "\<forall>m. as_mime source = Some m \<longrightarrow> canonical_mime m"
    "db_inv (host_codec H) (ls_db s)" "view (host_codec H) (ls_db s) slug (r_id ep) = Some e" "r_state e = Downloading"
    "andThen (transfer_file H slug ep source dest s) (record_cached H slug ep dest) = (r, s')"
  shows "ls_events s' = ls_events s \<and> db_inv (host_codec H) (ls_db s') \<and>
    (case r of
       Inr _ \<Rightarrow> file_cached H slug (r_id ep) dest e s s'
     | Inl _ \<Rightarrow> ls_fs s' = ls_fs s \<and> (\<exists>e'. no_progress e' = no_progress e \<and>
         view (host_codec H) (ls_db s') = set_at slug (r_id ep) (Some e') (view (host_codec H) (ls_db s))))"
proof -
  let ?X = "host_codec H" and ?i = "r_id ep"
  obtain r1 s1 where tr: "transfer_file H slug ep source dest s = (r1, s1)" by fastforce
  from transfer_outcome [OF tr] obtain ws s0 where out: "ls_events s1 = ls_events s" "ls_db s0 = ls_db s"
    "ls_db s1 = ls_db (write_progress H slug ?i ws s0)" by auto
  then obtain e1 where e1: "db_inv ?X (ls_db s1)" "no_progress e1 = no_progress e"
    "view ?X (ls_db s1) = set_at slug ?i (Some e1) (view ?X (ls_db s))"
    using write_progress_view [of H s0 slug ?i e ws] assms(1,3,4) by auto
  show ?thesis
  proof (cases r1)
    case (Inl err)
    with transfer_outcome [OF tr] assms(6) tr e1 show ?thesis by auto
  next
    case (Inr got)
    then obtain k where k: "ls_fs s1 = fs_write dest (reply_body (host_net H (ls_tick s) k)) (ls_fs s)"
      "dl_bytes got = of_nat (length (reply_body (host_net H (ls_tick s) k)))"
      "dl_blake3 got = host_hash H (reply_body (host_net H (ls_tick s) k))"
      using transfer_outcome [OF tr] by (auto simp: Let_def)
    have "\<forall>m. dl_mime got = Some m \<longrightarrow> canonical_mime m"
      using transfer_file_mime [of H slug ep source dest s got] tr Inr assms(2) by simp
    with recorded_cached [OF assms(1) e1(1), of slug ep e1 got dest] e1(3) no_progress_eqD(1) [OF e1(2)] assms(5)
    obtain f s2 where rc: "record_cached H slug ep dest got s1 = (Inr (), s2)"
      "cf_file_path f = dest" "cf_bytes f = dl_bytes got" "cf_blake3 f = dl_blake3 got"
      "view ?X (ls_db s2) = set_at slug ?i (Some (spec_cached (now_at H s1) f e1)) (view ?X (ls_db s1))"
      "db_inv ?X (ls_db s2)" "ls_fs s2 = ls_fs s1" "ls_events s2 = ls_events s1" by auto
    have "view ?X (ls_db s2) = set_at slug ?i (Some (spec_cached (now_at H s1) f e)) (view ?X (ls_db s))"
      using rc(5) e1(3) no_progress_eqD(2) [OF e1(2)] by simp
    with rc k have "file_cached H slug ?i dest e s s2"
      unfolding file_cached_def Let_def
      by (intro exI [of _ "ls_tick s"] exI [of _ k] exI [of _ "now_at H s1"] exI [of _ f]) simp
    with assms(6) tr Inr rc out show ?thesis by auto
  qed
qed

lemma try_download_outcome:
  assumes "codec_ok (host_codec H)" "provider_ok pv" "db_inv (host_codec H) (ls_db s)"
    "try_download H L pv slug ep s = (r, s')"
  shows "ls_events s' = ls_events s \<and> db_inv (host_codec H) (ls_db s') \<and>
    (case r of Inr _ \<Rightarrow> stored_download H L slug (r_id ep) s s' | Inl err \<Rightarrow> left_downloading H slug (r_id ep) s s')"
proof -
  let ?X = "host_codec H" and ?i = "r_id ep"
  obtain r1 s1 where st: "stored (mark_downloading slug ?i (ls_db s)) s = (r1, s1)" by fastforce
  show ?thesis
  proof (cases r1)
    case (Inl e)
    then obtain err where err: "mark_downloading slug ?i (ls_db s) = Inl err" "s1 = tick s"
      using st by (auto simp: stored_def split: sum.splits)
    then have "spec_transition slug ?i Downloading spec_downloading (view ?X (ls_db s)) = Inl err"
      using mark_downloading_refines [OF assms(3), of slug ?i] by simp
    then have "view ?X (ls_db s) slug ?i = None \<or>
        (\<exists>e. view ?X (ls_db s) slug ?i = Some e \<and> r_state e = Downloading)"
      by (auto simp: spec_transition_def into_Downloading_iff split: option.splits if_splits)
    with assms(3,4) st Inl err show ?thesis
      by (fastforce simp: try_download_def left_downloading_def set_at_same)
  next
    case (Inr u)
    note s1 = st [unfolded Inr]
    from marked_downloading [OF assms(3) s1] obtain e where e:
      "view ?X (ls_db s) slug ?i = Some e"
      "view ?X (ls_db s1) = set_at slug ?i (Some (spec_downloading e)) (view ?X (ls_db s))"
      "db_inv ?X (ls_db s1)" "ls_fs s1 = ls_fs s" "ls_events s1 = ls_events s" by blast
    show ?thesis
    proof (cases "pv_resolve_audio pv (ls_tick s1) slug ?i")
      case (Inl err)
      with assms(4) s1 e show ?thesis
        by (auto simp: try_download_def left_downloading_def intro!: exI [of _ "spec_downloading e"])
    next
      case (Inr source)
      let ?dest = "media_path (host_url H) L slug ?i source"
      have mime: "\<forall>m. as_mime source = Some m \<longrightarrow> canonical_mime m"
        using assms(2) Inr unfolding provider_ok_def by blast
      have rest: "andThen (transfer_file H slug ep source ?dest (tick s1)) (record_cached H slug ep ?dest) = (r, s')"
        using assms(4) s1 Inr by (simp add: try_download_def Let_def)
      have out: "ls_events s' = ls_events s \<and> db_inv ?X (ls_db s') \<and>
        (case r of
           Inr _ \<Rightarrow> file_cached H slug ?i ?dest (spec_downloading e) (tick s1) s'
         | Inl _ \<Rightarrow> ls_fs s' = ls_fs s \<and> (\<exists>e'. no_progress e' = no_progress (spec_downloading e) \<and>
             view ?X (ls_db s') = set_at slug ?i (Some e') (view ?X (ls_db s))))"
        using fetch_and_record_outcome [OF assms(1) mime _ _ _ rest, of "spec_downloading e"] e
        by (simp split: sum.splits)
      show ?thesis
      proof (cases r)
        case (Inr u)
        with out file_cached_from [of H "tick s1" slug ?i e s ?dest s'] e show ?thesis
          by (auto simp: stored_download_def)
      next
        case (Inl err)
        with out obtain e' where "no_progress e' = no_progress (spec_downloading e)"
          "view ?X (ls_db s') = set_at slug ?i (Some e') (view ?X (ls_db s))" "ls_fs s' = ls_fs s" by auto
        with no_progress_eqD [of e' "spec_downloading e"] out Inl e(1) show ?thesis
          by (auto simp: left_downloading_def)
      qed
    qed
  qed
qed

lemma spec_failed_any: "spec_failed Network e' = spec_failed Network e \<Longrightarrow> spec_failed c e' = spec_failed c e"
proof -
  assume "spec_failed Network e' = spec_failed Network e"
  moreover have "spec_failed c x = (spec_failed Network x)\<lparr>r_state := Failed c\<rparr>" for x
    by (simp add: spec_failed_def no_progress_def)
  ultimately show ?thesis by metis
qed

lemma marked_failed:
  assumes "db_inv (host_codec H) (ls_db s1)" "left_downloading H slug i s s1"
    "s' = snd (stored (mark_failed slug i c (ls_db s1)) s1)"
  shows "db_inv (host_codec H) (ls_db s') \<and> ls_fs s' = ls_fs s \<and>
    view (host_codec H) (ls_db s') =
      (case view (host_codec H) (ls_db s) slug i of
         None \<Rightarrow> view (host_codec H) (ls_db s)
       | Some e \<Rightarrow> set_at slug i (Some (spec_failed c e)) (view (host_codec H) (ls_db s)))"
proof -
  have ref: "view (host_codec H) (ls_db s') =
      (case spec_transition slug i (Failed c) (spec_failed c) (view (host_codec H) (ls_db s1)) of
         Inl e \<Rightarrow> view (host_codec H) (ls_db s1) | Inr v \<Rightarrow> v)"
    unfolding assms(3) ls_db_stored by (rule view_after [OF mark_failed_refines [OF assms(1)]])
  have "view (host_codec H) (ls_db s') =
      (case view (host_codec H) (ls_db s) slug i of
         None \<Rightarrow> view (host_codec H) (ls_db s)
       | Some e \<Rightarrow> set_at slug i (Some (spec_failed c e)) (view (host_codec H) (ls_db s)))"
  proof (cases "view (host_codec H) (ls_db s) slug i")
    case None
    with ref assms(2) show ?thesis by (simp add: left_downloading_def spec_transition_def)
  next
    case (Some e)
    with assms(2) obtain e' where e': "r_state e' = Downloading" "spec_failed Network e' = spec_failed Network e"
      "view (host_codec H) (ls_db s1) = set_at slug i (Some e') (view (host_codec H) (ls_db s))"
      by (auto simp: left_downloading_def)
    with ref Some spec_failed_any [OF e'(2)] show ?thesis
      by (simp add: spec_transition_def into_Failed_iff)
  qed
  moreover have "db_inv (host_codec H) (ls_db s')"
    using mark_failed_inv [OF assms(1), of slug i c] assms(1,3) by (auto intro!: after_inv)
  ultimately show ?thesis using assms(2,3) by (simp add: left_downloading_def)
qed

lemma download_episode_effect:
  assumes "host_ok H" "provider_ok pv" "db_inv (host_codec H) (ls_db s)"
    "download_episode H L pv slug ep s = (success, s')"
  shows "db_inv (host_codec H) (ls_db s') \<and>
    (if success
     then stored_download H L slug (r_id ep) s s' \<and>
       ls_events s' = ls_events s @ [DownloadFinished slug (r_id ep) None]
     else ls_fs s' = ls_fs s \<and>
       (\<exists>c. ls_events s' = ls_events s @ [DownloadFinished slug (r_id ep) (Some c)] \<and>
         view (host_codec H) (ls_db s') =
           (case view (host_codec H) (ls_db s) slug (r_id ep) of
              None \<Rightarrow> view (host_codec H) (ls_db s)
            | Some e \<Rightarrow> set_at slug (r_id ep) (Some (spec_failed c e)) (view (host_codec H) (ls_db s)))))"
proof -
  obtain r s1 where t: "try_download H L pv slug ep s = (r, s1)" by fastforce
  have out: "ls_events s1 = ls_events s \<and> db_inv (host_codec H) (ls_db s1) \<and>
    (case r of Inr _ \<Rightarrow> stored_download H L slug (r_id ep) s s1 | Inl err \<Rightarrow> left_downloading H slug (r_id ep) s s1)"
    using try_download_outcome [OF _ assms(2,3) t] assms(1) by (simp add: host_ok_def)
  show ?thesis
  proof (cases r)
    case (Inl err)
    with out marked_failed [of H s1 slug "r_id ep" s _ "sync_error_class err"] assms(4) t show ?thesis
      by (auto simp: download_episode_def Let_def)
  next
    case (Inr u)
    with assms(4) t have s': "success" "s' = emit (DownloadFinished slug (r_id ep) None) s1"
      by (auto simp: download_episode_def)
    with out Inr show ?thesis by (simp add: stored_download_def file_cached_def)
  qed
qed

text \<open>A disk that answers for every path, and replies short enough for a signed 64-bit size.\<close>

definition disk_quiet :: "fs \<Rightarrow> bool" where
  "disk_quiet F \<longleftrightarrow> (\<forall>p. fs_stat_error F p = None \<and> fs_read_error F p = None)"

definition replies_bounded :: "'u host \<Rightarrow> bool" where
  "replies_bounded H \<longleftrightarrow> (\<forall>t k. length (reply_body (host_net H t k)) < 2 ^ 63)"

lemma stored_u64_small: "n < 2 ^ 63 \<Longrightarrow> stored_u64 (of_nat n) = of_nat n"
  by (simp add: stored_u64_def min_def word_le_nat_alt unat_of_nat)

lemma check_written:
  assumes "disk_quiet F" "length body < 2 ^ 63"
    "r_file_path r = Some p" "r_bytes r = Some (stored_u64 (of_nat (length body)))" "r_blake3 r = Some (host_hash H body)"
  shows "check_file H (fs_write p body F) r = None"
  using assms
  by (simp add: check_file_def fs_metadata_len_def disk_quiet_def fs_write_def stored_u64_small
      blake3_of_file_def fs_read_def)

lemma file_cached_intact:
  assumes "file_cached H slug i dest e s s'" "disk_quiet (ls_fs s)" "replies_bounded H"
  shows "\<exists>r. view (host_codec H) (ls_db s') slug i = Some r \<and> r_state r = Cached \<and>
    r_file_path r = Some dest \<and> check_file H (ls_fs s') r = None"
proof -
  obtain t k now f where f: "cf_file_path f = dest" "cf_bytes f = of_nat (length (reply_body (host_net H t k)))"
    "cf_blake3 f = host_hash H (reply_body (host_net H t k))"
    "view (host_codec H) (ls_db s') = set_at slug i (Some (spec_cached now f e)) (view (host_codec H) (ls_db s))"
    "ls_fs s' = fs_write dest (reply_body (host_net H t k)) (ls_fs s)"
    using assms(1) by (auto simp: file_cached_def Let_def)
  have "check_file H (ls_fs s') (spec_cached now f e) = None"
    unfolding f(5)
    by (rule check_written [OF assms(2)])
      (use assms(3) f in \<open>simp_all add: replies_bounded_def spec_cached_def no_progress_def\<close>)
  with f show ?thesis by (simp add: spec_cached_def no_progress_def)
qed

section \<open>Properties\<close>

text \<open>
  C8: A download leaves a file that verification accepts, or no trace among the files.  When
  \<open>download_episode\<close> reports success the episode is \<open>Cached\<close> at a path in the show's media
  directory, \<open>check_file\<close> finds that file intact (size and hash are those of the bytes
  received) and no other file and no other record changed; when it reports failure no file
  has changed, a stored episode is \<open>Failed\<close> with the class of the error, and exactly one
  event announces the outcome.
\<close>

theorem download_intact_or_untouched:
  assumes "host_ok H" "provider_ok pv" "db_inv (host_codec H) (ls_db s)" "disk_quiet (ls_fs s)" "replies_bounded H"
  shows "case download_episode H L pv slug ep s of
     (True, s') \<Rightarrow> \<exists>source r. let dest = media_path (host_url H) L slug (r_id ep) source in
       view (host_codec H) (ls_db s') = set_at slug (r_id ep) (Some r) (view (host_codec H) (ls_db s)) \<and>
       r_state r = Cached \<and> r_file_path r = Some dest \<and> check_file H (ls_fs s') r = None \<and>
       (\<forall>p. p = dest \<or> fs_files (ls_fs s') p = fs_files (ls_fs s) p) \<and>
       ls_events s' = ls_events s @ [DownloadFinished slug (r_id ep) None]
   | (False, s') \<Rightarrow> ls_fs s' = ls_fs s \<and>
       (\<exists>c. ls_events s' = ls_events s @ [DownloadFinished slug (r_id ep) (Some c)] \<and>
         view (host_codec H) (ls_db s') =
           (case view (host_codec H) (ls_db s) slug (r_id ep) of
              None \<Rightarrow> view (host_codec H) (ls_db s)
            | Some e \<Rightarrow> set_at slug (r_id ep) (Some (spec_failed c e)) (view (host_codec H) (ls_db s))))"
proof -
  obtain success s' where run: "download_episode H L pv slug ep s = (success, s')" by fastforce
  note effect = download_episode_effect [OF assms(1-3) run]
  show ?thesis
  proof (cases success)
    case True
    with effect obtain e source where src:
      "file_cached H slug (r_id ep) (media_path (host_url H) L slug (r_id ep) source) e s s'"
      "ls_events s' = ls_events s @ [DownloadFinished slug (r_id ep) None]"
      by (auto simp: stored_download_def)
    from file_cached_intact [OF src(1) assms(4,5)] src(1)
    obtain r where "view (host_codec H) (ls_db s') slug (r_id ep) = Some r" "r_state r = Cached"
      "r_file_path r = Some (media_path (host_url H) L slug (r_id ep) source)" "check_file H (ls_fs s') r = None"
      by blast
    moreover have "\<forall>p. p = media_path (host_url H) L slug (r_id ep) source \<or> fs_files (ls_fs s') p = fs_files (ls_fs s) p"
      using src(1) by (auto simp: file_cached_def Let_def fs_write_def split: if_splits)
    moreover have "\<exists>r. view (host_codec H) (ls_db s') = set_at slug (r_id ep) (Some r) (view (host_codec H) (ls_db s))"
      using src(1) by (auto simp: file_cached_def Let_def)
    ultimately have "\<exists>source r. let dest = media_path (host_url H) L slug (r_id ep) source in
       view (host_codec H) (ls_db s') = set_at slug (r_id ep) (Some r) (view (host_codec H) (ls_db s)) \<and>
       r_state r = Cached \<and> r_file_path r = Some dest \<and> check_file H (ls_fs s') r = None \<and>
       (\<forall>p. p = dest \<or> fs_files (ls_fs s') p = fs_files (ls_fs s) p)"
      unfolding Let_def by (intro exI [of _ source] exI [of _ r]) auto
    with run True src(2) show ?thesis by (simp add: Let_def)
  qed (use effect run in simp)
qed

theorem download_intact_or_untouched_witness:
  "case download_episode demo_host demo_library (difm_provider demo_upstream demo_difm) demo_slug
       (spec_new 0 demo_slug (demo_meta ''161'')) demo_state of
     (True, s') \<Rightarrow> \<exists>r. view demo_codec (ls_db s') demo_slug (EpisodeId ''161'') = Some r \<and>
       r_state r = Cached \<and> check_file demo_host (ls_fs s') r = None
   | (False, s') \<Rightarrow> ls_fs s' = ls_fs demo_state"
proof -
  have "length (reply_body (demo_net k)) < 2 ^ 63" for k by (simp add: demo_net_def reply_body_def)
  then have "replies_bounded demo_host" by (simp add: replies_bounded_def demo_host_def)
  moreover have "disk_quiet (ls_fs demo_state)" by (simp add: disk_quiet_def demo_state_def demo_fs_def)
  moreover have "host_codec demo_host = demo_codec" by (simp add: demo_host_def)
  moreover have "r_id (spec_new 0 demo_slug (demo_meta ''161'')) = EpisodeId ''161''" by (simp add: spec_new_def)
  ultimately show ?thesis
    using download_intact_or_untouched [OF demo_host_ok difm_provider_ok [of demo_upstream demo_difm] demo_state_inv,
        of demo_library demo_slug "spec_new 0 demo_slug (demo_meta ''161'')"]
    by (auto simp: Let_def split: prod.splits bool.splits)
qed

end
