(* ===== verification/Library_Retention.thy ===== *)
theory Library_Retention
  imports Library_Downloads
begin

text \<open>
  What \<open>apply_retention\<close> achieves: the planner's decision carried out on records and files,
  and a show within its limits.  A listing is determined by the records it lists.
\<close>

section \<open>Retention\<close>

text \<open>A file that is not there counts as removed; any other error leaves the episode alone.\<close>

definition removable :: "fs \<Rightarrow> episode_record \<Rightarrow> bool" where
  "removable F e \<longleftrightarrow>
     (case r_file_path e of None \<Rightarrow> True | Some p \<Rightarrow> fs_remove_error F p \<in> {None, Some IoNotFound})"

definition prune_view :: "show_slug \<Rightarrow> fs \<Rightarrow> episode_id set \<Rightarrow> store_view \<Rightarrow> store_view" where
  "prune_view slug F ids v =
     (\<lambda>s j. if s = slug \<and> j \<in> ids then map_option (\<lambda>e. if removable F e then spec_pruned e else e) (v s j) else v s j)"

definition paths_of :: "store_view \<Rightarrow> show_slug \<Rightarrow> episode_id set \<Rightarrow> path set" where
  "paths_of v slug ids = {p. \<exists>i \<in> ids. \<exists>e. v slug i = Some e \<and> r_file_path e = Some p}"

definition remove_files :: "path set \<Rightarrow> fs \<Rightarrow> fs" where
  "remove_files ps F = F\<lparr>fs_files := (\<lambda>p. if p \<in> ps \<and> fs_remove_error F p = None then None else fs_files F p)\<rparr>"

lemma remove_files_errors [simp]:
  "fs_remove_error (remove_files ps F) = fs_remove_error F"
  by (simp add: remove_files_def)

lemma remove_files_empty [simp]: "remove_files {} F = F"
  by (simp add: remove_files_def)

lemma remove_files_Un: "remove_files ps (remove_files qs F) = remove_files (ps \<union> qs) F"
  by (auto simp: remove_files_def fun_eq_iff)

lemma removable_remove_files [simp]: "removable (remove_files ps F) = removable F"
  by (simp add: removable_def fun_eq_iff split: option.split)

lemma prune_view_remove_files [simp]: "prune_view slug (remove_files ps F) = prune_view slug F"
  by (intro ext) (simp add: prune_view_def)

lemma fs_remove_eq:
  "snd (fs_remove p F) = remove_files {p} F"
  "fst (fs_remove p F) = (case fs_remove_error F p of
     Some e \<Rightarrow> Inl e | None \<Rightarrow> if fs_files F p = None then Inl IoNotFound else Inr ())"
  by (auto simp: fs_remove_def remove_files_def fun_eq_iff split: option.splits)

text \<open>The file half of one iteration of \<open>prune_loop\<close>.\<close>

lemma remove_record_file:
  "(case r_file_path e of None \<Rightarrow> (True, s)
    | Some p \<Rightarrow> (case fs_remove p (ls_fs s) of (Inr _, F) \<Rightarrow> (True, s\<lparr>ls_fs := F\<rparr>)
        | (Inl IoNotFound, F) \<Rightarrow> (True, s\<lparr>ls_fs := F\<rparr>)
        | (Inl (IoOther why), F) \<Rightarrow> (False, s\<lparr>ls_fs := F\<rparr>))) =
   (removable (ls_fs s) e, s\<lparr>ls_fs := remove_files (set_option (r_file_path e)) (ls_fs s)\<rparr>)"
proof (cases "r_file_path e")
  case (Some p)
  obtain r F where rm: "fs_remove p (ls_fs s) = (r, F)" by fastforce
  with fs_remove_eq [of p "ls_fs s"] Some show ?thesis
    by (auto simp: removable_def split: option.splits if_splits io_error.splits)
qed (simp add: removable_def)

lemma marked_pruned:
  assumes "db_inv X (ls_db s)" "view X (ls_db s) slug i = Some e" "r_state e = Cached"
  shows "\<exists>s'. stored (mark_pruned slug i (ls_db s)) s = (Inr (), s') \<and> db_inv X (ls_db s') \<and>
    view X (ls_db s') = set_at slug i (Some (spec_pruned e)) (view X (ls_db s)) \<and>
    ls_fs s' = ls_fs s \<and> ls_events s' = ls_events s"
proof -
  have ref: "map_res (\<lambda>(_, d'). view X d') (mark_pruned slug i (ls_db s)) =
      Inr (set_at slug i (Some (spec_pruned e)) (view X (ls_db s)))"
    using mark_pruned_refines [OF assms(1), of slug i] assms(2,3)
    by (simp add: spec_transition_def)
  then obtain d where d: "mark_pruned slug i (ls_db s) = Inr ((), d)" by (auto simp: map_res_Inr_iff)
  with ref mark_pruned_inv [OF assms(1) d] show ?thesis
    by (intro exI [of _ "tick (s\<lparr>ls_db := d\<rparr>)"]) (simp add: stored_def tick_def)
qed

lemma prune_view_step:
  assumes "v slug i = Some e" "i \<notin> ids"
  shows "prune_view slug F ids (set_at slug i (Some (if removable F e then spec_pruned e else e)) v) =
    prune_view slug F (insert i ids) v"
  using assms by (auto simp: prune_view_def set_at_def fun_eq_iff)

lemma paths_of_insert:
  "v slug i = Some e \<Longrightarrow> i \<notin> ids \<Longrightarrow>
   paths_of (set_at slug i x v) slug ids \<union> set_option (r_file_path e) = paths_of v slug (insert i ids)"
  by (auto simp: paths_of_def set_at_def)

lemma prune_step:
  assumes "db_inv X (ls_db s)" "view X (ls_db s) slug i = Some e" "r_state e = Cached"
    "List.find (\<lambda>ep. r_id ep = i) records = Some e"
  shows "\<exists>b2 s2. (\<forall>ids. prune_loop slug records (i # ids) n b s =
      prune_loop slug records ids (n + of_bool (removable (ls_fs s) e)) b2 s2) \<and>
    db_inv X (ls_db s2) \<and> ls_events s2 = ls_events s \<and>
    view X (ls_db s2) = set_at slug i (Some (if removable (ls_fs s) e then spec_pruned e else e)) (view X (ls_db s)) \<and>
    ls_fs s2 = remove_files (set_option (r_file_path e)) (ls_fs s)"
proof -
  let ?s1 = "s\<lparr>ls_fs := remove_files (set_option (r_file_path e)) (ls_fs s)\<rparr>"
  show ?thesis
  proof (cases "removable (ls_fs s) e")
    case True
    obtain s2 where "stored (mark_pruned slug i (ls_db ?s1)) ?s1 = (Inr (), s2)" "db_inv X (ls_db s2)"
      "view X (ls_db s2) = set_at slug i (Some (spec_pruned e)) (view X (ls_db s))"
      "ls_fs s2 = ls_fs ?s1" "ls_events s2 = ls_events s"
      using marked_pruned [of X ?s1 slug i e] assms by auto
    with True assms show ?thesis
      by (intro exI [of _ "b + unwrap_or 0 (r_bytes e)"] exI [of _ s2]) (simp add: remove_record_file Let_def)
  next
    case False
    with assms show ?thesis
      by (intro exI [of _ b] exI [of _ ?s1]) (simp add: remove_record_file Let_def set_at_same)
  qed
qed

text \<open>The loop prunes the removable ones of its list and deletes their files.\<close>

lemma prune_loop_effect:
  assumes "db_inv X (ls_db s)" "distinct doomed"
    "\<forall>i \<in> set doomed. \<exists>e. view X (ls_db s) slug i = Some e \<and> r_state e = Cached \<and>
       List.find (\<lambda>ep. r_id ep = i) records = Some e"
  shows "\<exists>b' s'. prune_loop slug records doomed n b s =
      (Inr (n + of_nat (length (filter (\<lambda>i. \<exists>e. view X (ls_db s) slug i = Some e \<and> removable (ls_fs s) e) doomed)), b'), s') \<and>
    db_inv X (ls_db s') \<and> ls_events s' = ls_events s \<and>
    view X (ls_db s') = prune_view slug (ls_fs s) (set doomed) (view X (ls_db s)) \<and>
    ls_fs s' = remove_files (paths_of (view X (ls_db s)) slug (set doomed)) (ls_fs s)"
  using assms
proof (induction doomed arbitrary: n b s)
  case Nil
  then show ?case by (simp add: prune_view_def paths_of_def fun_eq_iff)
next
  case (Cons i doomed)
  let ?v = "view X (ls_db s)" and ?F = "ls_fs s"
  obtain e where e: "?v slug i = Some e" "r_state e = Cached" "List.find (\<lambda>ep. r_id ep = i) records = Some e"
    using Cons.prems(3) by auto
  let ?v2 = "set_at slug i (Some (if removable ?F e then spec_pruned e else e)) ?v"
  obtain b2 s2 where s2: "\<forall>ids. prune_loop slug records (i # ids) n b s =
      prune_loop slug records ids (n + of_bool (removable ?F e)) b2 s2"
    "db_inv X (ls_db s2)" "ls_events s2 = ls_events s" "view X (ls_db s2) = ?v2"
    "ls_fs s2 = remove_files (set_option (r_file_path e)) ?F"
    using prune_step [OF Cons.prems(1) e, of n b] by blast
  have other: "?v2 slug j = ?v slug j" if "j \<in> set doomed" for j
    using that Cons.prems(2) by (auto simp: set_at_def)
  have "\<forall>j \<in> set doomed. \<exists>e. view X (ls_db s2) slug j = Some e \<and> r_state e = Cached \<and>
      List.find (\<lambda>ep. r_id ep = j) records = Some e"
    using Cons.prems(3) other s2(4) by auto
  from Cons.IH [OF s2(2) _ this, of "n + of_bool (removable ?F e)" b2] Cons.prems(2)
  obtain b' s' where rest: "prune_loop slug records doomed (n + of_bool (removable ?F e)) b2 s2 =
      (Inr (n + of_bool (removable ?F e) +
        of_nat (length (filter (\<lambda>i. \<exists>e. ?v2 slug i = Some e \<and> removable ?F e) doomed)), b'), s')"
    "db_inv X (ls_db s')" "ls_events s' = ls_events s2"
    "view X (ls_db s') = prune_view slug ?F (set doomed) ?v2"
    "ls_fs s' = remove_files (paths_of ?v2 slug (set doomed)) (ls_fs s2)"
    by (auto simp: s2(4,5))
  have "filter (\<lambda>i. \<exists>e. ?v2 slug i = Some e \<and> removable ?F e) doomed =
      filter (\<lambda>i. \<exists>e. ?v slug i = Some e \<and> removable ?F e) doomed"
    using other by (intro filter_cong) auto
  with rest s2 e prune_view_step [of ?v slug i e "set doomed" ?F]
    paths_of_insert [of ?v slug i e "set doomed"] Cons.prems(2)
  show ?case
    by (intro exI [of _ b'] exI [of _ s']) (simp add: remove_files_Un)
qed

text \<open>A listing and the view agree: the record of an id is the one listed under it.\<close>

lemma view_key:
  assumes "view X d slug i = Some e"
  shows "r_id e = i \<and> r_show e = slug"
proof -
  obtain r where r: "List.find (is_episode slug i) (episode_rows d) = Some r" "decode_episode X r = Inr e"
    using assms by (auto simp: view_def bind_eq_Some_conv)
  from find_Some_mem [OF r(1)] decode_episode_key [OF r(2)] show ?thesis
    by (auto simp: is_episode_def row_key_def slug_str_inj id_str_inj)
qed

lemma find_distinct: "distinct (map f xs) \<Longrightarrow> x \<in> set xs \<Longrightarrow> List.find (\<lambda>y. f y = f x) xs = Some x"
  by (induction xs) (auto simp: image_iff)

lemma listed_iff_view:
  assumes "db_inv X d" "storage_episodes X slug d = Inr es"
  shows "e \<in> set es \<longleftrightarrow> view X d slug (r_id e) = Some e"
  using listed_set [OF assms] view_key [of X d slug _ e] by auto

lemma find_listed:
  assumes "db_inv X d" "storage_episodes X slug d = Inr es" "view X d slug i = Some e"
  shows "List.find (\<lambda>ep. r_id ep = i) es = Some e"
  using find_distinct [OF listed_distinct [OF assms(1,2)], of e] listed_iff_view [OF assms(1,2)]
    view_key [OF assms(3)] assms(3) by auto

definition doomed_ids :: "retention \<Rightarrow> episode_record list \<Rightarrow> episode_id list" where
  "doomed_ids policy records = plan policy (cached_candidates records)"

lemma cached_candidate_ids: "map cand_id (cached_candidates records) = map r_id (filter (\<lambda>ep. r_state ep = Cached) records)"
  by (simp add: cached_candidates_def)

lemma distinct_map_filter: "distinct (map f xs) \<Longrightarrow> distinct (map f (filter P xs))"
  by (induction xs) auto

lemma doomed_cached:
  assumes "db_inv X d" "storage_episodes X slug d = Inr records"
  shows "distinct (doomed_ids policy records)"
    "i \<in> set (doomed_ids policy records) \<Longrightarrow> \<exists>e. view X d slug i = Some e \<and> r_state e = Cached \<and>
      List.find (\<lambda>ep. r_id ep = i) records = Some e"
proof -
  let ?cs = "cached_candidates records"
  have dist: "distinct (map cand_id ?cs)"
    unfolding cached_candidate_ids by (rule distinct_map_filter [OF listed_distinct [OF assms]])
  then show "distinct (doomed_ids policy records)"
    using planner.parts_distinct [of ?cs policy] by (simp add: doomed_ids_def plan_def)
  assume "i \<in> set (doomed_ids policy records)"
  then have "i \<in> cand_id ` set ?cs"
    using planner.doomed_subset [of policy ?cs] by (auto simp: doomed_ids_def plan_def)
  then obtain e where e: "e \<in> set records" "r_state e = Cached" "r_id e = i"
    by (auto simp: cached_candidates_def)
  then have "view X d slug i = Some e" using listed_iff_view [OF assms] by auto
  with e find_listed [OF assms] show "\<exists>e. view X d slug i = Some e \<and> r_state e = Cached \<and>
      List.find (\<lambda>ep. r_id ep = i) records = Some e" by blast
qed

lemma apply_retention_effect:
  fixes policy :: retention
  assumes "db_inv (host_codec H) (ls_db s)" "storage_episodes (host_codec H) slug (ls_db s) = Inr records"
  defines "doomed \<equiv> doomed_ids policy records" and "v \<equiv> view (host_codec H) (ls_db s)"
  defines "gone \<equiv> filter (\<lambda>i. \<exists>e. v slug i = Some e \<and> removable (ls_fs s) e) doomed"
  shows "\<exists>freed s'. apply_retention H slug policy s = (Inr (of_nat (length gone)), s') \<and>
    db_inv (host_codec H) (ls_db s') \<and>
    view (host_codec H) (ls_db s') = prune_view slug (ls_fs s) (set doomed) v \<and>
    ls_fs s' = remove_files (paths_of v slug (set doomed)) (ls_fs s) \<and>
    ls_events s' = ls_events s @
      (if 0 < (of_nat (length gone) :: u32) then [EpisodesPruned slug (of_nat (length gone)) freed] else [])"
proof -
  let ?X = "host_codec H"
  note doomed = doomed_cached [OF assms(1,2), where policy = policy, folded doomed_def]
  have "\<forall>i \<in> set doomed. \<exists>e. view ?X (ls_db (tick s)) slug i = Some e \<and> r_state e = Cached \<and>
      List.find (\<lambda>ep. r_id ep = i) records = Some e"
    using doomed(2) by simp
  from prune_loop_effect [OF _ doomed(1) this, of 0 0] assms(1)
  obtain b' s' where "prune_loop slug records doomed 0 0 (tick s) = (Inr (of_nat (length gone), b'), s')"
    "db_inv ?X (ls_db s')" "ls_events s' = ls_events s"
    "view ?X (ls_db s') = prune_view slug (ls_fs s) (set doomed) v"
    "ls_fs s' = remove_files (paths_of v slug (set doomed)) (ls_fs s)"
    by (auto simp: gone_def v_def)
  then show ?thesis
    by (auto simp: apply_retention_def assms(2) doomed_def doomed_ids_def)
qed

text \<open>What stays cached is what the planner kept.\<close>

lemma chosen_iff:
  assumes "distinct (map cand_id cs)" "c \<in> set cs"
  shows "c \<in> set (chosen p 0 0 cs) \<longleftrightarrow> cand_id c \<notin> set (plan p cs)"
proof -
  have sets: "set (chosen p 0 0 cs) \<union> set (rejected p 0 0 cs) = set cs"
    using arg_cong [OF mset_chosen_rejected [of p 0 0 cs], of set_mset] by simp
  have disj: "cand_id ` set (chosen p 0 0 cs) \<inter> cand_id ` set (rejected p 0 0 cs) = {}"
    using planner.kept_doomed_disjoint [OF assms(1), of p] by (simp add: split_eq)
  have "plan p cs = rev (map cand_id (rejected p 0 0 cs))" by (simp add: plan_def split_eq)
  with sets disj assms(2) show ?thesis by auto
qed

lemma removable_all:
  "(\<And>p. fs_remove_error F p \<in> {None, Some IoNotFound}) \<Longrightarrow> removable F e"
  by (auto simp: removable_def split: option.split)

lemma spec_pruned_cached [simp]: "r_state e = Cached \<Longrightarrow> spec_pruned e \<noteq> e"
  by (auto dest: arg_cong [of _ _ r_state])

lemma retention_leaves_kept:
  assumes "db_inv X d" "storage_episodes X slug d = Inr records" "db_inv X d'"
    "storage_episodes X slug d' = Inr records'" "\<And>e. removable F e"
    "view X d' = prune_view slug F (set (doomed_ids policy records)) (view X d)"
  shows "mset (cached_candidates records') = mset (chosen policy 0 0 (cached_candidates records))"
proof -
  let ?cand = "\<lambda>ep. \<lparr>cand_id = r_id ep, cand_bytes = unwrap_or 0 (r_bytes ep)\<rparr>"
  let ?cs = "cached_candidates records" and ?doomed = "set (doomed_ids policy records)"
  have dist: "distinct (map cand_id ?cs)" "distinct (map cand_id (cached_candidates records'))"
    unfolding cached_candidate_ids
    by (rule distinct_map_filter [OF listed_distinct] assms)+
  have "e \<in> set records' \<and> r_state e = Cached \<longleftrightarrow> e \<in> set records \<and> r_state e = Cached \<and> r_id e \<notin> ?doomed" for e
    using listed_iff_view [OF assms(1,2), of e] listed_iff_view [OF assms(3,4), of e] assms(5)
    by (auto simp: assms(6) prune_view_def split: if_splits)
  then have "set (cached_candidates records') = ?cand ` {e \<in> set records. r_state e = Cached \<and> r_id e \<notin> ?doomed}"
    by (auto simp: cached_candidates_def image_iff)
  also have "\<dots> = {c \<in> set ?cs. cand_id c \<notin> set (plan policy ?cs)}"
    by (auto simp: cached_candidates_def doomed_ids_def)
  also have "\<dots> = set (chosen policy 0 0 ?cs)"
    using chosen_iff [OF dist(1), of _ policy] arg_cong [OF mset_chosen_rejected [of policy 0 0 ?cs], of set_mset]
    by auto
  finally have "set (cached_candidates records') = set (chosen policy 0 0 ?cs)" .
  moreover have "distinct (chosen policy 0 0 ?cs)"
    using mset_eq_imp_distinct_iff [of "chosen policy 0 0 ?cs @ rejected policy 0 0 ?cs" ?cs] dist(1)
    by (simp add: mset_chosen_rejected distinct_map)
  ultimately show ?thesis
    using dist(2) by (simp add: distinct_map set_eq_iff_mset_eq_distinct)
qed

lemma chosen_count:
  "keep_last p = Some n \<Longrightarrow> k \<le> unat n \<Longrightarrow> k + length (chosen p kb k cs) \<le> unat n"
proof (induction p kb k cs rule: chosen.induct)
  case (2 p kb k c cs)
  have "k < 2 ^ 32" using 2(4) unsigned_less [where 'a = nat, of n] by simp
  then have "\<not> over_count p (replicate k c) \<Longrightarrow> Suc k \<le> unat n"
    using 2(3) by (simp add: over_count_def word_le_nat_alt unat_of_nat)
  with 2 show ?case by simp
qed simp

definition within_limits :: "retention \<Rightarrow> candidate list \<Rightarrow> bool" where
  "within_limits p cs \<longleftrightarrow>
     (\<forall>n. keep_last p = Some n \<longrightarrow> length cs \<le> unat n) \<and>
     (\<forall>mx. max_bytes p = Some mx \<longrightarrow> length cs \<le> 1 \<or> total_bytes cs \<le> unat mx)"

lemma within_limits_mset: "mset xs = mset ys \<Longrightarrow> within_limits p xs \<longleftrightarrow> within_limits p ys"
proof -
  assume eq: "mset xs = mset ys"
  then have "length xs = length ys" by (rule mset_eq_length)
  moreover have "total_bytes xs = total_bytes ys"
    unfolding total_bytes_def sum_mset_sum_list [symmetric] mset_map eq ..
  ultimately show ?thesis by (simp add: within_limits_def)
qed

lemma chosen_within:
  assumes "total_bytes cs < 2 ^ 64" "length cs < 2 ^ 32"
  shows "within_limits p (chosen p 0 0 cs)"
proof -
  have g: "chosen p 0 0 cs = greedy (count_limit p) (byte_cap p) [] cs"
    using chosen_greedy [of 0 "[]" cs p] assms by simp
  have "(case count_limit p of None \<Rightarrow> True | Some n \<Rightarrow> length (greedy (count_limit p) (byte_cap p) [] cs) \<le> n) \<and>
    (length (greedy (count_limit p) (byte_cap p) [] cs) \<le> 1 \<or>
     (case byte_cap p of None \<Rightarrow> True | Some mx \<Rightarrow> total_bytes (greedy (count_limit p) (byte_cap p) [] cs) \<le> mx))"
    by (rule greedy_within) (auto split: option.splits)
  with g show ?thesis by (auto simp: within_limits_def count_limit_def byte_cap_def)
qed

text \<open>Retention after a successful reading of the show: the limits hold of what is cached then.\<close>

lemma apply_retention_limits:
  assumes "db_inv (host_codec H) (ls_db s)" "storage_episodes (host_codec H) slug (ls_db s) = Inr records"
    "\<And>p. fs_remove_error (ls_fs s) p \<in> {None, Some IoNotFound}"
  shows "\<exists>n s' records'. apply_retention H slug policy s = (Inr n, s') \<and> db_inv (host_codec H) (ls_db s') \<and>
    storage_episodes (host_codec H) slug (ls_db s') = Inr records' \<and>
    mset (cached_candidates records') = mset (chosen policy 0 0 (cached_candidates records))"
proof -
  from apply_retention_effect [OF assms(1,2), of policy] obtain n s' where s':
    "apply_retention H slug policy s = (Inr n, s')" "db_inv (host_codec H) (ls_db s')"
    "view (host_codec H) (ls_db s') =
      prune_view slug (ls_fs s) (set (doomed_ids policy records)) (view (host_codec H) (ls_db s))" by blast
  obtain records' where records': "storage_episodes (host_codec H) slug (ls_db s') = Inr records'"
    using storage_episodes_total [OF s'(2)] by blast
  from retention_leaves_kept [OF assms(1,2) s'(2) records' removable_all [OF assms(3)] s'(3)] s' records'
  show ?thesis by blast
qed

section \<open>Listings are determined by their records\<close>

lemma feed_key_inj: "feed_key X a = feed_key X b \<Longrightarrow> r_id a = r_id b"
  by (simp add: feed_key_def id_str_inj)

lemma filter_listed_eq:
  assumes "db_inv X d" "storage_episodes X slug d = Inr es" "db_inv X d'" "storage_episodes X slug d' = Inr es'"
    "\<And>e. P e \<Longrightarrow> view X d slug (r_id e) = Some e \<longleftrightarrow> view X d' slug (r_id e) = Some e"
  shows "filter P es' = filter P es"
proof -
  have sets: "set (filter P es') = set (filter P es)"
    using assms(5) listed_iff_view [OF assms(1,2)] listed_iff_view [OF assms(3,4)] by auto
  have inj: "inj_on (feed_key X) (set (filter P l))" if "distinct (map r_id l)" for l
  proof (rule inj_onI)
    fix a b assume "a \<in> set (filter P l)" "b \<in> set (filter P l)" "feed_key X a = feed_key X b"
    then show "a = b" using that by (intro inj_onD [of r_id "set l"]) (auto simp: distinct_map dest: feed_key_inj)
  qed
  have strict: "distinct (map (feed_key X) (filter P l))" if "distinct (map r_id l)" for l
    using inj [OF that] distinct_filter [of l P] that by (simp add: distinct_map)
  have sorted: "sorted (rev (map (feed_key X) (filter P l)))" if "sorted_wrt (\<lambda>a b. b \<le> a) (map (feed_key X) l)" for l
    using that by (simp add: sorted_wrt_rev sorted_wrt_map sorted_wrt_filter)
  have "rev (map (feed_key X) (filter P es')) = rev (map (feed_key X) (filter P es))"
  proof (rule sorted_distinct_set_unique)
    show "sorted (rev (map (feed_key X) (filter P es')))" by (rule sorted [OF listed_sorted [OF assms(3,4)]])
    show "sorted (rev (map (feed_key X) (filter P es)))" by (rule sorted [OF listed_sorted [OF assms(1,2)]])
    show "distinct (rev (map (feed_key X) (filter P es')))"
      unfolding distinct_rev by (rule strict [OF listed_distinct [OF assms(3,4)]])
    show "distinct (rev (map (feed_key X) (filter P es)))"
      unfolding distinct_rev by (rule strict [OF listed_distinct [OF assms(1,2)]])
    show "set (rev (map (feed_key X) (filter P es'))) = set (rev (map (feed_key X) (filter P es)))"
      unfolding set_rev set_map sets ..
  qed
  then have "map (feed_key X) (filter P es') = map (feed_key X) (filter P es)" by simp
  then show ?thesis
    by (rule map_inj_on) (use inj [OF listed_distinct [OF assms(1,2)]] sets in simp)
qed

definition deletable :: "fs \<Rightarrow> bool" where
  "deletable F \<longleftrightarrow> (\<forall>p. fs_remove_error F p \<in> {None, Some IoNotFound})"

section \<open>Properties\<close>

text \<open>
  C9: Retention carries out its plan and brings a show within its limits.  \<open>apply_retention\<close>
  turns exactly the doomed cached records whose file could be removed into tombstones,
  deletes no file but theirs, touches no other record, and announces a pruning only if there
  was one.  When the disk refuses no deletion, what is cached afterwards is at most
  \<open>keep_last\<close> episodes and at most the byte cap, a single episode aside.
\<close>

theorem retention_carried_out:
  assumes "db_inv (host_codec H) (ls_db s)" "storage_episodes (host_codec H) slug (ls_db s) = Inr records"
  shows "\<exists>n freed s' es. apply_retention H slug policy s = (Inr n, s') \<and>
    view (host_codec H) (ls_db s') =
      prune_view slug (ls_fs s) (set (doomed_ids policy records)) (view (host_codec H) (ls_db s)) \<and>
    (\<forall>p. p \<in> paths_of (view (host_codec H) (ls_db s)) slug (set (doomed_ids policy records)) \<or>
       fs_files (ls_fs s') p = fs_files (ls_fs s) p) \<and>
    ls_events s' = ls_events s @ (if 0 < n then [EpisodesPruned slug n freed] else []) \<and>
    storage_episodes (host_codec H) slug (ls_db s') = Inr es \<and>
    (deletable (ls_fs s) \<longrightarrow> total_bytes (cached_candidates records) < 2 ^ 64 \<longrightarrow> length records < 2 ^ 32 \<longrightarrow>
       within_limits policy (cached_candidates es))"
proof -
  from apply_retention_effect [OF assms, of policy] obtain n freed s' where run:
    "apply_retention H slug policy s = (Inr n, s')" "db_inv (host_codec H) (ls_db s')"
    "view (host_codec H) (ls_db s') =
      prune_view slug (ls_fs s) (set (doomed_ids policy records)) (view (host_codec H) (ls_db s))"
    "ls_fs s' = remove_files (paths_of (view (host_codec H) (ls_db s)) slug (set (doomed_ids policy records))) (ls_fs s)"
    "ls_events s' = ls_events s @ (if 0 < n then [EpisodesPruned slug n freed] else [])" by blast
  obtain es where es: "storage_episodes (host_codec H) slug (ls_db s') = Inr es"
    using storage_episodes_total [OF run(2)] by blast
  have "within_limits policy (cached_candidates es)"
    if "deletable (ls_fs s)" "total_bytes (cached_candidates records) < 2 ^ 64" "length records < 2 ^ 32"
  proof -
    have "removable (ls_fs s) e" for e using that(1) by (intro removable_all) (auto simp: deletable_def)
    then have left: "mset (cached_candidates es) = mset (chosen policy 0 0 (cached_candidates records))"
      by (rule retention_leaves_kept [OF assms run(2) es _ run(3)])
    have "length (cached_candidates records) \<le> length records" by (simp add: cached_candidates_def)
    then have "length (cached_candidates records) < 2 ^ 32" using that(3) by (rule le_less_trans)
    from chosen_within [OF that(2) this, of policy] show ?thesis by (simp only: within_limits_mset [OF left])
  qed
  with run es show ?thesis
    by (intro exI [of _ n] exI [of _ freed] exI [of _ s'] exI [of _ es]) (auto simp: remove_files_def)
qed

theorem retention_carried_out_witness:
  "\<exists>n s' es. apply_retention demo_host demo_slug \<lparr>ret_keep_last = Some 0, ret_max_gb = None\<rparr> demo_state = (Inr n, s') \<and>
    storage_episodes demo_codec demo_slug (ls_db s') = Inr es \<and>
    within_limits \<lparr>ret_keep_last = Some 0, ret_max_gb = None\<rparr> (cached_candidates es)"
proof -
  have host: "host_codec demo_host = demo_codec" "ls_db demo_state = demo_db"
    by (simp_all add: demo_host_def demo_state_def)
  obtain records where records: "storage_episodes demo_codec demo_slug demo_db = Inr records"
    using storage_episodes_total [OF demo_db_inv] by blast
  have "(case storage_episodes demo_codec demo_slug demo_db of Inl e \<Rightarrow> False
      | Inr es \<Rightarrow> length es = 3 \<and> total_bytes (cached_candidates es) = 5)" by code_simp
  with records have small: "total_bytes (cached_candidates records) < 2 ^ 64" "length records < 2 ^ 32" by simp_all
  have quiet: "deletable (ls_fs demo_state)" by (simp add: deletable_def demo_state_def demo_fs_def)
  obtain n s' es where "apply_retention demo_host demo_slug \<lparr>ret_keep_last = Some 0, ret_max_gb = None\<rparr> demo_state = (Inr n, s')"
    "storage_episodes demo_codec demo_slug (ls_db s') = Inr es"
    "within_limits \<lparr>ret_keep_last = Some 0, ret_max_gb = None\<rparr> (cached_candidates es)"
    using retention_carried_out [of demo_host demo_state demo_slug records "\<lparr>ret_keep_last = Some 0, ret_max_gb = None\<rparr>",
        OF demo_state_inv, unfolded host, OF records] quiet small by blast
  then show ?thesis by blast
qed

end
