(* ===== verification/Library_Facts.thy ===== *)
theory Library_Facts
  imports Library_Retention
begin

text \<open>
  What whole methods of the library achieve: a failed poll leaves feeds as they were, a
  completed sync respects \<open>keep_last\<close>, verification reports exactly the damaged files, and
  feeds list exactly the cached episodes.
\<close>

section \<open>Failed polls\<close>

text \<open>A poll that failed is written on the show's row and nowhere a feed reads.\<close>

definition polled_show :: "timestamp \<Rightarrow> string option \<Rightarrow> show_record \<Rightarrow> show_record" where
  "polled_show t err r =
     r\<lparr>rs_last_poll_at := Some t, rs_last_poll_ok := Some (err = None), rs_last_error := err\<rparr>"

lemma storage_show_record_poll:
  assumes "codec_ok X" "storage_show X slug d = Inr found"
  shows "storage_show X slug (after d (record_poll X t slug err d)) = Inr (map_option (polled_show t err) found)"
proof -
  have find: "List.find (is_show slug) (update_where (is_show slug) f rows) =
      map_option (\<lambda>r. if is_show slug r then f r else r) (List.find (is_show slug) rows)"
    if "\<And>r. s_slug (f r) = s_slug r" for f rows
    using that by (intro find_update_where) (simp add: is_show_def)
  show ?thesis
    using assms
    by (auto simp: storage_show_def record_poll_def find decode_show_def polled_show_def
        bind_res_Inr_iff map_res_Inr_iff dest: find_Some_mem split: option.splits)
qed

lemma build_feed_polled [simp]: "build_feed U base sc slug (polled_show t err r) es = build_feed U base sc slug r es"
  by (simp add: build_feed_def polled_show_def Let_def)

lemma build_feed_cached:
  "filter (\<lambda>e. r_state e = Cached) es' = filter (\<lambda>e. r_state e = Cached) es \<Longrightarrow>
   build_feed U base sc slug r es' = build_feed U base sc slug r es"
  by (simp add: build_feed_def)

lemma write_feed_same:
  assumes "db_inv (host_codec H) d" "db_inv (host_codec H) d'"
    "\<And>e. r_state e = Cached \<Longrightarrow> view (host_codec H) d slug (r_id e) = Some e \<longleftrightarrow> view (host_codec H) d' slug (r_id e) = Some e"
    "storage_show (host_codec H) slug d = Inr found"
    "storage_show (host_codec H) slug d' = Inr (map_option (polled_show t err) found)"
  shows "write_feed H L base slug d' = write_feed H L base slug d"
proof -
  obtain es es' where es: "storage_episodes (host_codec H) slug d = Inr es" "storage_episodes (host_codec H) slug d' = Inr es'"
    using storage_episodes_total assms(1,2) by meson
  have "filter (\<lambda>e. r_state e = Cached) es' = filter (\<lambda>e. r_state e = Cached) es"
    by (rule filter_listed_eq [OF assms(1) es(1) assms(2) es(2)], rule assms(3))
  then have feed: "build_feed U base sc slug r es' = build_feed U base sc slug r es" for U base sc r
    by (rule build_feed_cached)
  show ?thesis
  proof (cases found)
    case (Some r)
    then show ?thesis by (simp add: write_feed_def assms(4,5) es feed)
  qed (simp add: write_feed_def assms(4,5))
qed

text \<open>What the start of a sync and a failed poll do to the database.\<close>

lemma healed_cached:
  assumes "db_inv X d" "r_state e = Cached"
  shows "view X (after d (reset_stale_downloads X now slug secs d)) s j = Some e \<longleftrightarrow> view X d s j = Some e"
  using assms(2)
  by (auto simp: view_after [OF reset_stale_refines [OF assms(1)]] spec_heal_def)

lemma healed_inv:
  "db_inv X d \<Longrightarrow> db_inv X (after d (reset_stale_downloads X now slug secs d))"
  using reset_stale_downloads_inv [of X d now slug secs] by (auto intro!: after_inv)

lemma healed_shows [simp]:
  "show_rows (after d (reset_stale_downloads X now slug secs d)) = show_rows d"
  by (simp add: reset_stale_downloads_def Let_def)

lemma view_record_poll [simp]: "view X (after d (record_poll X t slug err d)) = view X d"
  by (simp add: record_poll_def)

lemma fail_poll_outcome:
  assumes "fail_poll H L slug err s = (r, s')"
  shows "r = Inl (LibProvider err) \<and> ls_fs s' = ls_fs s \<and>
    (\<exists>mid. ls_events s' = ls_events s @ mid @ [PollFinished slug False 0] \<and>
      (\<forall>e \<in> set mid. \<exists>p q. e = Quarantined p q) \<and> ((\<exists>reason q. err = ParseFailed reason q) \<longleftrightarrow> mid \<noteq> []))"
proof -
  let ?r = "record_poll (host_codec H) (now_at H s) slug (Some (provider_error_display (host_url H) err)) (ls_db s)"
  obtain d where "?r = Inr ((), d)" by (simp add: record_poll_def)
  with assms show ?thesis
    by (cases err) (auto simp: fail_poll_def poll_failed_def Let_def stored_def)
qed

section \<open>Limits after a sync\<close>

text \<open>No method of the library changes which deletions the disk refuses.\<close>

lemma fs_write_errors [simp]: "fs_remove_error (fs_write p c F) = fs_remove_error F"
  by (simp add: fs_write_def)

lemma fs_remove_errors [simp]: "fs_remove_error (snd (fs_remove p F)) = fs_remove_error F"
  by (simp add: fs_remove_eq)

lemma fetch_errors:
  assumes "fetch U hash net source dest F = (r, F', log, n)"
  shows "fs_remove_error F' = fs_remove_error F"
  using fetch_delivered [of U hash net source dest F] fetch_failed [of U hash net source dest F] assms
  by (cases r) (auto simp: delivered_def)

lemma ls_fs_fold_emit [simp]: "ls_fs (fold (\<lambda>x. emit (g x)) xs s) = ls_fs s"
  by (induction xs arbitrary: s) simp_all

lemma ls_fs_andThen:
  assumes "Q (ls_fs (snd rs))" "\<And>a s. rs = (Inr a, s) \<Longrightarrow> Q (ls_fs s) \<Longrightarrow> Q (ls_fs (snd (f a s)))"
  shows "Q (ls_fs (snd (andThen rs f)))"
proof (cases rs)
  case (Pair r s)
  with assms show ?thesis by (cases r) auto
qed

lemma transfer_file_errors [simp]:
  "fs_remove_error (ls_fs (snd (transfer_file H slug ep source dest s))) = fs_remove_error (ls_fs s)"
  by (auto simp: transfer_file_def Let_def dest: fetch_errors split: prod.split)

lemma try_download_errors [simp]:
  "fs_remove_error (ls_fs (snd (try_download H L pv slug ep s))) = fs_remove_error (ls_fs s)"
  unfolding try_download_def Let_def
  by (intro ls_fs_andThen [where Q = "\<lambda>F. fs_remove_error F = fs_remove_error (ls_fs s)"])
    (simp_all add: record_cached_def Let_def)

lemma download_episode_errors [simp]:
  "fs_remove_error (ls_fs (snd (download_episode H L pv slug ep s))) = fs_remove_error (ls_fs s)"
proof -
  obtain r s1 where "try_download H L pv slug ep s = (r, s1)" by fastforce
  with try_download_errors [of H L pv slug ep s] show ?thesis
    by (cases r) (simp_all add: download_episode_def Let_def)
qed

lemma download_all_errors [simp]:
  "fs_remove_error (ls_fs (snd (download_all H L pv slug eps n s))) = fs_remove_error (ls_fs s)"
proof (induction eps arbitrary: n s)
  case (Cons ep eps)
  obtain b s1 where "download_episode H L pv slug ep s = (b, s1)" by fastforce
  with download_episode_errors [of H L pv slug ep s] Cons.IH show ?case by simp
qed simp

lemma art_fetch_errors:
  "art_fetch H dest src s = (b, s') \<Longrightarrow> fs_remove_error (ls_fs s') = fs_remove_error (ls_fs s)"
  by (cases src) (auto dest: fetch_errors split: prod.splits option.splits sum.splits)

lemma stored_fs: "stored r s = (x, s') \<Longrightarrow> ls_fs s' = ls_fs s"
  using ls_fs_stored [of r s] by simp

lemma stored_db: "stored r s = (x, s') \<Longrightarrow> ls_db s' = after (ls_db s) r"
  using ls_db_stored [of r s] by simp

lemma cache_artwork_errors [simp]:
  "fs_remove_error (ls_fs (cache_artwork H L sc meta slug s)) = fs_remove_error (ls_fs s)"
  by (auto simp: cache_artwork_def Let_def dest!: art_fetch_errors stored_fs split: sum.split option.split prod.split bool.split)

lemma record_listing_errors:
  "fs_remove_error (ls_fs (snd (record_listing H L sc slug es etag meta s))) = fs_remove_error (ls_fs s)"
  unfolding record_listing_def Let_def
  by (intro ls_fs_andThen [where Q = "\<lambda>F. fs_remove_error F = fs_remove_error (ls_fs s)"]) simp_all

lemma fail_poll_fs: "ls_fs (snd (fail_poll H L slug err s)) = ls_fs s"
proof -
  obtain r s1 where st: "stored (record_poll (host_codec H) (now_at H s) slug
    (Some (provider_error_display (host_url H) err)) (ls_db s)) s = (r, s1)" by fastforce
  from stored_fs [OF st] st show ?thesis
    by (cases r; cases err) (simp_all add: fail_poll_def poll_failed_def Let_def)
qed

lemma take_listing_errors:
  "fs_remove_error (ls_fs (snd (take_listing H L sc pv slug limit listing s))) = fs_remove_error (ls_fs s)"
  by (cases listing; cases "pv_show pv (ls_tick s) slug"; cases "storage_episodes (host_codec H) slug (ls_db s)")
    (simp_all add: take_listing_def record_listing_errors fail_poll_fs)

text \<open>The number of cached episodes after a completed sync.\<close>

lemma storage_episodes_record_poll [simp]:
  "storage_episodes X slug (after d (record_poll X t sl err d)) = storage_episodes X slug d"
  by (simp add: record_poll_def storage_episodes_def show_episode_rows_def)

lemma finish_sync_limits:
  assumes "host_ok H" "provider_ok (pv :: 'u provider)" "db_inv (host_codec H) (ls_db s)" "deletable (ls_fs s)"
    "finish_sync H L pv slug policy records window discovered s = (Inr report, s')"
  shows "\<exists>es cs. storage_episodes (host_codec H) slug (ls_db s') = Inr es \<and>
    mset (cached_candidates es) = mset (chosen policy 0 0 cs)"
proof -
  let ?X = "host_codec H" and ?pending = "host_order H (ls_tick s) (pending_downloads policy records window)"
  obtain n s1 where d: "download_all H L pv slug ?pending 0 s = (n, s1)" by fastforce
  have reach: "reaches ?X (within slug (r_id ` set ?pending) :: 'u storage_op \<Rightarrow> bool) (ls_db s) (ls_db s1)"
    using download_all_reaches [OF assms(2) order.refl, where H = H and slug = slug and s = s and L = L and eps = "?pending"] d by (metis snd_conv)
  have inv: "db_inv ?X (ls_db s1)"
    using reaches_inv [OF reach _ assms(3)] assms(1) by (simp add: host_ok_def)
  obtain cs where cs: "storage_episodes ?X slug (ls_db s1) = Inr cs"
    using storage_episodes_total [OF inv] by blast
  have "fs_remove_error (ls_fs s1) p \<in> {None, Some IoNotFound}" for p
    using assms(4) download_all_errors [of H L pv slug ?pending 0 s] d by (simp add: deletable_def)
  from apply_retention_limits [OF inv cs this, of policy] obtain k s2 es where s2:
    "apply_retention H slug policy s1 = (Inr k, s2)" "storage_episodes ?X slug (ls_db s2) = Inr es"
    "mset (cached_candidates es) = mset (chosen policy 0 0 (cached_candidates cs))" by blast
  let ?r = "record_poll ?X (now_at H s2) slug None (ls_db s2)"
  obtain x s3 where s3: "stored ?r s2 = (x, s3)" by fastforce
  then have "storage_episodes ?X slug (ls_db s3) = Inr es"
    using ls_db_stored [of ?r s2] s2(2) by simp
  moreover have "ls_db s' = ls_db s3"
    using assms(5) d s2(1) s3 by (cases x) (auto simp: finish_sync_def Let_def)
  ultimately show ?thesis using s2(3) by auto
qed

lemma poll_listing_limits:
  assumes "host_ok H" "provider_ok (pv :: 'u provider)" "valid_slug slug" "db_inv (host_codec H) (ls_db s)" "deletable (ls_fs s)"
    "poll_listing H L sc pv slug etag s = (Inr report, s')"
  shows "\<exists>es cs. storage_episodes (host_codec H) slug (ls_db s') = Inr es \<and>
    mset (cached_candidates es) = mset (chosen (show_retention sc (cfg_retention (lib_config L))) 0 0 cs)"
proof -
  let ?X = "host_codec H" and ?limit = "show_fetch_last sc (cfg_fetch_last (lib_config L))"
  obtain listing where l: "pv_episodes pv (ls_tick s) slug ?limit etag = Inr listing"
  proof (cases "pv_episodes pv (ls_tick s) slug ?limit etag")
    case (Inl err)
    obtain r s1 where f: "(fail_poll H L slug err (tick s) :: ('u library_error + sync_report) \<times> lib_state) = (r, s1)"
      by fastforce
    from fail_poll_outcome [OF this] assms(6) Inl f show ?thesis by (simp add: poll_listing_def Let_def)
  qed
  obtain r1 s1 where t: "take_listing H L sc pv slug ?limit listing (tick s) = (r1, s1)" by fastforce
  then obtain window discovered where r1: "r1 = Inr (window, discovered)"
    using assms(6) l by (cases r1) (auto simp: poll_listing_def Let_def)
  have valid: "\<forall>es tag. listing = Modified es tag \<longrightarrow> (\<forall>e \<in> set es. valid_id (em_id e))"
    using provider_ok_ids [OF assms(2)] l by blast
  have "reaches ?X (within slug {} :: 'u storage_op \<Rightarrow> bool) (ls_db (tick s)) (ls_db s1)"
    using take_listing_reaches [OF assms(2,3) valid, of H "{}" "tick s" L sc ?limit] t by simp
  from reaches_inv [OF this] assms(1,4) have inv: "db_inv ?X (ls_db (tick s1))" by (simp add: host_ok_def)
  have del: "deletable (ls_fs (tick s1))"
    using take_listing_errors [of H L sc pv slug ?limit listing "tick s"] t assms(5) by (simp add: deletable_def)
  obtain records where "storage_episodes ?X slug (ls_db s1) = Inr records"
    using storage_episodes_total [OF inv, of slug] by auto
  then have "finish_sync H L pv slug (show_retention sc (cfg_retention (lib_config L))) records window discovered (tick s1) =
      (Inr report, s')"
    using assms(6) l t r1 by (simp add: poll_listing_def Let_def)
  from finish_sync_limits [OF assms(1,2) inv del this] show ?thesis .
qed

section \<open>Verification without repairs\<close>

lemma cached_has_bytes:
  assumes "db_inv X d" "view X d slug i = Some e" "r_state e = Cached"
  shows "\<exists>b. r_bytes e = Some b"
proof -
  obtain r where r: "List.find (is_episode slug i) (episode_rows d) = Some r" "decode_episode X r = Inr e"
    using assms(2) by (auto simp: view_def bind_eq_Some_conv)
  then have "row_wf X r" using assms(1) find_Some_mem [OF r(1)] by (simp add: db_inv_def)
  then have "state_columns Cached r" using decode_episode_state [OF r(2)] assms(3) by (auto simp: row_wf_def)
  with r(2) show ?thesis by (auto simp: decode_episode_def bind_res_Inr_iff)
qed

definition reported :: "'u host \<Rightarrow> fs \<Rightarrow> episode_record \<Rightarrow> verify_outcome option" where
  "reported H F ep = map_option (\<lambda>p. \<lparr>vo_id = r_id ep, vo_problem = p, vo_fixed = False\<rparr>) (check_file H F ep)"

lemma reported_simps [simp]:
  "check_file H F ep = None \<Longrightarrow> reported H F ep = None"
  "check_file H F ep = Some p \<Longrightarrow> reported H F ep = Some \<lparr>vo_id = r_id ep, vo_problem = p, vo_fixed = False\<rparr>"
  by (simp_all add: reported_def)

lemma map_filter_append [simp]: "List.map_filter f (xs @ ys) = List.map_filter f xs @ List.map_filter f ys"
  by (induction xs) (simp_all add: List.map_filter_simps split: option.split)

lemma verify_all_report:
  "\<exists>t. verify_all H L None slug eps s = (List.map_filter (reported H (ls_fs s)) eps, s\<lparr>ls_tick := t\<rparr>)"
proof (induction eps arbitrary: s)
  case Nil
  then show ?case by (auto simp: List.map_filter_simps intro: exI [of _ "ls_tick s"])
next
  case (Cons ep eps)
  from Cons.IH [of "tick s"] obtain t where
    "verify_all H L None slug eps (tick s) = (List.map_filter (reported H (ls_fs s)) eps, (tick s)\<lparr>ls_tick := t\<rparr>)" by auto
  moreover have "(tick s)\<lparr>ls_tick := t\<rparr> = s\<lparr>ls_tick := t\<rparr>" by (simp add: tick_def)
  ultimately show ?case
    by (cases "check_file H (ls_fs s) ep")
      (auto simp: verify_episode_def List.map_filter_simps)
qed

lemma length_map_filter: "length (List.map_filter f xs) + length (filter (\<lambda>x. f x = None) xs) = length xs"
  by (induction xs) (auto simp: List.map_filter_simps split: option.split)

lemma mset_map_filter_cong: "mset xs = mset ys \<Longrightarrow> mset (List.map_filter f xs) = mset (List.map_filter f ys)"
  by (simp add: List.map_filter_def)

lemma distinct_map_filter_ids:
  "distinct (map r_id eps) \<Longrightarrow> distinct (map vo_id (List.map_filter (reported H F) eps))"
  by (induction eps) (auto simp: List.map_filter_simps reported_def in_map_filter split: option.split)

section \<open>Properties\<close>

text \<open>
  A completed sync respects \<open>keep_last\<close>.  Whatever the provider listed and however many
  downloads succeeded, when \<open>sync\<close> returns a report and the disk refused no deletion, at most
  the configured number of episodes of the show is cached.
\<close>

theorem sync_respects_keep_last:
  fixes L :: "'u library"
  assumes "host_ok H" "library_ok L" "valid_slug slug" "db_inv (host_codec H) (ls_db s)" "deletable (ls_fs s)"
    "find_show L slug = Inr sc" "keep_last (show_retention sc (cfg_retention (lib_config L))) = Some n"
    "fst (sync H L slug s) = Inr report"
  shows "\<exists>es. storage_episodes (host_codec H) slug (ls_db (snd (sync H L slug s))) = Inr es \<and>
    length (filter (\<lambda>e. r_state e = Cached) es) \<le> unat n"
proof -
  let ?X = "host_codec H"
  obtain s' where run: "sync H L slug s = (Inr report, s')" using assms(8) by (metis prod.collapse)
  obtain pv where pv: "get_provider L (sc_provider sc) = Inr pv"
    using run assms(6) by (cases "get_provider L (sc_provider sc)") (auto simp: sync_def)
  then have "provider_ok pv" using assms(2) by (auto simp: get_provider_def library_ok_def)
  let ?s = "tick (emit (PollStarted slug) s)"
  let ?r = "reset_stale_downloads ?X (now_at H ?s) slug stale_download_after (ls_db ?s)"
  obtain found where "storage_show ?X slug (ls_db s) = Inr found"
    using run assms(6) pv by (cases "storage_show ?X slug (ls_db s)") (auto simp: sync_def Let_def)
  moreover obtain x s1 where s1: "stored ?r ?s = (x, s1)" by fastforce
  ultimately have "poll_listing H L sc pv slug (Option.bind found rs_episodes_etag) s1 = (Inr report, s')"
    using run assms(6) pv by (cases x) (simp_all add: sync_def Let_def)
  moreover have "ls_db s1 = after (ls_db s) ?r" "ls_fs s1 = ls_fs s"
    using stored_db [OF s1] stored_fs [OF s1] by simp_all
  moreover have "db_inv ?X (after (ls_db s) ?r)" using healed_inv assms(4) by simp
  ultimately obtain es cs where es: "storage_episodes ?X slug (ls_db s') = Inr es"
    "mset (cached_candidates es) = mset (chosen (show_retention sc (cfg_retention (lib_config L))) 0 0 cs)"
    using poll_listing_limits [OF assms(1) \<open>provider_ok pv\<close> assms(3)] assms(5) by metis
  have "length (cached_candidates es) \<le> unat n"
    using chosen_count [OF assms(7), of 0 0 cs] mset_eq_length [OF es(2)] by simp
  with es(1) run show ?thesis by (simp add: cached_candidates_def)
qed

text \<open>A provider with nothing new, and a store with one cached episode.\<close>

definition idle_provider :: "tuple_url provider" where
  "idle_provider =
     \<lparr>pv_show = (\<lambda>t s. Inl (UnknownProvider [])), pv_episodes = (\<lambda>t s l e. Inr NotModified),
      pv_resolve_audio = (\<lambda>t s i. Inl (UnknownProvider [])), pv_artwork = (\<lambda>t s. Inr None)\<rparr>"

definition idle_library :: "tuple_url library" where
  "idle_library = demo_library\<lparr>lib_providers := (\<lambda>n. if n = ''difm'' then Some idle_provider else None)\<rparr>"

definition idle_db :: db where
  "idle_db = demo_db\<lparr>episode_rows := [demo_episode ''162'']\<rparr>"

definition idle_state :: lib_state where
  "idle_state = demo_state\<lparr>ls_db := idle_db\<rparr>"

lemma idle_library_ok: "library_ok idle_library"
  by (simp add: library_ok_def idle_library_def provider_ok_def idle_provider_def)

lemma idle_db_inv: "db_inv demo_codec idle_db"
  using demo_db_inv by (simp add: idle_db_def demo_db_def db_inv_def)

lemma idle_reset: "reset_stale_downloads demo_codec t demo_slug n idle_db = Inr (0, idle_db)"
  by (simp add: reset_stale_downloads_def idle_db_def update_where_def is_stale_def count_where_def Let_def)

lemma idle_episodes: "\<exists>e. storage_episodes demo_codec demo_slug idle_db = Inr [e] \<and> r_state e = Cached"
proof -
  have "(case storage_episodes demo_codec demo_slug idle_db of
      Inr es \<Rightarrow> length es = 1 \<and> list_all (\<lambda>e. r_state e = Cached) es | Inl e \<Rightarrow> False)" by code_simp
  then show ?thesis by (auto split: sum.splits simp: length_Suc_conv)
qed

lemma idle_sync: "\<exists>report. fst (sync demo_host idle_library demo_slug idle_state) = Inr report"
proof -
  obtain e where e: "storage_episodes demo_codec demo_slug idle_db = Inr [e]" "r_state e = Cached"
    using idle_episodes by blast
  obtain found where found: "storage_show demo_codec demo_slug idle_db = Inr found"
    using storage_show_total [OF idle_db_inv] by blast
  have host: "host_codec demo_host = demo_codec" "host_order demo_host t = rev" "ls_db idle_state = idle_db"
    "pv_episodes idle_provider t slug limit etag = Inr NotModified" for t slug limit etag
    by (simp_all add: demo_host_def idle_state_def idle_provider_def fun_eq_iff)
  have provider: "find_show idle_library demo_slug = Inr demo_follow" "get_provider idle_library ''difm'' = Inr idle_provider"
    "show_retention demo_follow (cfg_retention (lib_config idle_library)) = \<lparr>ret_keep_last = Some 2, ret_max_gb = None\<rparr>"
    by (simp_all add: find_show_def get_provider_def idle_library_def demo_library_def show_retention_def layered_over_def)
  have none: "pending_downloads policy [e] window = []" for policy window
    using e(2) by (auto simp: pending_downloads_def Let_def filter_empty_conv in_map_filter awaits_download_def split: if_splits)
  have kept: "plan \<lparr>ret_keep_last = Some 2, ret_max_gb = None\<rparr> (cached_candidates [e]) = []"
    by (simp add: plan_def split_def cached_candidates_def e(2) over_count_def over_bytes_def keep_last_def)
  show ?thesis
    by (simp add: sync_def provider Let_def poll_listing_def take_listing_def finish_sync_def apply_retention_def
        stored_def none kept e found idle_reset record_poll_def host)
qed

theorem sync_respects_keep_last_witness:
  "\<exists>es. storage_episodes demo_codec demo_slug (ls_db (snd (sync demo_host idle_library demo_slug idle_state))) = Inr es \<and>
    length (filter (\<lambda>e. r_state e = Cached) es) \<le> unat (2 :: u32)"
proof -
  obtain report where report: "fst (sync demo_host idle_library demo_slug idle_state) = Inr report"
    using idle_sync by blast
  have inv: "db_inv (host_codec demo_host) (ls_db idle_state)" "deletable (ls_fs idle_state)"
    by (simp_all add: demo_host_def idle_state_def demo_state_def idle_db_inv deletable_def demo_fs_def)
  have followed: "find_show idle_library demo_slug = Inr demo_follow"
    "keep_last (show_retention demo_follow (cfg_retention (lib_config idle_library))) = Some 2"
    by (simp_all add: find_show_def idle_library_def demo_library_def show_retention_def layered_over_def keep_last_def)
  have codec: "host_codec demo_host = demo_codec" by (simp add: demo_host_def)
  show ?thesis
    using sync_respects_keep_last [OF demo_host_ok idle_library_ok demo_slug_valid inv followed report]
    by (simp only: codec)
qed

lemma verify_plain:
  assumes "host_ok H" "db_inv (host_codec H) (ls_db s)"
  shows "\<exists>rep t. verify H L slug False s = (Inr rep, s\<lparr>ls_tick := t\<rparr>) \<and>
    distinct (map vo_id (vr_problems rep)) \<and>
    (\<forall>out. out \<in> set (vr_problems rep) \<longleftrightarrow>
       (\<exists>e p. view (host_codec H) (ls_db s) slug (r_id e) = Some e \<and> r_state e = Cached \<and>
          check_file H (ls_fs s) e = Some p \<and> out = \<lparr>vo_id = r_id e, vo_problem = p, vo_fixed = False\<rparr>)) \<and>
    vr_checked rep = vr_intact rep + of_nat (length (vr_problems rep))"
proof -
  obtain es where es: "storage_episodes (host_codec H) slug (ls_db s) = Inr es"
    using storage_episodes_total [OF assms(2)] by blast
  let ?cached = "filter (\<lambda>e. r_state e = Cached) es"
  let ?order = "host_order H (ls_tick (tick s)) ?cached"
  have order: "mset ?order = mset ?cached" using assms(1) by (simp add: host_ok_def)
  obtain t where t: "verify_all H L None slug ?order (tick s) =
      (List.map_filter (reported H (ls_fs s)) ?order, (tick s)\<lparr>ls_tick := t\<rparr>)"
    using verify_all_report [of H L slug ?order "tick s"] by auto
  let ?problems = "List.map_filter (reported H (ls_fs s)) ?order"
  let ?rep = "\<lparr>vr_checked = of_nat (length ?cached), vr_intact = of_nat (length ?cached) - of_nat (length ?problems),
    vr_problems = ?problems\<rparr>"
  have run: "verify H L slug False s = (Inr ?rep, s\<lparr>ls_tick := t\<rparr>)"
    using t by (simp add: verify_def es Let_def tick_def)
  have "distinct (map r_id ?cached)" by (rule distinct_map_filter [OF listed_distinct [OF assms(2) es]])
  then have "distinct (map r_id ?order)"
    using mset_eq_imp_distinct_iff [of "map r_id ?order" "map r_id ?cached"] order by simp
  then have dist: "distinct (map vo_id ?problems)" by (rule distinct_map_filter_ids)
  have mem: "e \<in> set ?order \<longleftrightarrow> view (host_codec H) (ls_db s) slug (r_id e) = Some e \<and> r_state e = Cached" for e
    using arg_cong [OF order, of set_mset] listed_iff_view [OF assms(2) es] by auto
  have "out \<in> set ?problems \<longleftrightarrow> (\<exists>e p. view (host_codec H) (ls_db s) slug (r_id e) = Some e \<and> r_state e = Cached \<and>
      check_file H (ls_fs s) e = Some p \<and> out = \<lparr>vo_id = r_id e, vo_problem = p, vo_fixed = False\<rparr>)" for out
    unfolding in_map_filter by (auto simp: mem reported_def Bex_def)
  with dist show ?thesis
    by (intro exI [of _ ?rep] exI [of _ t]) (simp add: run)
qed

text \<open>
  A plain verification reports exactly the damage and repairs nothing.  Without \<open>--fix\<close>,
  \<open>verify\<close> returns one outcome for each cached episode whose file is missing, unreadable, of
  another size or of another hash, with that problem, and none for the others; the counts of
  checked and intact files add up; and files, database and events are as they were.
\<close>

theorem verify_reports_exactly:
  assumes "host_ok H" "db_inv (host_codec H) (ls_db s)"
  shows "\<exists>rep t. verify H L slug False s = (Inr rep, s\<lparr>ls_tick := t\<rparr>) \<and>
    distinct (map vo_id (vr_problems rep)) \<and>
    (\<forall>out. out \<in> set (vr_problems rep) \<longleftrightarrow>
       (\<exists>e p. view (host_codec H) (ls_db s) slug (r_id e) = Some e \<and> r_state e = Cached \<and>
          check_file H (ls_fs s) e = Some p \<and> out = \<lparr>vo_id = r_id e, vo_problem = p, vo_fixed = False\<rparr>)) \<and>
    vr_checked rep = vr_intact rep + of_nat (length (vr_problems rep))"
  by (rule verify_plain [OF assms])

theorem verify_reports_exactly_witness:
  "\<exists>rep t. verify demo_host demo_library demo_slug False demo_state = (Inr rep, demo_state\<lparr>ls_tick := t\<rparr>) \<and>
    vr_checked rep = vr_intact rep + of_nat (length (vr_problems rep))"
  using verify_reports_exactly [OF demo_host_ok demo_state_inv, of demo_library demo_slug] by blast

text \<open>
  C14: A feed lists the cached episodes, all of them and nothing else, newest first.  For a
  configured show that has been synced, \<open>write_feed\<close> produces one item for each cached record
  whose file has a name, in listing order; the guids are distinct; and each enclosure is the
  file of that record under the external base URL, with its recorded length.
\<close>

theorem feed_lists_cached:
  assumes "db_inv (host_codec H) d" "find_show L slug = Inr sc" "storage_show (host_codec H) slug d = Inr (Some rec)"
    "\<forall>segs. url_path_extend (host_url H) segs base \<noteq> None"
  shows "\<exists>feed es. write_feed H L base slug d = Inr feed \<and> storage_episodes (host_codec H) slug d = Inr es \<and>
    list_all2 (\<lambda>it e. \<exists>file.
        Option.bind (r_file_path e) path_file_name = Some file \<and>
        it_guid it = sc_provider sc @ ''/'' @ slug_str slug @ ''/'' @ id_str (r_id e) \<and>
        it_title it = r_title e \<and> r_bytes e = Some (it_enclosure_bytes it) \<and>
        url_path_extend (host_url H) [''media'', slug_str slug, file] base = Some (it_enclosure_url it))
      (fd_items feed)
      (filter (\<lambda>e. r_state e = Cached \<and> Option.bind (r_file_path e) path_file_name \<noteq> None) es) \<and>
    distinct (map it_guid (fd_items feed))"
proof -
  obtain es where es: "storage_episodes (host_codec H) slug d = Inr es"
    using storage_episodes_total [OF assms(1)] by blast
  let ?U = "host_url H"
  let ?named = "\<lambda>e. r_state e = Cached \<and> Option.bind (r_file_path e) path_file_name \<noteq> None"
  let ?item = "\<lambda>it e. \<exists>file. Option.bind (r_file_path e) path_file_name = Some file \<and>
    it_guid it = sc_provider sc @ ''/'' @ slug_str slug @ ''/'' @ id_str (r_id e) \<and>
    it_title it = r_title e \<and> r_bytes e = Some (it_enclosure_bytes it) \<and>
    url_path_extend ?U [''media'', slug_str slug, file] base = Some (it_enclosure_url it)"
  have bytes: "\<exists>b. r_bytes e = Some b" if "e \<in> set es" "r_state e = Cached" for e
    using cached_has_bytes [OF assms(1)] listed_iff_view [OF assms(1) es] that by blast
  have item: "case feed_item ?U base sc slug e of None \<Rightarrow> \<not> ?named e | Some it \<Rightarrow> ?named e \<and> ?item it e"
    if "e \<in> set es" "r_state e = Cached" for e
  proof (cases "Option.bind (r_file_path e) path_file_name")
    case (Some n)
    obtain url where "url_path_extend ?U [''media'', slug_str slug, n] base = Some url" using assms(4) by blast
    with Some bytes [OF that] that(2) show ?thesis by (auto simp: feed_item_def under_def)
  qed (simp add: feed_item_def)
  have "list_all2 ?item (List.map_filter (feed_item ?U base sc slug) (filter (\<lambda>e. r_state e = Cached) l)) (filter ?named l)"
    if "set l \<subseteq> set es" for l
    using that
  proof (induction l)
    case (Cons e l)
    then show ?case
      using item [of e] by (cases "feed_item ?U base sc slug e") (auto simp: List.map_filter_simps)
  qed (simp add: List.map_filter_simps)
  then have items: "list_all2 ?item (fd_items (build_feed ?U base sc slug rec es)) (filter ?named es)"
    by (simp add: build_feed_def Let_def)
  have "map it_guid (fd_items (build_feed ?U base sc slug rec es)) =
      map (\<lambda>e. sc_provider sc @ ''/'' @ slug_str slug @ ''/'' @ id_str (r_id e)) (filter ?named es)"
    using items by (induction rule: list_all2_induct) auto
  moreover have "distinct (map r_id (filter ?named es))"
    by (rule distinct_map_filter [OF listed_distinct [OF assms(1) es]])
  ultimately have "distinct (map it_guid (fd_items (build_feed ?U base sc slug rec es)))"
    by (auto simp: distinct_map inj_on_def id_str_inj)
  with items show ?thesis
    by (auto simp: write_feed_def assms(2,3) es intro!: exI [of _ es])
qed

theorem feed_lists_cached_witness:
  "\<exists>feed es. write_feed demo_host idle_library (''https://me'', [], []) demo_slug idle_db = Inr feed \<and>
    storage_episodes demo_codec demo_slug idle_db = Inr es \<and>
    length (fd_items feed) = length (filter (\<lambda>e. r_state e = Cached \<and> Option.bind (r_file_path e) path_file_name \<noteq> None) es) \<and>
    distinct (map it_guid (fd_items feed))"
proof -
  have "case storage_show demo_codec demo_slug idle_db of Inr (Some r) \<Rightarrow> True | _ \<Rightarrow> False"
    by code_simp
  then obtain rec where rec: "storage_show demo_codec demo_slug idle_db = Inr (Some rec)"
    by (auto split: sum.splits option.splits)
  have codec: "host_codec demo_host = demo_codec" by (simp add: demo_host_def)
  have inv: "db_inv (host_codec demo_host) idle_db" by (simp add: codec idle_db_inv)
  have sc: "find_show idle_library demo_slug = Inr demo_follow"
    by (simp add: find_show_def idle_library_def demo_library_def)
  have "\<forall>segs. url_path_extend (host_url demo_host) segs (''https://me'', [], []) \<noteq> None"
    by (simp add: demo_host_def tuple_urls_def)
  from feed_lists_cached [OF inv sc rec [folded codec] this] show ?thesis
    unfolding codec by (blast dest: list_all2_lengthD)
qed


definition refusing_provider :: "tuple_url provider" where
  "refusing_provider = idle_provider\<lparr>pv_episodes := (\<lambda>t s l e. Inl (Http ''connection refused''))\<rparr>"


end
