(* ===== verification/Intact.thy ===== *)
theory Intact
  imports Library_Facts
begin

text \<open>
  Files stay intact over whole histories.  The record of a cached episode holds the path, the
  size and the hash of its file; the methods of the library write, replace and delete files
  all over the data directory.  This theory states when no method damages the file of another
  episode, and what \<open>verify --fix\<close> leaves behind.

  What has to be assumed is that two ids of one show are never turned into the same file name:
  \<open>media_path\<close> replaces every character that is not safe in a name, and that is not injective.
\<close>

section \<open>Where files live\<close>

definition dir_prefix :: "path \<Rightarrow> path" where
  "dir_prefix p = (if p = [] \<or> last p = CHR ''/'' then p else p @ ''/'')"

lemma path_join_prefix:
  "q \<noteq> [] \<Longrightarrow> hd q \<noteq> CHR ''/'' \<Longrightarrow> path_join p q = dir_prefix p @ q"
  by (cases q) (auto simp: path_join_def dir_prefix_def path_absolute_def starts_with_def)

lemma dir_prefix_name [simp]: "q \<noteq> [] \<Longrightarrow> last q \<noteq> CHR ''/'' \<Longrightarrow> dir_prefix (p @ q) = p @ q @ ''/''"
  by (simp add: dir_prefix_def)

lemma slug_ends:
  assumes "valid_slug slug"
  shows "slug_str slug \<noteq> []" "hd (slug_str slug) \<noteq> CHR ''/''" "last (slug_str slug) \<noteq> CHR ''/''"
proof -
  show "slug_str slug \<noteq> []" using assms by (simp add: valid_slug_def)
  with slug_no_slash [OF assms] show "hd (slug_str slug) \<noteq> CHR ''/''" "last (slug_str slug) \<noteq> CHR ''/''"
    by (metis hd_in_set, metis last_in_set)
qed

lemma sanitized_chars: "c \<in> set (sanitize t) \<Longrightarrow> c \<noteq> CHR ''/'' \<and> c \<noteq> CHR ''.''"
  by (auto simp: sanitize_def ascii_alnum_def char_code_def split: if_splits)

lemma media_path_eq:
  assumes "valid_slug slug"
  shows "media_path U L slug i source =
    dir_prefix (lib_data_dir L) @ ''media/'' @ slug_str slug @ ''/'' @ media_file_name U i source"
proof -
  have "hd (media_file_name U i source) \<noteq> CHR ''/''" "media_file_name U i source \<noteq> []"
    using sanitized_chars [of "hd (sanitize (id_str i))" "id_str i"]
    by (cases "sanitize (id_str i)"; simp add: media_file_name_def)+
  with slug_ends [OF assms] show ?thesis
    by (simp add: media_path_def path_join_prefix)
qed

definition artwork_places :: "'u library \<Rightarrow> path set" where
  "artwork_places L = {p. \<exists>name. p = dir_prefix (lib_data_dir L) @ ''artwork/'' @ name}"

lemma art_dest_place:
  assumes "valid_slug slug"
  shows "art_dest H L slug src \<in> artwork_places L"
proof -
  obtain ext key where e: "art_ext_key (host_url H) src = (ext, key)" by fastforce
  have "hd (slug_str slug @ n) \<noteq> CHR ''/''" for n using slug_ends [OF assms] by simp
  with slug_ends [OF assms] show ?thesis
    by (simp add: art_dest_def e Let_def artwork_places_def path_join_prefix)
qed

lemma artwork_not_media:
  assumes "valid_slug slug" "p \<in> artwork_places L"
  shows "media_path U L slug i source \<noteq> p"
  using assms by (auto simp: media_path_eq artwork_places_def)

lemma takeWhile_until: "c \<notin> set xs \<Longrightarrow> takeWhile (\<lambda>x. x \<noteq> c) (xs @ c # ys) = xs"
  by (induction xs) auto

lemma media_path_inj:
  assumes "media_path U L slug i a = media_path U L slug' j b" "valid_slug slug" "valid_slug slug'"
  shows "slug = slug' \<and> sanitize (id_str i) = sanitize (id_str j)"
proof -
  have eq: "slug_str slug @ CHR ''/'' # media_file_name U i a = slug_str slug' @ CHR ''/'' # media_file_name U j b"
    using assms by (simp add: media_path_eq)
  from arg_cong [OF this, of "takeWhile (\<lambda>x. x \<noteq> CHR ''/'')"] have slugs: "slug_str slug = slug_str slug'"
    by (simp only: takeWhile_until slug_no_slash assms(2,3) not_False_eq_True)
  with eq have "media_file_name U i a = media_file_name U j b" by simp
  then have "sanitize (id_str i) @ CHR ''.'' # extension_for U a = sanitize (id_str j) @ CHR ''.'' # extension_for U b"
    by (simp add: media_file_name_def)
  from arg_cong [OF this, of "takeWhile (\<lambda>x. x \<noteq> CHR ''.'')"] sanitized_chars
  have "sanitize (id_str i) = sanitize (id_str j)" by (auto simp: takeWhile_until)
  with slugs show ?thesis by (simp add: slug_str_inj)
qed

section \<open>The invariant\<close>

definition art_paths :: "db \<Rightarrow> path set" where
  "art_paths d = {p. \<exists>r \<in> set (show_rows d). s_artwork_path r = Some p}"

text \<open>
  Stored ids come from \<open>I\<close>; a cached record names a file at its own place; that file is what the
  record says, but for the records in \<open>D\<close>; artwork lives in its own directory.
\<close>

definition record_sound :: "'u host \<Rightarrow> 'u library \<Rightarrow> episode_id set \<Rightarrow> (show_slug \<times> episode_id) set
    \<Rightarrow> fs \<Rightarrow> show_slug \<Rightarrow> episode_id \<Rightarrow> episode_record \<Rightarrow> bool" where
  "record_sound H L I D F slug i e \<longleftrightarrow>
     i \<in> I \<and>
     (r_state e = Cached \<longrightarrow>
        (\<exists>source. r_file_path e = Some (media_path (host_url H) L slug i source)) \<and>
        ((slug, i) \<notin> D \<longrightarrow> check_file H F e = None))"

definition media_sound :: "'u host \<Rightarrow> 'u library \<Rightarrow> episode_id set \<Rightarrow> (show_slug \<times> episode_id) set
    \<Rightarrow> lib_state \<Rightarrow> bool" where
  "media_sound H L I D s \<longleftrightarrow>
     db_inv (host_codec H) (ls_db s) \<and> disk_quiet (ls_fs s) \<and> art_paths (ls_db s) \<subseteq> artwork_places L \<and>
     (\<forall>slug i e. view (host_codec H) (ls_db s) slug i = Some e \<longrightarrow> record_sound H L I D (ls_fs s) slug i e)"

text \<open>No two ids of \<open>I\<close> share a file name.\<close>

definition names_apart :: "episode_id set \<Rightarrow> bool" where
  "names_apart I \<longleftrightarrow> inj_on (\<lambda>i. sanitize (id_str i)) I"

lemma soundD:
  assumes "media_sound H L I D s"
  shows "db_inv (host_codec H) (ls_db s)" "disk_quiet (ls_fs s)" "art_paths (ls_db s) \<subseteq> artwork_places L"
    "view (host_codec H) (ls_db s) slug i = Some e \<Longrightarrow> record_sound H L I D (ls_fs s) slug i e"
  using assms by (simp_all add: media_sound_def)

lemma view_valid_slug:
  assumes "db_inv X d" "view X d slug i = Some e"
  shows "valid_slug slug"
proof -
  from assms(2) obtain r where r: "List.find (is_episode slug i) (episode_rows d) = Some r"
    by (auto simp: view_def bind_eq_Some_conv)
  from find_Some_mem [OF r] assms(1) have "valid_slug (ShowSlug (slug_str slug))"
    by (auto simp: db_inv_def row_wf_def is_episode_def)
  then show ?thesis by simp
qed

lemma sound_places_apart:
  assumes "media_sound H L I D s" "names_apart I" "i \<in> I" "valid_slug slug"
    "view (host_codec H) (ls_db s) slug' j = Some e" "r_state e = Cached" "(slug', j) \<noteq> (slug, i)"
  shows "r_file_path e \<noteq> Some (media_path (host_url H) L slug i source)"
proof
  assume "r_file_path e = Some (media_path (host_url H) L slug i source)"
  moreover from soundD(4) [OF assms(1,5)] assms(6) obtain src
    where "r_file_path e = Some (media_path (host_url H) L slug' j src)" and j: "j \<in> I"
    by (auto simp: record_sound_def)
  ultimately have "slug' = slug \<and> sanitize (id_str j) = sanitize (id_str i)"
    using media_path_inj [of "host_url H" L slug' j src slug i source] assms(4)
      view_valid_slug [OF soundD(1) [OF assms(1)] assms(5)] by simp
  with assms(2,3,7) j show False by (auto simp: names_apart_def dest: inj_onD)
qed

lemma record_sound_weaken: "record_sound H L I D F slug i e \<Longrightarrow> D \<subseteq> E \<Longrightarrow> record_sound H L I E F slug i e"
  by (auto simp: record_sound_def)

lemma sound_weaken: "media_sound H L I D s \<Longrightarrow> D \<subseteq> E \<Longrightarrow> media_sound H L I E s"
  using record_sound_weaken by (fastforce simp: media_sound_def)

lemma sound_simps [simp]:
  "media_sound H L I D (tick s) = media_sound H L I D s" "media_sound H L I D (emit e s) = media_sound H L I D s"
  by (simp_all add: media_sound_def)

section \<open>Changes of the disk\<close>

lemma disk_quiet_simps [simp]:
  "disk_quiet (fs_write p c F) = disk_quiet F" "disk_quiet (remove_files ps F) = disk_quiet F"
  by (simp_all add: disk_quiet_def fs_write_def remove_files_def)

lemma check_file_cong:
  assumes "disk_quiet F" "disk_quiet F'" "\<And>p. r_file_path e = Some p \<Longrightarrow> fs_files F' p = fs_files F p"
    "r_file_path e' = r_file_path e" "r_bytes e' = r_bytes e" "r_blake3 e' = r_blake3 e"
  shows "check_file H F' e' = check_file H F e"
proof (cases "r_file_path e")
  case (Some p)
  with assms have same: "fs_metadata_len F' p = fs_metadata_len F p" "fs_read F' p = fs_read F p"
    by (simp_all add: disk_quiet_def fs_metadata_len_def fs_read_def)
  then have hash: "blake3_of_file (host_hash H) F' p = blake3_of_file (host_hash H) F p"
    by (simp add: blake3_of_file_def)
  show ?thesis unfolding check_file_def assms(4-6) Some option.case same hash ..
qed (simp add: check_file_def assms(4))

lemma record_sound_cong:
  assumes "record_sound H L I D F slug i e" "disk_quiet F" "disk_quiet F'"
    "\<And>p. r_state e = Cached \<Longrightarrow> r_file_path e = Some p \<Longrightarrow> fs_files F' p = fs_files F p"
    "(slug, i) \<in> D \<Longrightarrow> (slug, i) \<in> E"
  shows "record_sound H L I E F' slug i e"
  using assms check_file_cong [OF assms(2,3), of e e H] by (auto simp: record_sound_def)

text \<open>Files away from the media of a library come and go.\<close>

lemma sound_artwork_change:
  assumes "media_sound H L I D s" "disk_quiet F'"
    "\<And>p. p \<notin> artwork_places L \<Longrightarrow> fs_files F' p = fs_files (ls_fs s) p"
  shows "media_sound H L I D (s\<lparr>ls_fs := F'\<rparr>)"
proof -
  note inv = soundD [OF assms(1)]
  have "record_sound H L I D F' slug i e" if v: "view (host_codec H) (ls_db s) slug i = Some e" for slug i e
  proof (rule record_sound_cong [OF inv(4) [OF v] inv(2) assms(2)])
    fix p assume "r_state e = Cached" "r_file_path e = Some p"
    with inv(4) [OF v] obtain source where "p = media_path (host_url H) L slug i source"
      by (auto simp: record_sound_def)
    with artwork_not_media [OF view_valid_slug [OF inv(1) v]] have "p \<notin> artwork_places L" by blast
    then show "fs_files F' p = fs_files (ls_fs s) p" by (rule assms(3))
  qed
  with inv assms(2) show ?thesis by (simp add: media_sound_def)
qed

section \<open>Downloads\<close>

lemma set_at_Some: "set_at show i (Some x) v s j = Some e \<longleftrightarrow>
    (if s = show \<and> j = i then e = x else v s j = Some e)"
  by (auto simp: set_at_def)


lemma file_cached_record:
  assumes "file_cached H slug i dest e s s'" "disk_quiet (ls_fs s)" "replies_bounded H"
  shows "\<exists>r c. view (host_codec H) (ls_db s') = set_at slug i (Some r) (view (host_codec H) (ls_db s)) \<and>
    r_state r = Cached \<and> r_file_path r = Some dest \<and> ls_fs s' = fs_write dest c (ls_fs s) \<and>
    check_file H (ls_fs s') r = None"
proof -
  obtain r where r: "view (host_codec H) (ls_db s') slug i = Some r" "r_state r = Cached"
    "r_file_path r = Some dest" "check_file H (ls_fs s') r = None"
    using file_cached_intact [OF assms] by blast
  moreover obtain x c where "view (host_codec H) (ls_db s') = set_at slug i (Some x) (view (host_codec H) (ls_db s))"
    "ls_fs s' = fs_write dest c (ls_fs s)"
    using assms(1) by (auto simp: file_cached_def Let_def)
  ultimately show ?thesis by (intro exI [of _ r] exI [of _ c]) auto
qed

text \<open>Downloads leave the table of shows alone.\<close>

lemma write_progress_shows [simp]: "show_rows (ls_db (write_progress H slug i ws s)) = show_rows (ls_db s)"
  by (induction H slug i ws s rule: write_progress.induct) (simp_all add: set_progress_def)

lemma show_rows_andThen:
  assumes "show_rows (ls_db (snd rs)) = S" "\<And>a s. rs = (Inr a, s) \<Longrightarrow> show_rows (ls_db s) = S \<Longrightarrow> show_rows (ls_db (snd (f a s))) = S"
  shows "show_rows (ls_db (snd (andThen rs f))) = S"
  using assms by (cases rs; cases "fst rs") auto

lemma transfer_file_shows [simp]:
  "show_rows (ls_db (snd (transfer_file H slug ep source dest s))) = show_rows (ls_db s)"
  by (simp add: transfer_file_def Let_def split: prod.split)

lemma marked_shows [simp]:
  "show_rows (after d (mark_downloading slug i d)) = show_rows d"
  "show_rows (after d (mark_cached X t slug i f d)) = show_rows d"
  "show_rows (after d (mark_failed slug i c d)) = show_rows d"
  "show_rows (after d (mark_pruned slug i d)) = show_rows d"
  by (simp_all add: mark_downloading_def mark_cached_def mark_failed_def mark_pruned_def transition_shows)

lemma try_download_shows:
  "show_rows (ls_db (snd (try_download H L pv slug ep s))) = show_rows (ls_db s)"
  unfolding try_download_def Let_def
  by (intro show_rows_andThen) (auto simp: record_cached_def Let_def)

lemma download_episode_shows [simp]:
  "show_rows (ls_db (snd (download_episode H L pv slug ep s))) = show_rows (ls_db s)"
  using try_download_shows [of H L pv slug ep s]
  by (auto simp: download_episode_def Let_def split: prod.split sum.split)

lemma download_episode_disk:
  assumes "host_ok H" "provider_ok pv" "db_inv (host_codec H) (ls_db s)" "disk_quiet (ls_fs s)"
  shows "disk_quiet (ls_fs (snd (download_episode H L pv slug ep s)))"
proof -
  obtain success s' where run: "download_episode H L pv slug ep s = (success, s')" by fastforce
  from download_episode_effect [OF assms(1-3) run] assms(4) show ?thesis
    by (cases success) (auto simp: run stored_download_def file_cached_def Let_def)
qed

text \<open>
  A download, whatever comes of it, leaves the record of its episode sound and the records and
  files of all other episodes as they were.
\<close>

lemma sound_download:
  assumes "host_ok H" "provider_ok pv" "replies_bounded H" "names_apart I" "media_sound H L I D s"
    "download_episode H L pv slug ep s = (success, s')"
  shows "media_sound H L I (D - {(slug, r_id ep)}) s'"
proof -
  let ?X = "host_codec H" and ?i = "r_id ep" and ?E = "D - {(slug, r_id ep)}"
  note inv = soundD [OF assms(5)]
  note effect = download_episode_effect [OF assms(1,2) inv(1) assms(6)]
  have "record_sound H L I ?E (ls_fs s') sl j e" if v': "view ?X (ls_db s') sl j = Some e" for sl j e
  proof (cases success)
    case True
    with effect obtain e0 source where src: "view ?X (ls_db s) slug ?i = Some e0"
      "file_cached H slug ?i (media_path (host_url H) L slug ?i source) e0 s s'"
      by (auto simp: stored_download_def)
    let ?dest = "media_path (host_url H) L slug ?i source"
    have i: "?i \<in> I" "valid_slug slug"
      using inv(4) [OF src(1)] view_valid_slug [OF inv(1) src(1)] by (simp_all add: record_sound_def)
    obtain r c where r: "view ?X (ls_db s') = set_at slug ?i (Some r) (view ?X (ls_db s))"
      "r_file_path r = Some ?dest" "ls_fs s' = fs_write ?dest c (ls_fs s)" "check_file H (ls_fs s') r = None"
      using file_cached_record [OF src(2) inv(2) assms(3)] by blast
    show ?thesis
    proof (cases "sl = slug \<and> j = ?i")
      case True
      with v' r i show ?thesis by (auto simp: record_sound_def)
    next
      case False
      with v' r(1) have v: "view ?X (ls_db s) sl j = Some e" by (simp add: set_at_def split: if_splits)
      show ?thesis
      proof (rule record_sound_cong [OF inv(4) [OF v] inv(2)])
        fix p assume "r_state e = Cached" "r_file_path e = Some p"
        with sound_places_apart [OF assms(5,4) i v] False show "fs_files (ls_fs s') p = fs_files (ls_fs s) p"
          by (auto simp: r(3) fs_write_def)
      qed (use inv(2) False in \<open>auto simp: r(3)\<close>)
    qed
  next
    case False
    with effect obtain c where fail: "ls_fs s' = ls_fs s"
      "view ?X (ls_db s') = (case view ?X (ls_db s) slug ?i of None \<Rightarrow> view ?X (ls_db s)
         | Some e \<Rightarrow> set_at slug ?i (Some (spec_failed c e)) (view ?X (ls_db s)))"
      by auto
    show ?thesis
    proof (cases "sl = slug \<and> j = ?i")
      case True
      with v' fail(2) obtain e0 where "view ?X (ls_db s) slug ?i = Some e0" "e = spec_failed c e0"
        by (auto split: option.splits)
      with True inv(4) show ?thesis by (auto simp: record_sound_def spec_failed_def no_progress_def)
    next
      case False
      with v' fail(2) have v: "view ?X (ls_db s) sl j = Some e"
        by (auto simp: set_at_def split: option.splits if_splits)
      from inv(4) [OF v] False show ?thesis by (auto simp: record_sound_def fail(1))
    qed
  qed
  moreover have "disk_quiet (ls_fs s')"
    using download_episode_disk [OF assms(1,2) inv(1,2), of L slug ep] assms(6) by simp
  moreover have "art_paths (ls_db s') \<subseteq> artwork_places L"
    using inv(3) download_episode_shows [of H L pv slug ep s] assms(6) by (simp add: art_paths_def)
  ultimately show ?thesis using effect by (simp add: media_sound_def)
qed


lemma sound_download_all:
  assumes "host_ok H" "provider_ok pv" "replies_bounded H" "names_apart I" "media_sound H L I D s"
  shows "media_sound H L I D (snd (download_all H L pv slug eps n s))"
  using assms(5)
proof (induction eps arbitrary: n s)
  case (Cons ep eps)
  obtain success s1 where run: "download_episode H L pv slug ep s = (success, s1)" by fastforce
  from sound_download [OF assms(1-4) Cons.prems run] have "media_sound H L I D s1"
    by (rule sound_weaken) blast
  with Cons.IH show ?case by (simp add: run)
qed simp

section \<open>Retention\<close>

lemma prune_loop_shows [simp]:
  "show_rows (ls_db (snd (prune_loop slug records ids n b s))) = show_rows (ls_db s)"
proof (induction ids arbitrary: n b s)
  case (Cons i ids)
  have *: "show_rows (ls_db (snd (andThen (stored (mark_pruned slug i (ls_db t)) t)
      (\<lambda>_ s. prune_loop slug records ids m k s)))) = show_rows (ls_db t)" for t m k
    by (intro show_rows_andThen) (simp_all add: Cons)
  show ?case
    by (auto simp: Let_def Cons * split: option.split prod.split sum.split io_error.split)
qed simp

lemma apply_retention_shows [simp]:
  "show_rows (ls_db (snd (apply_retention H slug policy s))) = show_rows (ls_db s)"
  unfolding apply_retention_def
  by (intro show_rows_andThen) (auto split: prod.splits)

text \<open>Pruning deletes the files of tombstones and of no record that stays cached.\<close>

lemma sound_prune_view:
  assumes "names_apart I" "media_sound H L I D s"
    "\<And>i. i \<in> ids \<Longrightarrow> \<exists>e. view (host_codec H) (ls_db s) slug i = Some e \<and> r_state e = Cached"
    "db_inv (host_codec H) (ls_db s')" "show_rows (ls_db s') = show_rows (ls_db s)"
    "view (host_codec H) (ls_db s') = prune_view slug (ls_fs s) ids (view (host_codec H) (ls_db s))"
    "ls_fs s' = remove_files (paths_of (view (host_codec H) (ls_db s)) slug ids) (ls_fs s)"
  shows "media_sound H L I D s'"
proof -
  let ?X = "host_codec H" and ?v = "view (host_codec H) (ls_db s)"
  note inv = soundD [OF assms(2)]
  have apart: "p \<notin> paths_of ?v slug ids \<or> fs_remove_error (ls_fs s) p \<noteq> None"
    if v: "?v sl j = Some e" "r_state e = Cached" "r_file_path e = Some p"
      and live: "\<not> (sl = slug \<and> j \<in> ids) \<or> \<not> removable (ls_fs s) e" for sl j e p
  proof (rule ccontr)
    assume "\<not> ?thesis"
    then obtain i e0 where i: "i \<in> ids" "?v slug i = Some e0" "r_file_path e0 = Some p" "fs_remove_error (ls_fs s) p = None"
      by (auto simp: paths_of_def)
    from assms(3) [OF i(1)] i(2) have "r_state e0 = Cached" by auto
    with inv(4) [OF i(2)] i(3) obtain source where "p = media_path (host_url H) L slug i source" "i \<in> I"
      by (auto simp: record_sound_def)
    with sound_places_apart [OF assms(2,1) _ view_valid_slug [OF inv(1) i(2)] v(1,2)] v(3)
    have "sl = slug \<and> j = i" by blast
    with live i v(3) show False by (auto simp: removable_def)
  qed
  have "record_sound H L I D (ls_fs s') sl j e'" if v': "view ?X (ls_db s') sl j = Some e'" for sl j e'
  proof -
    from v' obtain e where v: "?v sl j = Some e" by (auto simp: assms(6) prune_view_def split: if_splits)
    with v' have "e' = (if sl = slug \<and> j \<in> ids \<and> removable (ls_fs s) e then spec_pruned e else e)"
      by (auto simp: assms(6) prune_view_def split: if_splits)
    note e = v this
    show ?thesis
    proof (cases "sl = slug \<and> j \<in> ids \<and> removable (ls_fs s) e")
      case True
      with e inv(4) [OF e(1)] show ?thesis by (auto simp: record_sound_def spec_pruned_def)
    next
      case False
      have "record_sound H L I D (ls_fs s') sl j e"
      proof (rule record_sound_cong [OF inv(4) [OF e(1)] inv(2)])
        fix p assume "r_state e = Cached" "r_file_path e = Some p"
        from apart [OF e(1) this] False show "fs_files (ls_fs s') p = fs_files (ls_fs s) p"
          by (auto simp: assms(7) remove_files_def)
      qed (use inv(2) in \<open>simp_all add: assms(7)\<close>)
      with False show ?thesis by (simp only: e(2) if_False)
    qed
  qed
  moreover have "art_paths (ls_db s') \<subseteq> artwork_places L"
    using inv(3) assms(5) by (simp add: art_paths_def)
  ultimately show ?thesis using assms(4,7) inv(2) by (simp add: media_sound_def)
qed

lemma sound_apply_retention:
  assumes "names_apart I" "media_sound H L I D s"
  shows "media_sound H L I D (snd (apply_retention H slug policy s))"
proof -
  note inv = soundD [OF assms(2)]
  obtain records where rec: "storage_episodes (host_codec H) slug (ls_db s) = Inr records"
    using storage_episodes_total [OF inv(1)] by blast
  obtain n s' where s': "apply_retention H slug policy s = (Inr n, s')" "db_inv (host_codec H) (ls_db s')"
    "view (host_codec H) (ls_db s') =
       prune_view slug (ls_fs s) (set (doomed_ids policy records)) (view (host_codec H) (ls_db s))"
    "ls_fs s' = remove_files (paths_of (view (host_codec H) (ls_db s)) slug (set (doomed_ids policy records))) (ls_fs s)"
    using apply_retention_effect [OF inv(1) rec, of policy] by auto
  from sound_prune_view [OF assms _ s'(2) _ s'(3,4)] doomed_cached(2) [OF inv(1) rec]
    apply_retention_shows [of H slug policy s] s'(1)
  show ?thesis by fastforce
qed


section \<open>The rest of a sync\<close>

text \<open>Storage operations that hand no file to a record.\<close>

definition no_new_file :: "codec \<Rightarrow> episode_id set \<Rightarrow> db \<Rightarrow> db \<Rightarrow> bool" where
  "no_new_file X I d d' \<longleftrightarrow>
     (\<forall>slug i e'. view X d' slug i = Some e' \<longrightarrow>
        (\<exists>e. view X d slug i = Some e \<and>
           (r_state e' = Cached \<longrightarrow> r_state e = Cached \<and> r_file_path e' = r_file_path e \<and>
              r_bytes e' = r_bytes e \<and> r_blake3 e' = r_blake3 e)) \<or>
        i \<in> I \<and> r_state e' \<noteq> Cached)"

lemma sound_database_change:
  assumes "media_sound H L I D s" "db_inv (host_codec H) d'" "no_new_file (host_codec H) I (ls_db s) d'"
    "art_paths d' \<subseteq> artwork_places L"
  shows "media_sound H L I D (s\<lparr>ls_db := d'\<rparr>)"
proof -
  note inv = soundD [OF assms(1)]
  have "record_sound H L I D (ls_fs s) slug i e'" if v': "view (host_codec H) d' slug i = Some e'" for slug i e'
  proof -
    from assms(3) v' consider (old) e where "view (host_codec H) (ls_db s) slug i = Some e"
        "r_state e' = Cached \<Longrightarrow> r_state e = Cached \<and> r_file_path e' = r_file_path e \<and>
           r_bytes e' = r_bytes e \<and> r_blake3 e' = r_blake3 e"
      | (new) "i \<in> I" "r_state e' \<noteq> Cached"
      unfolding no_new_file_def by blast
    then show ?thesis
    proof cases
      case old
      with inv(4) [OF old(1)] check_file_cong [OF inv(2,2), of e e' H] show ?thesis
        by (auto simp: record_sound_def)
    qed (simp add: record_sound_def)
  qed
  with assms(2,4) inv show ?thesis by (simp add: media_sound_def)
qed

lemma no_new_file_same [simp]: "view X d' = view X d \<Longrightarrow> no_new_file X I d d'"
  by (auto simp: no_new_file_def)

lemma sound_stored:
  assumes "media_sound H L I D s" "db_inv (host_codec H) (after (ls_db s) r)"
    "no_new_file (host_codec H) I (ls_db s) (after (ls_db s) r)" "art_paths (after (ls_db s) r) \<subseteq> artwork_places L"
  shows "media_sound H L I D (snd (stored r s))"
proof -
  have "ls_db (snd (stored r s)) = after (ls_db s) r" "ls_fs (snd (stored r s)) = ls_fs s" by simp_all
  with sound_database_change [OF assms] show ?thesis by (simp add: media_sound_def)
qed

lemma sound_andThen:
  assumes "media_sound H L I D (snd rs)"
    "\<And>a s. rs = (Inr a, s) \<Longrightarrow> media_sound H L I D s \<Longrightarrow> media_sound H L I D (snd (f a s))"
  shows "media_sound H L I D (snd (andThen rs f))"
  using assms by (cases rs; cases "fst rs") auto


lemma art_paths_same: "show_rows d' = show_rows d \<Longrightarrow> art_paths d' = art_paths d"
  by (simp add: art_paths_def)

lemma art_paths_ops:
  "art_paths (after d (record_poll X t slug err d)) \<subseteq> art_paths d"
  "art_paths (after d (set_episodes_etag slug etag d)) \<subseteq> art_paths d"
  "art_paths (after d (upsert_show meta provider d)) \<subseteq> art_paths d"
  "art_paths (after d (set_artwork_path slug p d)) \<subseteq> insert p (art_paths d)"
  by (auto simp: art_paths_def record_poll_def set_episodes_etag_def upsert_show_def set_artwork_path_def
      set_update_where new_show_row_def split: if_splits)

lemma view_show_ops [simp]:
  "view X (after d (set_episodes_etag slug etag d)) = view X d"
  "view X (after d (upsert_show meta provider d)) = view X d"
  "view X (after d (set_artwork_path slug p d)) = view X d"
  by (simp_all add: view_def set_episodes_etag_def upsert_show_def set_artwork_path_def)

lemma reset_no_new_file:
  assumes "db_inv X d"
  shows "no_new_file X I d (after d (reset_stale_downloads X now slug secs d))"
proof -
  have "\<exists>e. view X d s i = Some e \<and>
      (r_state e' = Cached \<longrightarrow> r_state e = Cached \<and> r_file_path e' = r_file_path e \<and>
         r_bytes e' = r_bytes e \<and> r_blake3 e' = r_blake3 e)"
    if v': "view X (after d (reset_stale_downloads X now slug secs d)) s i = Some e'" for s i e'
  proof -
    from v' obtain e where "view X d s i = Some e" "e' = e \<or> (\<exists>cut. e' = spec_heal X cut e)"
      by (auto simp: view_after [OF reset_stale_refines [OF assms]] split: if_splits)
    then show ?thesis by (auto simp: spec_heal_def spec_failed_def no_progress_def split: if_splits)
  qed
  then show ?thesis unfolding no_new_file_def by blast
qed

lemma discover_no_new_file:
  assumes "codec_ok X" "db_inv X d" "valid_slug show" "\<forall>m \<in> set ms. valid_id (em_id m) \<and> em_id m \<in> I"
  shows "no_new_file X I d (after d (discover X clk show ms d))"
proof (cases "list_ex (is_show show) (show_rows d)")
  case True
  have ids: "\<forall>m \<in> set ms. valid_id (em_id m)" using assms(4) by simp
  from discover_refines [OF assms(1,3) True assms(2) ids, of clk]
  have v: "view X (after d (discover X clk show ms d)) = spec_discover clk 0 show ms (view X d)" by auto
  have "(\<exists>e. view X d slug i = Some e \<and>
           (r_state e' = Cached \<longrightarrow> r_state e = Cached \<and> r_file_path e' = r_file_path e \<and>
              r_bytes e' = r_bytes e \<and> r_blake3 e' = r_blake3 e)) \<or>
        i \<in> I \<and> r_state e' \<noteq> Cached"
    if e': "spec_discover clk 0 show ms (view X d) slug i = Some e'" for slug i e'
  proof (cases "view X d slug i")
    case (Some e)
    with spec_discover_known [of "view X d" slug i e clk 0 "show" ms] e' show ?thesis by (auto simp: lifecycle_def)
  next
    case None
    then have listed: "slug = show" "i \<in> em_id ` set ms"
      using spec_discover_other [of slug "show" i ms clk 0 "view X d"] e' by auto
    with spec_discover_new [of "view X d" "show" i clk 0 ms e'] None e' assms(4) show ?thesis by auto
  qed
  then show ?thesis by (simp add: no_new_file_def v)
next
  case False
  then show ?thesis
    using discover_unregistered [OF assms(2) False, of ms clk] by (cases "ms = []") (auto simp: discover_def)
qed

lemma discover_shows [simp]: "show_rows (after d (discover X clk show ms d)) = show_rows d"
  by (rule after_shows) (auto simp: discover_def dest: discover_loop_shows)

text \<open>A provider whose listings stay within \<open>I\<close>.\<close>

definition lists_within :: "episode_id set \<Rightarrow> 'u provider \<Rightarrow> bool" where
  "lists_within I pv \<longleftrightarrow>
     (\<forall>t slug limit etag es tag. pv_episodes pv t slug limit etag = Inr (Modified es tag) \<longrightarrow> em_id ` set es \<subseteq> I)"

lemma lists_withinD:
  "lists_within I pv \<Longrightarrow> pv_episodes pv t slug limit etag = Inr (Modified es tag) \<Longrightarrow> m \<in> set es \<Longrightarrow> em_id m \<in> I"
  unfolding lists_within_def by blast

lemma sound_record_poll:
  assumes "host_ok H" "media_sound H L I D s"
  shows "media_sound H L I D (snd (stored (record_poll (host_codec H) t slug err (ls_db s)) s))"
proof (rule sound_stored [OF assms(2)])
  show "db_inv (host_codec H) (after (ls_db s) (record_poll (host_codec H) t slug err (ls_db s)))"
    using record_poll_inv [of "host_codec H" "ls_db s" t slug err] soundD(1) [OF assms(2)] assms(1)
    by (auto simp: host_ok_def intro: after_inv)
  show "art_paths (after (ls_db s) (record_poll (host_codec H) t slug err (ls_db s))) \<subseteq> artwork_places L"
    using art_paths_ops(1) soundD(3) [OF assms(2)] by (rule subset_trans)
qed simp

lemma sound_fail_poll:
  assumes "host_ok H" "media_sound H L I D s"
  shows "media_sound H L I D (snd (fail_poll H L slug err s))"
  unfolding fail_poll_def poll_failed_def
  by (intro sound_andThen) (use sound_record_poll [OF assms] in \<open>auto simp: Let_def split: provider_error.split\<close>)

lemma art_fetch_disk:
  assumes "art_fetch H dest src s = (b, s')"
  shows "ls_db s' = ls_db s \<and> (ls_fs s' = ls_fs s \<or> (\<exists>c. ls_fs s' = fs_write dest c (ls_fs s)))"
proof (cases src)
  case (ArtFetch url)
  obtain result F calls n where f: "fetch (host_url H) (host_hash H) (host_net H (ls_tick s))
      \<lparr>as_url = url, as_mime = None, as_bytes = None\<rparr> dest (ls_fs s) = (result, F, calls, n)"
    using prod_cases4 by blast
  have "F = ls_fs s \<or> (\<exists>c. F = fs_write dest c (ls_fs s))"
  proof (cases result)
    case (Inl e)
    with fetch_failed [of "host_url H"] f show ?thesis by blast
  next
    case (Inr got)
    with fetch_delivered [of "host_url H"] f show ?thesis by (fastforce simp: delivered_def)
  qed
  with f assms ArtFetch show ?thesis by auto
next
  case (ArtCopy p)
  with assms show ?thesis by (auto split: option.splits sum.splits)
qed


lemma sound_art_fetch:
  assumes "media_sound H L I D s" "dest \<in> artwork_places L" "art_fetch H dest src s = (b, s')"
  shows "media_sound H L I D s'"
proof -
  from art_fetch_disk [OF assms(3)] have "disk_quiet (ls_fs s')"
    "p \<notin> artwork_places L \<Longrightarrow> fs_files (ls_fs s') p = fs_files (ls_fs s) p" for p
    using soundD(2) [OF assms(1)] assms(2) by (auto, auto simp: fs_write_def)
  from sound_artwork_change [OF assms(1) this] have "media_sound H L I D (s\<lparr>ls_fs := ls_fs s'\<rparr>)" .
  with art_fetch_disk [OF assms(3)] show ?thesis by (simp add: media_sound_def)
qed

lemma sound_stored_artwork:
  assumes "media_sound H L I D s" "p \<in> artwork_places L"
  shows "media_sound H L I D (snd (stored (set_artwork_path slug p (ls_db s)) s))"
proof (rule sound_stored [OF assms(1)])
  show "db_inv (host_codec H) (after (ls_db s) (set_artwork_path slug p (ls_db s)))"
    using set_artwork_path_inv [of "host_codec H" "ls_db s" slug p] soundD(1) [OF assms(1)]
    by (auto intro: after_inv)
  show "art_paths (after (ls_db s) (set_artwork_path slug p (ls_db s))) \<subseteq> artwork_places L"
    using art_paths_ops(4) [of "ls_db s" slug p] soundD(3) [OF assms(1)] assms(2) by blast
qed simp

lemma existing_artwork:
  assumes "storage_show X slug d = Inr found" "Option.bind found rs_artwork_path = Some p"
  shows "p \<in> art_paths d"
proof -
  from assms obtain r sr where r: "List.find (is_show slug) (show_rows d) = Some r" "decode_show X r = Inr sr"
    "rs_artwork_path sr = Some p"
    by (auto simp: storage_show_def map_res_Inr_iff split: option.splits)
  from r(2,3) have "s_artwork_path r = Some p" by (auto simp: decode_show_def bind_res_Inr_iff)
  with find_Some_mem [OF r(1)] show ?thesis by (auto simp: art_paths_def)
qed

lemma sound_cache_artwork:
  assumes "valid_slug slug" "media_sound H L I D s"
  shows "media_sound H L I D (cache_artwork H L sc meta slug s)"
proof (cases "storage_show (host_codec H) slug (ls_db s)")
  case (Inr found)
  show ?thesis
  proof (cases "pick_art_source sc meta")
    case None
    with Inr assms show ?thesis by (simp add: cache_artwork_def Let_def)
  next
    case (Some src)
    let ?dest = "art_dest H L slug src" and ?existing = "Option.bind found rs_artwork_path"
    note place = art_dest_place [OF assms(1), of H L src]
    obtain b s1 where f: "art_fetch H ?dest src (tick s) = (b, s1)" by fastforce
    have s1: "media_sound H L I D s1" using sound_art_fetch [OF _ place f] assms(2) by simp
    obtain x s2 where m: "stored (set_artwork_path slug ?dest (ls_db s1)) s1 = (x, s2)" by fastforce
    have s2: "media_sound H L I D s2" using sound_stored_artwork [OF s1 place, of slug] m by simp
    have gone: "media_sound H L I D (s2\<lparr>ls_fs := snd (fs_remove old (ls_fs s2))\<rparr>)" if "?existing = Some old" for old
    proof (rule sound_artwork_change [OF s2])
      have "old \<in> artwork_places L"
        using existing_artwork [OF Inr that] soundD(3) [OF assms(2)] by blast
      then show "fs_files (snd (fs_remove old (ls_fs s2))) p = fs_files (ls_fs s2) p" if "p \<notin> artwork_places L" for p
        using that by (auto simp: fs_remove_eq remove_files_def)
    qed (use soundD(2) [OF s2] in \<open>simp add: fs_remove_eq\<close>)
    show ?thesis
      using assms(2) s1 s2 gone
      by (auto simp: cache_artwork_def Inr Some Let_def f m filter_opt_def split: bool.split sum.split option.split)
  qed
qed (use assms in \<open>simp add: cache_artwork_def\<close>)

lemma sound_fold_emit [simp]: "media_sound H L I D (fold (\<lambda>x. emit (g x)) xs s) = media_sound H L I D s"
  by (induction xs arbitrary: s) simp_all

lemma sound_record_listing:
  assumes "host_ok H" "valid_slug slug" "sm_slug meta = slug" "\<forall>m \<in> set es. valid_id (em_id m) \<and> em_id m \<in> I"
    "media_sound H L I D s"
  shows "media_sound H L I D (snd (record_listing H L sc slug es etag meta s))"
proof -
  let ?X = "host_codec H"
  have codec: "codec_ok ?X" and ids: "\<forall>m \<in> set es. valid_id (em_id m)"
    using assms(1,4) by (simp_all add: host_ok_def)
  have upsert: "media_sound H L I D (snd (stored (upsert_show meta provider (ls_db t)) t))"
    if t: "media_sound H L I D t" for t :: lib_state and provider
  proof (rule sound_stored [OF t])
    show "db_inv ?X (after (ls_db t) (upsert_show meta provider (ls_db t)))"
      using upsert_show_inv [OF soundD(1) [OF t], of meta provider] soundD(1) [OF t] assms(2,3)
      by (auto intro!: after_inv)
    show "art_paths (after (ls_db t) (upsert_show meta provider (ls_db t))) \<subseteq> artwork_places L"
      using art_paths_ops(3) soundD(3) [OF t] by (rule subset_trans)
  qed simp
  have etag: "media_sound H L I D (snd (stored (set_episodes_etag slug etag d) t))"
    if t: "media_sound H L I D t" and d: "ls_db t = d" for t d
    unfolding d [symmetric]
  proof (rule sound_stored [OF t])
    show "db_inv ?X (after (ls_db t) (set_episodes_etag slug etag (ls_db t)))"
      using set_episodes_etag_inv [OF soundD(1) [OF t], of slug etag] soundD(1) [OF t]
      by (auto intro!: after_inv)
    show "art_paths (after (ls_db t) (set_episodes_etag slug etag (ls_db t))) \<subseteq> artwork_places L"
      using art_paths_ops(2) soundD(3) [OF t] by (rule subset_trans)
  qed simp
  have disc: "media_sound H L I D (snd (stored (discover ?X clk slug es (ls_db t)) t))"
    if t: "media_sound H L I D t" for t clk
  proof (rule sound_stored [OF t])
    show "db_inv ?X (after (ls_db t) (discover ?X clk slug es (ls_db t)))"
      using discover_inv [OF codec assms(2) ids soundD(1) [OF t]] soundD(1) [OF t] by (auto intro: after_inv)
    show "no_new_file ?X I (ls_db t) (after (ls_db t) (discover ?X clk slug es (ls_db t)))"
      by (rule discover_no_new_file [OF codec soundD(1) [OF t] assms(2,4)])
    show "art_paths (after (ls_db t) (discover ?X clk slug es (ls_db t))) \<subseteq> artwork_places L"
      using soundD(3) [OF t] by (simp only: art_paths_same [OF discover_shows])
  qed
  show ?thesis
    unfolding record_listing_def Let_def
    by (intro sound_andThen)
      (auto simp: assms(5) upsert etag disc sound_cache_artwork [OF assms(2)])
qed


lemma sound_take_listing:
  assumes "host_ok H" "provider_ok pv" "valid_slug slug" "media_sound H L I D s"
    "\<forall>es tag. listing = Modified es tag \<longrightarrow> (\<forall>m \<in> set es. valid_id (em_id m) \<and> em_id m \<in> I)"
  shows "media_sound H L I D (snd (take_listing H L sc pv slug limit listing s))"
proof (cases listing)
  case (Modified es tag)
  show ?thesis
  proof (cases "pv_show pv (ls_tick s) slug")
    case (Inl err)
    then show ?thesis using sound_fail_poll [OF assms(1), of L I D "tick s" slug err] assms(4)
      by (simp add: take_listing_def Modified)
  next
    case (Inr meta)
    with assms(2) have "sm_slug meta = slug" by (auto simp: provider_ok_def)
    with Inr sound_record_listing [OF assms(1,3)] assms(4,5) show ?thesis
      by (simp add: take_listing_def Modified)
  qed
next
  case NotModified
  have "media_sound H L I D (snd (andThen (map_err LibStorage (storage_episodes (host_codec H) slug (ls_db s)), tick s)
      (\<lambda>records s. (Inr (f records), s))))" for f :: "episode_record list \<Rightarrow> episode_id list \<times> u32"
    by (rule sound_andThen) (simp_all add: assms(4))
  then show ?thesis by (simp add: take_listing_def NotModified)
qed

lemma sound_finish_sync:
  assumes "host_ok H" "provider_ok pv" "replies_bounded H" "names_apart I" "media_sound H L I D s"
  shows "media_sound H L I D (snd (finish_sync H L pv slug policy records window discovered s))"
proof -
  let ?pending = "host_order H (ls_tick s) (pending_downloads policy records window)"
  obtain n s1 where d: "download_all H L pv slug ?pending 0 s = (n, s1)" by fastforce
  have s1: "media_sound H L I D s1" using sound_download_all [OF assms, of slug ?pending 0] d by simp
  have "media_sound H L I D (snd (andThen (apply_retention H slug policy s1) (\<lambda>pruned s.
      andThen (lift_err LibStorage (stored (record_poll (host_codec H) (now_at H s) slug None (ls_db s)) s)) (\<lambda>_ s.
        (Inr \<lparr>sr_discovered = discovered, sr_downloaded = n, sr_pruned = pruned\<rparr>,
           emit (PollFinished slug True discovered) s)))))"
    by (intro sound_andThen sound_apply_retention [OF assms(4) s1])
      (simp_all add: sound_record_poll [OF assms(1)])
  then show ?thesis by (simp add: finish_sync_def d)
qed

lemma sound_poll_listing:
  assumes "host_ok H" "provider_ok pv" "replies_bounded H" "names_apart I" "lists_within I pv" "valid_slug slug"
    "media_sound H L I D s"
  shows "media_sound H L I D (snd (poll_listing H L sc pv slug etag s))"
proof (cases "pv_episodes pv (ls_tick s) slug (show_fetch_last sc (cfg_fetch_last (lib_config L))) etag")
  case (Inl err)
  with sound_fail_poll [OF assms(1), of L I D "tick s" slug err] assms(7) show ?thesis
    by (simp add: poll_listing_def)
next
  case (Inr listing)
  have ids: "\<forall>es tag. listing = Modified es tag \<longrightarrow> (\<forall>m \<in> set es. valid_id (em_id m) \<and> em_id m \<in> I)"
    using Inr provider_ok_ids [OF assms(2)] lists_withinD [OF assms(5)] by blast
  have "media_sound H L I D (snd (andThen (take_listing H L sc pv slug l listing (tick s)) (\<lambda>(window, discovered) s.
      andThen (map_err LibStorage (storage_episodes (host_codec H) slug (ls_db s)), tick s) (\<lambda>records s.
        finish_sync H L pv slug policy records window discovered s))))" for l policy
    using sound_take_listing [OF assms(1,2,6) _ ids] assms(7)
    by (intro sound_andThen) (auto intro!: sound_andThen sound_finish_sync [OF assms(1-4)])
  with Inr show ?thesis by (simp add: poll_listing_def)
qed

text \<open>A whole sync.\<close>

definition library_lists_within :: "episode_id set \<Rightarrow> 'u library \<Rightarrow> bool" where
  "library_lists_within I L \<longleftrightarrow> (\<forall>n pv. lib_providers L n = Some pv \<longrightarrow> lists_within I pv)"

lemma sound_sync:
  assumes "host_ok H" "library_ok L" "library_lists_within I L" "replies_bounded H" "names_apart I" "valid_slug slug"
    "media_sound H L I D s"
  shows "media_sound H L I D (snd (sync H L slug s))"
proof -
  have reset: "media_sound H L I D (snd (stored (reset_stale_downloads (host_codec H) now slug secs (ls_db t)) t))"
    if t: "media_sound H L I D t" for t now secs
  proof (rule sound_stored [OF t healed_inv [OF soundD(1) [OF t]] reset_no_new_file [OF soundD(1) [OF t]]])
    show "art_paths (after (ls_db t) (reset_stale_downloads (host_codec H) now slug secs (ls_db t))) \<subseteq> artwork_places L"
      using soundD(3) [OF t] by (simp only: art_paths_same [OF healed_shows])
  qed
  have poll: "media_sound H L I D (snd (poll_listing H L sc pv slug etag t))"
    if "get_provider L n = Inr pv" "media_sound H L I D t" for n pv t sc etag
  proof (rule sound_poll_listing [OF assms(1) _ assms(4,5) _ assms(6) that(2)])
    from that(1) have "lib_providers L n = Some pv" by (auto simp: get_provider_def split: option.splits)
    with assms(2,3) show "provider_ok pv" "lists_within I pv"
      by (auto simp: library_ok_def library_lists_within_def)
  qed
  show ?thesis
    unfolding sync_def Let_def
    by (intro sound_andThen) (auto simp: assms(7) reset poll)
qed

end
