(* ===== verification/Intact_Facts.thy ===== *)
theory Intact_Facts
  imports Intact
begin

text \<open>
  What the invariant of \<open>Intact\<close> gives: \<open>verify --fix\<close> leaves no damaged file behind, no
  history of calls damages a file, and two ids with one file name damage each other.
\<close>

section \<open>Verification and repair\<close>

text \<open>What a download means for its own record, and for every other.\<close>

lemma download_own:
  assumes "host_ok H" "provider_ok pv" "replies_bounded H" "media_sound H L I D s"
    "download_episode H L pv slug ep s = (success, s')" "view (host_codec H) (ls_db s) slug (r_id ep) = Some e"
  shows "\<exists>e'. view (host_codec H) (ls_db s') slug (r_id ep) = Some e' \<and>
    (if success then r_state e' = Cached \<and> check_file H (ls_fs s') e' = None else \<exists>c. r_state e' = Failed c)"
proof -
  note inv = soundD [OF assms(4)]
  note effect = download_episode_effect [OF assms(1,2) inv(1) assms(5)]
  show ?thesis
  proof (cases success)
    case True
    with effect obtain e0 source where
      "file_cached H slug (r_id ep) (media_path (host_url H) L slug (r_id ep) source) e0 s s'"
      by (auto simp: stored_download_def)
    from file_cached_intact [OF this inv(2) assms(3)] True show ?thesis by auto
  next
    case False
    with effect assms(6) show ?thesis by (auto simp: spec_failed_def no_progress_def)
  qed
qed

lemma download_others:
  assumes "host_ok H" "provider_ok pv" "names_apart I" "media_sound H L I D s"
    "download_episode H L pv slug ep s = (success, s')" "(sl, j) \<noteq> (slug, r_id ep)"
  shows "view (host_codec H) (ls_db s') sl j = view (host_codec H) (ls_db s) sl j"
    "view (host_codec H) (ls_db s) sl j = Some e \<Longrightarrow> r_state e = Cached \<Longrightarrow>
       check_file H (ls_fs s') e = check_file H (ls_fs s) e"
proof -
  note inv = soundD [OF assms(4)]
  note effect = download_episode_effect [OF assms(1,2) inv(1) assms(5)]
  show "view (host_codec H) (ls_db s') sl j = view (host_codec H) (ls_db s) sl j"
    using effect assms(6) by (auto simp: stored_download_def file_cached_def Let_def set_at_def split: if_splits option.splits)
  assume v: "view (host_codec H) (ls_db s) sl j = Some e" "r_state e = Cached"
  show "check_file H (ls_fs s') e = check_file H (ls_fs s) e"
  proof (cases success)
    case True
    with effect obtain e0 source c where src: "view (host_codec H) (ls_db s) slug (r_id ep) = Some e0"
      "ls_fs s' = fs_write (media_path (host_url H) L slug (r_id ep) source) c (ls_fs s)"
      by (auto simp: stored_download_def file_cached_def Let_def)
    have "r_id ep \<in> I" using inv(4) [OF src(1)] by (simp add: record_sound_def)
    from sound_places_apart [OF assms(4,3) this view_valid_slug [OF inv(1) src(1)] v assms(6)]
    have "r_file_path e \<noteq> Some (media_path (host_url H) L slug (r_id ep) source)" .
    then show ?thesis
      by (intro check_file_cong) (use inv(2) in \<open>auto simp: src(2)\<close>, auto simp: fs_write_def)
  qed (use effect in auto)
qed

lemma map_filter_cong: "(\<And>x. x \<in> set xs \<Longrightarrow> f x = g x) \<Longrightarrow> List.map_filter f xs = List.map_filter g xs"
  by (induction xs) (auto simp: map_filter_simps split: option.split)

text \<open>Each damaged episode of the list is downloaded again; afterwards none is damaged.\<close>

lemma sound_verify_all:
  assumes "host_ok H" "provider_ok pv" "replies_bounded H" "names_apart I" "media_sound H L I D s"
    "distinct (map r_id eps)" "\<And>ep. ep \<in> set eps \<Longrightarrow>
       view (host_codec H) (ls_db s) slug (r_id ep) = Some ep \<and> r_state ep = Cached"
    "verify_all H L (Some pv) slug eps s = (outs, s')"
  shows "media_sound H L I (D - {slug} \<times> r_id ` set eps) s' \<and>
    (\<forall>sl j. sl \<noteq> slug \<or> j \<notin> vo_id ` set outs \<longrightarrow>
       view (host_codec H) (ls_db s') sl j = view (host_codec H) (ls_db s) sl j) \<and>
    map (\<lambda>out. (vo_id out, vo_problem out)) outs =
      List.map_filter (\<lambda>ep. map_option (Pair (r_id ep)) (check_file H (ls_fs s) ep)) eps \<and>
    (\<forall>out \<in> set outs. \<exists>e'. view (host_codec H) (ls_db s') slug (vo_id out) = Some e' \<and>
       (if vo_fixed out then r_state e' = Cached else \<exists>c. r_state e' = Failed c))"
  using assms(5-8)
proof (induction eps arbitrary: s D outs)
  case (Cons ep eps)
  let ?X = "host_codec H" and ?E = "D - {(slug, r_id ep)}"
  have ep: "view ?X (ls_db s) slug (r_id ep) = Some ep" "r_state ep = Cached" using Cons.prems(3) by auto
  have Dsplit: "D - {slug} \<times> r_id ` set (ep # eps) = ?E - {slug} \<times> r_id ` set eps" by auto
  show ?case
  proof (cases "check_file H (ls_fs s) ep")
    case None
    obtain outs' where v: "verify_all H L (Some pv) slug eps (tick s) = (outs', s')" "outs = outs'"
      using Cons.prems(4) None by (auto simp: verify_episode_def split: prod.splits)
    have "media_sound H L I ?E (tick s)"
      using Cons.prems(1) ep None by (auto simp: media_sound_def record_sound_def)
    from Cons.IH [OF this _ _ v(1)] Cons.prems(2,3) v(2) None Dsplit show ?thesis
      by (simp add: map_filter_simps)
  next
    case (Some p)
    obtain fixed s1 where d: "download_episode H L pv slug ep (tick s) = (fixed, s1)" by fastforce
    obtain outs' where v: "verify_all H L (Some pv) slug eps s1 = (outs', s')"
      "outs = \<lparr>vo_id = r_id ep, vo_problem = p, vo_fixed = fixed\<rparr> # outs'"
      using Cons.prems(4) Some by (auto simp: verify_episode_def d split: prod.splits)
    have sound: "media_sound H L I D (tick s)" using Cons.prems(1) by simp
    note s1 = sound_download [OF assms(1-4) sound d]
    note others = download_others [OF assms(1,2,4) sound d]
    have new: "r_id ep' \<noteq> r_id ep" if "ep' \<in> set eps" for ep'
      using that Cons.prems(2) by (metis distinct.simps(2) image_eqI list.set_map list.simps(9))
    have rest: "view ?X (ls_db s1) slug (r_id ep') = Some ep' \<and> r_state ep' = Cached"
      "check_file H (ls_fs s1) ep' = check_file H (ls_fs s) ep'" if "ep' \<in> set eps" for ep'
      using others [of slug "r_id ep'"] new [OF that] Cons.prems(3) [of ep'] that by auto
    have IH: "media_sound H L I (?E - {slug} \<times> r_id ` set eps) s'"
      "\<And>sl j. sl \<noteq> slug \<or> j \<notin> vo_id ` set outs' \<Longrightarrow> view ?X (ls_db s') sl j = view ?X (ls_db s1) sl j"
      "map (\<lambda>out. (vo_id out, vo_problem out)) outs' =
         List.map_filter (\<lambda>ep. map_option (Pair (r_id ep)) (check_file H (ls_fs s1) ep)) eps"
      "\<And>out. out \<in> set outs' \<Longrightarrow> \<exists>e'. view ?X (ls_db s') slug (vo_id out) = Some e' \<and>
         (if vo_fixed out then r_state e' = Cached else \<exists>c. r_state e' = Failed c)"
      using Cons.IH [OF s1 _ _ v(1)] Cons.prems(2) rest(1) by auto
    have "vo_id out \<in> r_id ` set eps" if "out \<in> set outs'" for out
    proof -
      from that have "(vo_id out, vo_problem out) \<in> set (map (\<lambda>out. (vo_id out, vo_problem out)) outs')" by auto
      then show ?thesis unfolding IH(3) by (auto simp: in_map_filter intro!: image_eqI [OF sym])
    qed
    then have "vo_id ` set outs' \<subseteq> r_id ` set eps" by blast
    moreover have "r_id ep \<notin> r_id ` set eps" using Cons.prems(2) by simp
    ultimately have "r_id ep \<notin> vo_id ` set outs'" by blast
    then have own: "\<exists>e'. view ?X (ls_db s') slug (r_id ep) = Some e' \<and>
        (if fixed then r_state e' = Cached else \<exists>c. r_state e' = Failed c)"
      using IH(2) [of slug "r_id ep"] download_own [OF assms(1-3) sound d] ep(1) by (cases fixed) auto
    have "List.map_filter (\<lambda>ep. map_option (Pair (r_id ep)) (check_file H (ls_fs s1) ep)) eps =
        List.map_filter (\<lambda>ep. map_option (Pair (r_id ep)) (check_file H (ls_fs s) ep)) eps"
      by (rule map_filter_cong) (simp add: rest(2))
    moreover have "view ?X (ls_db s') sl j = view ?X (ls_db s) sl j"
      if "sl \<noteq> slug \<or> j \<notin> vo_id ` set outs" for sl j
      using that IH(2) [of sl j] others(1) [of sl j] v(2) by auto
    ultimately show ?thesis
      using IH(1,3,4) own Dsplit Some v(2) by (auto simp: map_filter_simps)
  qed
qed (simp add: map_filter_simps)


text \<open>\<open>verify\<close> with and without \<open>--fix\<close>, on a store whose records and files are in their places.\<close>

lemma verify_fixed:
  assumes "host_ok H" "provider_ok pv" "replies_bounded H" "names_apart I" "media_sound H L I D s"
    "find_show L slug = Inr sc" "get_provider L (sc_provider sc) = Inr pv"
  shows "\<exists>rep s'. verify H L slug True s = (Inr rep, s') \<and> media_sound H L I (D - {slug} \<times> UNIV) s' \<and>
    (\<forall>sl j. sl \<noteq> slug \<or> j \<notin> vo_id ` set (vr_problems rep) \<longrightarrow>
       view (host_codec H) (ls_db s') sl j = view (host_codec H) (ls_db s) sl j) \<and>
    (\<forall>i p. (\<exists>out \<in> set (vr_problems rep). vo_id out = i \<and> vo_problem out = p) \<longleftrightarrow>
       (\<exists>e. view (host_codec H) (ls_db s) slug i = Some e \<and> r_state e = Cached \<and> check_file H (ls_fs s) e = Some p)) \<and>
    (\<forall>out \<in> set (vr_problems rep). \<exists>e'. view (host_codec H) (ls_db s') slug (vo_id out) = Some e' \<and>
       (if vo_fixed out then r_state e' = Cached else \<exists>c. r_state e' = Failed c))"
proof -
  let ?X = "host_codec H"
  note inv = soundD [OF assms(5)]
  obtain records where rec: "storage_episodes ?X slug (ls_db s) = Inr records"
    using storage_episodes_total [OF inv(1)] by blast
  let ?cached = "filter (\<lambda>ep. r_state ep = Cached) records"
  let ?eps = "host_order H (ls_tick (tick s)) ?cached"
  have set: "set ?eps = set ?cached" using host_order_set [OF assms(1)] .
  have listed: "e \<in> set records \<longleftrightarrow> view ?X (ls_db s) slug (r_id e) = Some e" for e
    by (rule listed_iff_view [OF inv(1) rec])
  have "mset (map r_id ?eps) = mset (map r_id ?cached)"
    using assms(1) by (simp add: host_ok_def)
  then have distinct: "distinct (map r_id ?eps)"
    using mset_eq_imp_distinct_iff distinct_map_filter [OF listed_distinct [OF inv(1) rec]] by blast
  obtain outs s' where all: "verify_all H L (Some pv) slug ?eps (tick s) = (outs, s')" by fastforce
  have sound: "media_sound H L I D (tick s)" using assms(5) by simp
  note fact = sound_verify_all [OF assms(1-4) sound distinct _ all]
  have in_eps: "view ?X (ls_db (tick s)) slug (r_id ep) = Some ep \<and> r_state ep = Cached" if "ep \<in> set ?eps" for ep
    using that listed by (simp add: set)
  note fact = fact [OF in_eps]
  have problems: "(\<exists>out \<in> set outs. vo_id out = i \<and> vo_problem out = p) \<longleftrightarrow>
      (\<exists>e. view ?X (ls_db s) slug i = Some e \<and> r_state e = Cached \<and> check_file H (ls_fs s) e = Some p)" for i p
  proof -
    have "(\<exists>out \<in> set outs. vo_id out = i \<and> vo_problem out = p) \<longleftrightarrow>
        (i, p) \<in> set (map (\<lambda>out. (vo_id out, vo_problem out)) outs)" by auto
    also have "map (\<lambda>out. (vo_id out, vo_problem out)) outs =
        List.map_filter (\<lambda>ep. map_option (Pair (r_id ep)) (check_file H (ls_fs s) ep)) ?eps"
      using fact by simp
    also have "(i, p) \<in> set \<dots> \<longleftrightarrow> (\<exists>e \<in> set ?eps. r_id e = i \<and> check_file H (ls_fs s) e = Some p)"
      by (auto simp: in_map_filter)
    also have "\<dots> \<longleftrightarrow>
        (\<exists>e. view ?X (ls_db s) slug i = Some e \<and> r_state e = Cached \<and> check_file H (ls_fs s) e = Some p)"
      using view_key [of ?X "ls_db s" slug i] by (auto simp: set listed)
    finally show ?thesis .
  qed
  have cached_listed: "i \<in> r_id ` set ?eps" if "view ?X (ls_db s) slug i = Some e" "r_state e = Cached" for i e
    using that listed [of e] view_key [OF that(1)] by (auto simp: set intro!: image_eqI [of i r_id e])
  have sound': "media_sound H L I (D - {slug} \<times> UNIV) s'"
  proof -
    have old: "media_sound H L I (D - {slug} \<times> r_id ` set ?eps) s'" using fact by blast
    note inv' = soundD [OF old]
    have "record_sound H L I (D - {slug} \<times> UNIV) (ls_fs s') sl j e'" if v': "view ?X (ls_db s') sl j = Some e'" for sl j e'
    proof (cases "sl = slug \<and> j \<notin> r_id ` set ?eps \<and> r_state e' = Cached")
      case True
      have "j \<notin> vo_id ` set outs"
      proof
        assume "j \<in> vo_id ` set outs"
        then obtain out where "out \<in> set outs" "vo_id out = j" by auto
        with problems [of j "vo_problem out"] cached_listed True show False by blast
      qed
      then have "view ?X (ls_db s') slug j = view ?X (ls_db s) slug j" using fact by simp
      with v' True cached_listed [of j e'] show ?thesis by simp
    next
      case False
      with inv'(4) [OF v'] show ?thesis by (auto simp: record_sound_def)
    qed
    with inv' show ?thesis by (simp add: media_sound_def)
  qed
  have others: "\<forall>sl j. sl \<noteq> slug \<or> j \<notin> vo_id ` set outs \<longrightarrow>
      view ?X (ls_db s') sl j = view ?X (ls_db s) sl j"
    and own: "\<forall>out \<in> set outs. \<exists>e'. view ?X (ls_db s') slug (vo_id out) = Some e' \<and>
       (if vo_fixed out then r_state e' = Cached else \<exists>c. r_state e' = Failed c)"
    using fact by simp_all
  obtain rep where rep: "verify H L slug True s = (Inr rep, s')" "outs = vr_problems rep"
    by (rule that [of "\<lparr>vr_checked = of_nat (length ?cached),
        vr_intact = of_nat (length ?cached) - of_nat (length outs), vr_problems = outs\<rparr>"])
      (simp_all add: verify_def assms(6,7) rec Let_def all)
  have "\<forall>i p. (\<exists>out \<in> set outs. vo_id out = i \<and> vo_problem out = p) \<longleftrightarrow>
      (\<exists>e. view ?X (ls_db s) slug i = Some e \<and> r_state e = Cached \<and> check_file H (ls_fs s) e = Some p)"
    using problems by blast
  with rep(1) sound' others own show ?thesis unfolding rep(2) by blast
qed

lemma sound_verify_clean:
  assumes "host_ok H" "media_sound H L I D s" "\<And>i. (slug, i) \<notin> D"
  shows "\<exists>rep t. verify H L slug False s = (Inr rep, s\<lparr>ls_tick := t\<rparr>) \<and> vr_problems rep = []"
proof -
  obtain rep t where r: "verify H L slug False s = (Inr rep, s\<lparr>ls_tick := t\<rparr>)"
    "\<And>out. out \<in> set (vr_problems rep) \<longleftrightarrow>
       (\<exists>e p. view (host_codec H) (ls_db s) slug (r_id e) = Some e \<and> r_state e = Cached \<and>
          check_file H (ls_fs s) e = Some p \<and> out = \<lparr>vo_id = r_id e, vo_problem = p, vo_fixed = False\<rparr>)"
    using verify_plain [OF assms(1) soundD(1) [OF assms(2)], where slug = slug and L = L] by blast
  have "check_file H (ls_fs s) e = None"
    if "view (host_codec H) (ls_db s) slug (r_id e) = Some e" "r_state e = Cached" for e
    using soundD(4) [OF assms(2) that(1)] that(2) assms(3) by (simp add: record_sound_def)
  then have "out \<notin> set (vr_problems rep)" for out using r(2) [of out] by auto
  then have "vr_problems rep = []" by (metis hd_in_set)
  with r(1) show ?thesis by blast
qed

section \<open>Histories\<close>

text \<open>
  Calls on a running program.  Each names the library it works with, since a reload may have
  replaced it; what a reload cannot replace is the data directory.
\<close>

datatype 'u library_call =
    CallSync "'u library" show_slug
  | CallVerify "'u library" show_slug bool

fun perform_call :: "'u host \<Rightarrow> 'u library_call \<Rightarrow> lib_state \<Rightarrow> lib_state" where
  "perform_call H (CallSync L slug) s = snd (sync H L slug s)"
| "perform_call H (CallVerify L slug fix_files) s = snd (verify H L slug fix_files s)"

definition usable :: "episode_id set \<Rightarrow> path \<Rightarrow> 'u library \<Rightarrow> bool" where
  "usable I dir L \<longleftrightarrow> library_ok L \<and> library_lists_within I L \<and> lib_data_dir L = dir"

fun call_ok :: "episode_id set \<Rightarrow> path \<Rightarrow> 'u library_call \<Rightarrow> bool" where
  "call_ok I dir (CallSync L slug) \<longleftrightarrow> usable I dir L \<and> valid_slug slug"
| "call_ok I dir (CallVerify L slug fix_files) \<longleftrightarrow> usable I dir L"

lemma sound_same_dir:
  "lib_data_dir L' = lib_data_dir L \<Longrightarrow> media_sound H L' I D s = media_sound H L I D s"
  by (simp add: media_sound_def record_sound_def media_path_def artwork_places_def)

lemma find_show_get_provider:
  "get_provider L n = Inr pv \<Longrightarrow> library_ok L \<Longrightarrow> provider_ok pv"
  by (auto simp: get_provider_def library_ok_def split: option.splits)

lemma sound_verify:
  assumes "host_ok H" "library_ok L" "replies_bounded H" "names_apart I" "media_sound H L I {} s"
  shows "media_sound H L I {} (snd (verify H L slug fix_files s))"
proof (cases "fix_files")
  case False
  have "media_sound H L I {} (s\<lparr>ls_tick := t\<rparr>)" for t using assms(5) by (simp add: media_sound_def)
  with sound_verify_clean [OF assms(1,5), of slug] False show ?thesis by fastforce
next
  case True
  show ?thesis
  proof (cases "\<exists>sc pv. find_show L slug = Inr sc \<and> get_provider L (sc_provider sc) = Inr pv")
    case ex: True
    then obtain sc pv where f: "find_show L slug = Inr sc" "get_provider L (sc_provider sc) = Inr pv" by blast
    from verify_fixed [OF assms(1) find_show_get_provider [OF f(2) assms(2)] assms(3-5) f] True
    show ?thesis by auto
  next
    case False
    with True assms(5) show ?thesis
      by (cases "find_show L slug"; cases "get_provider L (sc_provider (projr (find_show L slug)))")
        (auto simp: verify_def)
  qed
qed

lemma sound_call:
  assumes "host_ok H" "replies_bounded H" "names_apart I" "call_ok I (lib_data_dir L) c" "media_sound H L I {} s"
  shows "media_sound H L I {} (perform_call H c s)"
proof (cases c)
  case (CallSync L' slug)
  with assms(4) have L': "library_ok L'" "library_lists_within I L'" "valid_slug slug"
    and dir: "lib_data_dir L' = lib_data_dir L"
    by (simp_all add: usable_def)
  from sound_sync [OF assms(1) L'(1,2) assms(2,3) L'(3)] assms(5) CallSync show ?thesis
    by (simp add: sound_same_dir [OF dir])
next
  case (CallVerify L' slug fix_files)
  with assms(4) have L': "library_ok L'" and dir: "lib_data_dir L' = lib_data_dir L"
    by (simp_all add: usable_def)
  from sound_verify [OF assms(1) L' assms(2,3)] assms(5) CallVerify show ?thesis
    by (simp add: sound_same_dir [OF dir])
qed

lemma sound_calls:
  assumes "host_ok H" "replies_bounded H" "names_apart I" "\<forall>c \<in> set calls. call_ok I (lib_data_dir L) c"
    "media_sound H L I {} s"
  shows "media_sound H L I {} (fold (perform_call H) calls s)"
  using assms(4,5) by (induction calls arbitrary: s) (auto simp: sound_call [OF assms(1-3)])

lemma sound_empty:
  assumes "ls_db s = empty_db" "disk_quiet (ls_fs s)"
  shows "media_sound H L I D s"
proof -
  have "view X empty_db slug i = None" for X slug i by (simp add: view_def empty_db_def)
  then show ?thesis
    using assms by (simp add: media_sound_def db_inv_empty art_paths_def) (simp add: empty_db_def)
qed

lemma cached_has_hash:
  assumes "db_inv X d" "view X d slug i = Some e" "r_state e = Cached"
  shows "\<exists>h. r_blake3 e = Some h"
proof -
  from assms(2) obtain r where r: "List.find (is_episode slug i) (episode_rows d) = Some r" "decode_episode X r = Inr e"
    by (auto simp: view_def bind_eq_Some_conv)
  with assms(1) find_Some_mem [OF r(1)] decode_episode_state [OF r(2)] assms(3) have "e_blake3 r \<noteq> None"
    by (auto simp: db_inv_def row_wf_def)
  with r(2) show ?thesis by (auto simp: decode_episode_def bind_res_Inr_iff map_res_Inr_iff)
qed

section \<open>Properties\<close>

text \<open>
  C7: No history of calls damages a file.  Start from an empty database and let syncs and
  verifications of any shows follow in any order, by libraries that may have been reloaded but
  share their data directory, whatever the providers and the network answer: as long as no two
  listed ids have one file name and the disk can be read, verifying any show afterwards finds
  every cached episode's file in place, with the recorded size and hash.
\<close>

theorem files_stay_intact:
  assumes "host_ok H" "replies_bounded H" "names_apart I" "\<forall>c \<in> set calls. call_ok I (lib_data_dir L) c"
    "ls_db s = empty_db" "disk_quiet (ls_fs s)"
  shows "let s' = fold (perform_call H) calls s in
    \<exists>rep t. verify H L slug False s' = (Inr rep, s'\<lparr>ls_tick := t\<rparr>) \<and> vr_problems rep = []"
  using sound_verify_clean [OF assms(1) sound_calls [OF assms(1-4) sound_empty [OF assms(5,6)]], of slug]
  by (simp add: Let_def)

text \<open>
  C15: \<open>verify --fix\<close> leaves no damage behind.  Whatever has happened to the files of a show,
  the run reports exactly the damaged ones, downloads each again and touches no other record;
  a repaired episode is cached, one that could not be repaired has failed and is out of the
  feed, and a second verification finds nothing.
\<close>

theorem verify_fix_leaves_no_damage:
  assumes "host_ok H" "library_ok L" "replies_bounded H" "names_apart I" "media_sound H L I D s"
    "find_show L slug = Inr sc" "get_provider L (sc_provider sc) = Inr pv"
  shows "\<exists>rep s'. verify H L slug True s = (Inr rep, s') \<and>
    (\<forall>i p. (\<exists>out \<in> set (vr_problems rep). vo_id out = i \<and> vo_problem out = p) \<longleftrightarrow>
       (\<exists>e. view (host_codec H) (ls_db s) slug i = Some e \<and> r_state e = Cached \<and> check_file H (ls_fs s) e = Some p)) \<and>
    (\<forall>sl j. sl \<noteq> slug \<or> j \<notin> vo_id ` set (vr_problems rep) \<longrightarrow>
       view (host_codec H) (ls_db s') sl j = view (host_codec H) (ls_db s) sl j) \<and>
    (\<forall>out \<in> set (vr_problems rep). \<exists>e'. view (host_codec H) (ls_db s') slug (vo_id out) = Some e' \<and>
       (if vo_fixed out then r_state e' = Cached else \<exists>c. r_state e' = Failed c)) \<and>
    (\<exists>rep' t. verify H L slug False s' = (Inr rep', s'\<lparr>ls_tick := t\<rparr>) \<and> vr_problems rep' = [])"
proof -
  from verify_fixed [OF assms(1) find_show_get_provider [OF assms(7,2)] assms(3-7)]
  obtain rep s' where run: "verify H L slug True s = (Inr rep, s')" "media_sound H L I (D - {slug} \<times> UNIV) s'"
    and what: "\<forall>i p. (\<exists>out \<in> set (vr_problems rep). vo_id out = i \<and> vo_problem out = p) \<longleftrightarrow>
       (\<exists>e. view (host_codec H) (ls_db s) slug i = Some e \<and> r_state e = Cached \<and> check_file H (ls_fs s) e = Some p)"
    "\<forall>sl j. sl \<noteq> slug \<or> j \<notin> vo_id ` set (vr_problems rep) \<longrightarrow>
       view (host_codec H) (ls_db s') sl j = view (host_codec H) (ls_db s) sl j"
    "\<forall>out \<in> set (vr_problems rep). \<exists>e'. view (host_codec H) (ls_db s') slug (vo_id out) = Some e' \<and>
       (if vo_fixed out then r_state e' = Cached else \<exists>c. r_state e' = Failed c)"
    by blast
  obtain rep' t where "verify H L slug False s' = (Inr rep', s'\<lparr>ls_tick := t\<rparr>)" "vr_problems rep' = []"
    using sound_verify_clean [OF assms(1) run(2), of slug] by auto
  with run(1) what show ?thesis by blast
qed

text \<open>
  Two ids with one file name damage each other.  File names are ids with every unsafe
  character replaced, so \<open>a/b\<close> and \<open>a_b\<close> name one file.  When a second episode whose name is
  that of a cached one is downloaded, with other contents, the cached one stays on record as it
  was and its file is the other's: from then on its verification fails.
\<close>

theorem shared_name_damages:
  assumes "host_ok H" "provider_ok pv" "replies_bounded H" "db_inv (host_codec H) (ls_db s)" "disk_quiet (ls_fs s)"
    "sanitize (id_str i) = sanitize (id_str (r_id ep))" "i \<noteq> r_id ep"
    "view (host_codec H) (ls_db s) slug i = Some e" "r_state e = Cached"
    "r_file_path e = Some (media_path (host_url H) L slug i source)"
    "download_episode H L pv slug ep s = (True, s')" "view (host_codec H) (ls_db s') slug (r_id ep) = Some e'"
    "r_file_path e' = Some (media_path (host_url H) L slug (r_id ep) source)" "r_blake3 e' \<noteq> r_blake3 e"
  shows "view (host_codec H) (ls_db s') slug i = Some e \<and>
    media_path (host_url H) L slug i source = media_path (host_url H) L slug (r_id ep) source \<and>
    check_file H (ls_fs s') e \<noteq> None"
proof -
  let ?p = "media_path (host_url H) L slug i source"
  have same: "media_path (host_url H) L slug (r_id ep) source = ?p"
    by (simp add: media_path_def media_file_name_def assms(6))
  obtain h where h: "r_blake3 e = Some h" using cached_has_hash [OF assms(4,8,9)] by blast
  from download_episode_effect [OF assms(1,2,4,11)] obtain e0 src where
    fc: "file_cached H slug (r_id ep) (media_path (host_url H) L slug (r_id ep) src) e0 s s'"
    by (auto simp: stored_download_def)
  then obtain t k now f where f: "cf_file_path f = media_path (host_url H) L slug (r_id ep) src"
    "cf_blake3 f = host_hash H (reply_body (host_net H t k))"
    "view (host_codec H) (ls_db s') = set_at slug (r_id ep) (Some (spec_cached now f e0)) (view (host_codec H) (ls_db s))"
    "ls_fs s' = fs_write (media_path (host_url H) L slug (r_id ep) src) (reply_body (host_net H t k)) (ls_fs s)"
    by (auto simp: file_cached_def Let_def)
  have v: "view (host_codec H) (ls_db s') slug i = Some e" using assms(7,8) by (simp add: f(3))
  have e': "e' = spec_cached now f e0" using assms(12) by (simp add: f(3))
  then have src: "media_path (host_url H) L slug (r_id ep) src = ?p"
    using assms(13) same by (simp add: spec_cached_def no_progress_def f(1))
  have "h \<noteq> host_hash H (reply_body (host_net H t k))"
    using assms(14) h by (simp add: e' spec_cached_def no_progress_def f(2))
  then have "check_file H (ls_fs s') e \<noteq> None"
    using assms(5,10) h
    by (auto simp: f(4) src check_file_def disk_quiet_def fs_metadata_len_def blake3_of_file_def fs_read_def fs_write_def
        split: option.split)
  with v same show ?thesis by simp
qed

section \<open>The properties at work\<close>

text \<open>A provider that lists given ids and serves one source, and a host whose replies differ by call.\<close>

definition catalogue :: "string list \<Rightarrow> tuple_url provider" where
  "catalogue ids =
     \<lparr>pv_show = (\<lambda>t s. Inr \<lparr>sm_slug = s, sm_title = ''After Hours'', sm_description = None, sm_artwork = None\<rparr>),
      pv_episodes = (\<lambda>t s l e. Inr (Modified (map demo_meta ids) None)),
      pv_resolve_audio = (\<lambda>t s i. Inr demo_source), pv_artwork = (\<lambda>t s. Inr None)\<rparr>"

definition catalogue_library :: "string list \<Rightarrow> tuple_url library" where
  "catalogue_library ids = demo_library\<lparr>lib_providers := (\<lambda>n. if n = ''difm'' then Some (catalogue ids) else None)\<rparr>"

lemma catalogue_provider_ok: "[] \<notin> set ids \<Longrightarrow> provider_ok (catalogue ids)"
  by (auto simp: provider_ok_def catalogue_def valid_id_def canonical_mime_def mime_from_def)

lemma catalogue_usable:
  "[] \<notin> set ids \<Longrightarrow> usable (EpisodeId ` set ids) ''/data'' (catalogue_library ids)"
  using catalogue_provider_ok [of ids]
  by (auto simp: usable_def library_ok_def library_lists_within_def lists_within_def catalogue_library_def
      demo_library_def) (auto simp: catalogue_def)

lemma usable_mono:
  assumes "usable I dir L" "I \<subseteq> J"
  shows "usable J dir L"
proof -
  have "lists_within J pv" if "lists_within I pv" for pv :: "'a provider"
    using that assms(2) unfolding lists_within_def by blast
  with assms(1) show ?thesis unfolding usable_def library_lists_within_def by blast
qed

lemma demo_replies_bounded: "replies_bounded demo_host"
proof -
  have "length (reply_body (demo_net k)) < 2 ^ 63" for k by (simp add: demo_net_def reply_body_def)
  then show ?thesis by (simp add: replies_bounded_def demo_host_def)
qed

lemma demo_disk_quiet: "disk_quiet demo_fs"
  by (simp add: disk_quiet_def demo_fs_def)

lemma demo_names_apart: "names_apart (EpisodeId ` set [''161'', ''162''])"
  by (simp add: names_apart_def sanitize_def scalar_heads_def utf8_continuation_def char_code_def ascii_alnum_def)

theorem files_stay_intact_witness:
  "let s' = fold (perform_call demo_host)
       [CallSync (catalogue_library [''161'', ''162'']) demo_slug, CallVerify (catalogue_library [''161'']) demo_slug True,
        CallSync (catalogue_library [''161'', ''162'']) demo_slug]
       \<lparr>ls_db = empty_db, ls_fs = demo_fs, ls_events = [], ls_tick = 0\<rparr> in
    \<exists>rep t. verify demo_host demo_library demo_slug False s' = (Inr rep, s'\<lparr>ls_tick := t\<rparr>) \<and> vr_problems rep = []"
proof (rule files_stay_intact [OF demo_host_ok demo_replies_bounded demo_names_apart])
  have "usable (EpisodeId ` set [''161'', ''162'']) ''/data'' (catalogue_library [''161''])"
    by (rule usable_mono [OF catalogue_usable]) auto
  then show "\<forall>c \<in> set [CallSync (catalogue_library [''161'', ''162'']) demo_slug, CallVerify (catalogue_library [''161'']) demo_slug True,
        CallSync (catalogue_library [''161'', ''162'']) demo_slug].
      call_ok (EpisodeId ` set [''161'', ''162'']) (lib_data_dir demo_library) c"
    using catalogue_usable [of "[''161'', ''162'']"] demo_slug_valid by (simp add: demo_library_def)
qed (simp_all add: demo_disk_quiet)


text \<open>A store with a damaged file, and one where a second episode has the name of the first.\<close>

definition damaged_state :: lib_state where
  "damaged_state =
     \<lparr>ls_db = demo_db\<lparr>episode_rows := [(demo_episode ''162'')\<lparr>e_file_path := Some ''/data/media/after-hours/162.mp3''\<rparr>]\<rparr>,
      ls_fs = demo_fs, ls_events = [], ls_tick = 0\<rparr>"

lemmas demo_path_defs =
  path_join_def path_absolute_def starts_with_def sanitize_def scalar_heads_def utf8_continuation_def
  ascii_alnum_def char_code_def extension_for_def catalogue_library_def demo_library_def demo_host_def

lemma damaged_view:
  assumes "view demo_codec (ls_db damaged_state) slug i = Some e"
  shows "slug = demo_slug \<and> i = EpisodeId ''162'' \<and> r_file_path e = Some ''/data/media/after-hours/162.mp3''"
proof -
  from assms obtain r where r: "List.find (is_episode slug i) (episode_rows (ls_db damaged_state)) = Some r"
    "decode_episode demo_codec r = Inr e"
    by (auto simp: view_def bind_eq_Some_conv)
  from r(1) have "r = (demo_episode ''162'')\<lparr>e_file_path := Some ''/data/media/after-hours/162.mp3''\<rparr>"
    "slug_str slug = ''after-hours''" "id_str i = ''162''"
    by (auto simp: damaged_state_def is_episode_def split: if_splits)
  moreover have "r_file_path e = e_file_path r"
    using r(2) by (auto simp: decode_episode_def bind_res_Inr_iff)
  ultimately show ?thesis by (cases slug; cases i) simp
qed

lemma damaged_place:
  "media_path (host_url demo_host) (catalogue_library [''162'']) demo_slug (EpisodeId ''162'') demo_source =
     ''/data/media/after-hours/162.mp3''"
  by (simp add: media_path_def media_file_name_def demo_path_defs)

lemma demo_host_codec [simp]: "host_codec demo_host = demo_codec"
  by (simp add: demo_host_def)

lemma damaged_sound:
  "media_sound demo_host (catalogue_library [''162'']) (EpisodeId ` set [''162'']) UNIV damaged_state"
proof -
  have "db_inv demo_codec (ls_db damaged_state)"
    using demo_db_inv by (simp add: damaged_state_def demo_db_def db_inv_def row_wf_def row_state_def row_key_def idle_progress_def)
  moreover have "record_sound demo_host (catalogue_library [''162'']) (EpisodeId ` set [''162'']) UNIV F slug i e"
    if "view demo_codec (ls_db damaged_state) slug i = Some e" for F slug i e
    using damaged_view [OF that] damaged_place [symmetric] by (auto simp: record_sound_def)
  ultimately show ?thesis
    by (simp add: media_sound_def art_paths_def)
      (simp add: damaged_state_def demo_db_def demo_disk_quiet)
qed

theorem verify_fix_leaves_no_damage_witness:
  "\<exists>rep s'. verify demo_host (catalogue_library [''162'']) demo_slug True damaged_state = (Inr rep, s') \<and>
    (\<exists>out \<in> set (vr_problems rep). vo_id out = EpisodeId ''162'' \<and> vo_problem out = Missing) \<and>
    (\<exists>rep' t. verify demo_host (catalogue_library [''162'']) demo_slug False s' = (Inr rep', s'\<lparr>ls_tick := t\<rparr>) \<and>
       vr_problems rep' = [])"
proof -
  have names: "names_apart (EpisodeId ` set [''162''])" by (simp add: names_apart_def)
  have lib: "library_ok (catalogue_library [''162''])"
    using catalogue_usable [of "[''162'']"] by (simp add: usable_def)
  have sc: "find_show (catalogue_library [''162'']) demo_slug = Inr demo_follow"
    "get_provider (catalogue_library [''162'']) (sc_provider demo_follow) = Inr (catalogue [''162''])"
    by (simp_all add: find_show_def get_provider_def catalogue_library_def demo_library_def)
  have "(case view demo_codec (ls_db damaged_state) demo_slug (EpisodeId ''162'') of
      None \<Rightarrow> False | Some e \<Rightarrow> r_state e = Cached \<and> check_file demo_host (ls_fs damaged_state) e = Some Missing)"
    by code_simp
  then have "\<exists>e. view demo_codec (ls_db damaged_state) demo_slug (EpisodeId ''162'') = Some e \<and> r_state e = Cached \<and>
      check_file demo_host (ls_fs damaged_state) e = Some Missing"
    by (auto split: option.splits)
  with verify_fix_leaves_no_damage [OF demo_host_ok lib demo_replies_bounded names damaged_sound sc]
  show ?thesis by (metis demo_host_codec)
qed

definition twin_state :: lib_state where
  "twin_state =
     \<lparr>ls_db = demo_db\<lparr>episode_rows :=
        [(demo_episode ''a/b'')\<lparr>e_file_path := Some ''/data/media/after-hours/a_b.mp3'', e_bytes := Some 1\<rparr>,
         (demo_episode ''a_b'')\<lparr>e_state := ''discovered'', e_file_path := None\<rparr>]\<rparr>,
      ls_fs = fs_write ''/data/media/after-hours/a_b.mp3'' ''h'' demo_fs, ls_events = [], ls_tick = 0\<rparr>"


text \<open>With this provider and network every download of a waiting episode succeeds.\<close>

lemma catalogue_fetch:
  "fetch tuple_urls id demo_net demo_source dest F =
     (Inr \<lparr>dl_bytes = 5, dl_blake3 = ''abcde'', dl_mime = Some Mp4\<rparr>, fs_write dest ''abcde'' F, [(3, Some 5), (5, Some 5)], 2)"
  if "path_parent dest \<noteq> None" for F
  using that by (auto simp: demo_fetch_defs split: option.split)

lemma catalogue_download:
  assumes "db_inv demo_codec (ls_db s)" "view demo_codec (ls_db s) slug (r_id ep) = Some e"
    "can_transition_to (r_state e) Downloading"
    "path_parent (media_path tuple_urls L slug (r_id ep) demo_source) \<noteq> None"
  shows "\<exists>s' r. download_episode demo_host L (catalogue ids) slug ep s = (True, s') \<and>
    view demo_codec (ls_db s') slug (r_id ep) = Some r \<and>
    r_file_path r = Some (media_path tuple_urls L slug (r_id ep) demo_source) \<and> r_blake3 r = Some ''abcde''"
proof -
  let ?i = "r_id ep" and ?dest = "media_path tuple_urls L slug (r_id ep) demo_source"
  let ?got = "\<lparr>dl_bytes = 5, dl_blake3 = ''abcde'', dl_mime = Some Mp4\<rparr>"
  from mark_downloading_refines [OF assms(1), of slug ?i] assms(2,3)
  obtain d where d: "mark_downloading slug ?i (ls_db s) = Inr ((), d)"
    by (auto simp: spec_transition_def map_res_Inr_iff)
  let ?s1 = "tick (s\<lparr>ls_db := d\<rparr>)"
  have m: "stored (mark_downloading slug ?i (ls_db s)) s = (Inr (), ?s1)" by (simp add: stored_def d)
  have s1: "view demo_codec (ls_db ?s1) slug ?i = Some (spec_downloading e)" "db_inv demo_codec (ls_db ?s1)"
    using marked_downloading [OF assms(1) m] assms(2) by auto
  obtain s2 ws where t: "transfer_file demo_host slug ep demo_source ?dest (tick ?s1) = (Inr ?got, s2)"
    "s2 = write_progress demo_host slug ?i ws (tick (tick ?s1\<lparr>ls_fs := fs_write ?dest ''abcde'' (ls_fs s)\<rparr>))"
    using catalogue_fetch [OF assms(4)] by (simp add: transfer_file_def Let_def demo_host_def)
  let ?s0 = "tick (tick ?s1\<lparr>ls_fs := fs_write ?dest ''abcde'' (ls_fs s)\<rparr>)"
  have "view (host_codec demo_host) (ls_db ?s0) slug ?i = Some (spec_downloading e)"
    "db_inv (host_codec demo_host) (ls_db ?s0)"
    using s1 by simp_all
  from write_progress_view [OF _ this(2,1), of ws] demo_codec_ok t(2)
  obtain e' where e': "no_progress e' = no_progress (spec_downloading e)" "db_inv demo_codec (ls_db s2)"
    "view demo_codec (ls_db s2) slug ?i = Some e'"
    by auto
  then have "r_state e' = Downloading"
    using no_progress_eqD(1) [OF e'(1)] by (simp add: spec_downloading_def no_progress_def)
  with recorded_cached [of demo_host s2 slug ep e' ?got ?dest] e'(2,3) demo_codec_ok
  obtain f s3 where f: "record_cached demo_host slug ep ?dest ?got s2 = (Inr (), s3)" "cf_file_path f = ?dest"
    "cf_blake3 f = ''abcde''"
    "view demo_codec (ls_db s3) = set_at slug ?i (Some (spec_cached (now_at demo_host s2) f e')) (view demo_codec (ls_db s2))"
    by (auto simp: canonical_mime_def mime_from_def)
  have "try_download demo_host L (catalogue ids) slug ep s = (Inr (), s3)"
    using m t(1) f(1) by (simp add: try_download_def catalogue_def demo_host_def Let_def)
  then have "download_episode demo_host L (catalogue ids) slug ep s = (True, emit (DownloadFinished slug ?i None) s3)"
    by (simp add: download_episode_def)
  with f show ?thesis by (simp add: spec_cached_def no_progress_def)
qed

lemma twin_inv: "db_inv demo_codec (ls_db twin_state)"
  using demo_db_inv by (simp add: twin_state_def demo_db_def db_inv_def row_wf_def row_state_def row_key_def idle_progress_def valid_id_def)

theorem shared_name_damages_witness:
  "\<exists>e s'. download_episode demo_host demo_library (catalogue [''a_b'']) demo_slug
      (spec_new 0 demo_slug (demo_meta ''a_b'')) twin_state = (True, s') \<and>
    check_file demo_host (ls_fs twin_state) e = None \<and>
    view demo_codec (ls_db s') demo_slug (EpisodeId ''a/b'') = Some e \<and> check_file demo_host (ls_fs s') e \<noteq> None"
proof -
  let ?ep = "spec_new 0 demo_slug (demo_meta ''a_b'')"
  have id: "r_id ?ep = EpisodeId ''a_b''" by (simp add: spec_new_def)
  have place: "media_path tuple_urls demo_library demo_slug (EpisodeId i) demo_source = ''/data/media/after-hours/a_b.mp3''"
    if "i \<in> {''a/b'', ''a_b''}" for i
    using that by (auto simp: media_path_def media_file_name_def demo_path_defs)
  have "(case view demo_codec (ls_db twin_state) demo_slug (EpisodeId ''a/b'') of
      None \<Rightarrow> False | Some e \<Rightarrow> r_state e = Cached \<and> check_file demo_host (ls_fs twin_state) e = None \<and>
        r_file_path e = Some ''/data/media/after-hours/a_b.mp3'' \<and> r_blake3 e = Some ''h'')"
    by code_simp
  then obtain e where e: "view demo_codec (ls_db twin_state) demo_slug (EpisodeId ''a/b'') = Some e" "r_state e = Cached"
    "check_file demo_host (ls_fs twin_state) e = None" "r_file_path e = Some ''/data/media/after-hours/a_b.mp3''"
    "r_blake3 e = Some ''h''"
    by (auto split: option.splits)
  have "(case view demo_codec (ls_db twin_state) demo_slug (EpisodeId ''a_b'') of
      None \<Rightarrow> False | Some e \<Rightarrow> r_state e = Discovered)"
    by code_simp
  then obtain e0 where e0: "view demo_codec (ls_db twin_state) demo_slug (r_id ?ep) = Some e0"
    "can_transition_to (r_state e0) Downloading"
    by (auto simp: id split: option.splits)
  have "path_parent (media_path tuple_urls demo_library demo_slug (r_id ?ep) demo_source) \<noteq> None"
    by (simp add: id place path_parent_def)
  from catalogue_download [OF twin_inv e0 this, of "[''a_b'']"]
  obtain s' r where s': "download_episode demo_host demo_library (catalogue [''a_b'']) demo_slug ?ep twin_state = (True, s')"
    "view demo_codec (ls_db s') demo_slug (r_id ?ep) = Some r" "r_blake3 r = Some ''abcde''"
    "r_file_path r = Some (media_path tuple_urls demo_library demo_slug (r_id ?ep) demo_source)"
    by blast
  have names: "sanitize (id_str (EpisodeId ''a/b'')) = sanitize (id_str (r_id ?ep))"
    by (simp add: id demo_path_defs)
  have "disk_quiet (ls_fs twin_state)" by (simp add: twin_state_def demo_disk_quiet)
  from shared_name_damages [OF demo_host_ok catalogue_provider_ok demo_replies_bounded _ this names _ _ e(2) _ s'(1),
      where e' = r and source = demo_source] twin_inv e s' id place
  have "view demo_codec (ls_db s') demo_slug (EpisodeId ''a/b'') = Some e \<and> check_file demo_host (ls_fs s') e \<noteq> None"
    by (auto simp: demo_host_def)
  with s'(1) e(3) show ?thesis by blast
qed

end
