(* ===== verification/Telemetry.thy ===== *)
theory Telemetry
  imports Ipc Config
begin

text \<open>
  \<open>crates/daemon/src/telemetry.rs\<close>: the counters, how an event of the sync engine moves them,
  and the task that reads the broadcast channel.  A counter is a function from its attributes to
  a 64-bit value, as the SDK's cumulative sums are; the exporters are arguments of
  \<open>telemetry_init\<close>.
\<close>

datatype attr_value = AttrStr string | AttrBool bool | AttrInt int

type_synonym attrs = "(string \<times> attr_value) list"

type_synonym counter = "attrs \<Rightarrow> u64"

definition counter_add :: "u64 \<Rightarrow> attrs \<Rightarrow> counter \<Rightarrow> counter" where
  "counter_add n a c = c(a := c a + n)"

text \<open>\<open>mt_requests\<close> counts the observations of the request histogram, whose values are durations.\<close>

record 'u metrics =
  mt_otlp :: "'u otlp_config option"
  mt_polls :: counter
  mt_discovered :: counter
  mt_downloads :: counter
  mt_pruned_episodes :: counter
  mt_pruned_bytes :: counter
  mt_quarantined :: counter
  mt_requests :: counter

text \<open>
  \<open>init\<close>: the Prometheus reader always, the OTLP one when it is configured; building either can
  fail.
\<close>

definition telemetry_init :: "string + unit \<Rightarrow> ('u \<Rightarrow> (string \<times> string) list \<Rightarrow> string + unit) \<Rightarrow> 'u config
    \<Rightarrow> string + 'u metrics" where
  "telemetry_init prometheus_build otlp_build c =
     bind_res prometheus_build (\<lambda>_.
     bind_res (case cfg_otlp c of
                 None \<Rightarrow> Inr None
               | Some otlp \<Rightarrow> map_res (\<lambda>_. Some otlp) (otlp_build (otlp_endpoint otlp) (otlp_headers otlp))) (\<lambda>reader.
     Inr \<lparr>mt_otlp = reader, mt_polls = (\<lambda>_. 0), mt_discovered = (\<lambda>_. 0), mt_downloads = (\<lambda>_. 0),
          mt_pruned_episodes = (\<lambda>_. 0), mt_pruned_bytes = (\<lambda>_. 0), mt_quarantined = (\<lambda>_. 0), mt_requests = (\<lambda>_. 0)\<rparr>))"

definition show_attr :: "show_slug \<Rightarrow> string \<times> attr_value" where
  "show_attr slug = (''show'', AttrStr (slug_str slug))"

definition result_attr :: "error_class option \<Rightarrow> string \<times> attr_value" where
  "result_attr err = (''result'', AttrStr (case err of None \<Rightarrow> ''ok'' | Some cls \<Rightarrow> error_class_display cls))"

fun record_event :: "known_event \<Rightarrow> 'u metrics \<Rightarrow> 'u metrics" where
  "record_event (PollStarted slug) m = m"
| "record_event (PollFinished slug good n) m =
     m\<lparr>mt_polls := counter_add 1 [show_attr slug, (''ok'', AttrBool good)] (mt_polls m)\<rparr>"
| "record_event (EpisodeDiscovered slug i) m =
     m\<lparr>mt_discovered := counter_add 1 [show_attr slug] (mt_discovered m)\<rparr>"
| "record_event (DownloadFinished slug i err) m =
     m\<lparr>mt_downloads := counter_add 1 [show_attr slug, result_attr err] (mt_downloads m)\<rparr>"
| "record_event (EpisodesPruned slug episodes freed) m =
     m\<lparr>mt_pruned_episodes := counter_add (ucast episodes) [show_attr slug] (mt_pruned_episodes m),
       mt_pruned_bytes := counter_add freed [show_attr slug] (mt_pruned_bytes m)\<rparr>"
| "record_event (Quarantined provider p) m =
     m\<lparr>mt_quarantined := counter_add 1 [(''provider'', AttrStr provider)] (mt_quarantined m)\<rparr>"

text \<open>What the broadcast channel hands a subscriber.\<close>

datatype received = Delivered known_event | Lagged u64 | ChannelClosed

text \<open>\<open>pump_events\<close>, over what the channel delivers; at the end of the list it is still waiting.\<close>

fun pump_events :: "received list \<Rightarrow> 'u metrics \<Rightarrow> 'u metrics" where
  "pump_events [] m = m"
| "pump_events (Delivered e # rs) m = pump_events rs (record_event e m)"
| "pump_events (Lagged missed # rs) m = pump_events rs m"
| "pump_events (ChannelClosed # rs) m = m"

section \<open>Facts\<close>

fun delivered_events :: "received list \<Rightarrow> known_event list" where
  "delivered_events [] = []"
| "delivered_events (Delivered e # rs) = e # delivered_events rs"
| "delivered_events (Lagged missed # rs) = delivered_events rs"
| "delivered_events (ChannelClosed # rs) = []"

lemma pump_is_fold: "pump_events rs m = fold record_event (delivered_events rs) m"
  by (induction rs arbitrary: m rule: delivered_events.induct) simp_all

text \<open>A counter that grows by \<open>f e\<close> with every event has grown by the sum.\<close>

lemma counter_sum:
  assumes "\<And>e m. (get (record_event e m) :: u64) = get m + f e"
  shows "get (fold record_event es m) = get m + sum_list (map f es)"
  by (induction es arbitrary: m) (simp_all add: assms add.assoc)

lemma sum_list_count: "sum_list (map (\<lambda>e. if P e then 1 else 0) es) = (of_nat (length (filter P es)) :: u64)"
  by (induction es) simp_all

fun freed_for :: "show_slug \<Rightarrow> known_event \<Rightarrow> u32 \<times> u64" where
  "freed_for slug (EpisodesPruned s n b) = (if s = slug then (n, b) else (0, 0))"
| "freed_for slug _ = (0, 0)"

lemma error_class_display_inj [simp]: "error_class_display a = error_class_display b \<longleftrightarrow> a = b"
  by (cases a; cases b) simp_all

lemma error_class_not_ok [simp]: "error_class_display a \<noteq> ''ok''" "''ok'' \<noteq> error_class_display a"
  by (cases a; simp)+

lemma result_attr_inj [simp]: "result_attr a = result_attr b \<longleftrightarrow> a = b"
  by (auto simp: result_attr_def split: option.splits)

lemma show_attr_inj [simp]: "show_attr a = show_attr b \<longleftrightarrow> a = b"
  by (simp add: show_attr_def slug_str_inj)

definition is_poll :: "show_slug \<Rightarrow> bool \<Rightarrow> known_event \<Rightarrow> bool" where
  "is_poll slug good e \<longleftrightarrow> (\<exists>n. e = PollFinished slug good n)"

definition is_discovery :: "show_slug \<Rightarrow> known_event \<Rightarrow> bool" where
  "is_discovery slug e \<longleftrightarrow> (\<exists>i. e = EpisodeDiscovered slug i)"

definition is_result :: "show_slug \<Rightarrow> error_class option \<Rightarrow> known_event \<Rightarrow> bool" where
  "is_result slug err e \<longleftrightarrow> (\<exists>i. e = DownloadFinished slug i err)"

definition is_quarantine :: "string \<Rightarrow> known_event \<Rightarrow> bool" where
  "is_quarantine provider e \<longleftrightarrow> (\<exists>p. e = Quarantined provider p)"

lemmas event_kinds = is_poll_def is_discovery_def is_result_def is_quarantine_def

text \<open>
  The counters count the events.  After any deliveries of the channel each counter has
  grown, modulo \<open>2 ^ 64\<close>, by the number of delivered events it is about: polls by show and
  outcome, discoveries by show, downloads by show and result (no failure class is taken for a
  success), quarantined payloads by provider; the two pruning counters by the episodes and
  bytes the events announce.  Lost messages are skipped and the channel's end stops the count.
\<close>

lemma counters_count_events:
  fixes m :: "'u metrics"
  defines "after \<equiv> \<lambda>rs. pump_events rs m"
  shows "mt_polls (after rs) [show_attr slug, (''ok'', AttrBool good)] =
      mt_polls m [show_attr slug, (''ok'', AttrBool good)] +
      of_nat (length (filter (is_poll slug good) (delivered_events rs))) \<and>
    mt_discovered (after rs) [show_attr slug] =
      mt_discovered m [show_attr slug] + of_nat (length (filter (is_discovery slug) (delivered_events rs))) \<and>
    mt_downloads (after rs) [show_attr slug, result_attr err] =
      mt_downloads m [show_attr slug, result_attr err] +
      of_nat (length (filter (is_result slug err) (delivered_events rs))) \<and>
    mt_pruned_episodes (after rs) [show_attr slug] =
      mt_pruned_episodes m [show_attr slug] +
      sum_list (map (\<lambda>e. ucast (fst (freed_for slug e))) (delivered_events rs)) \<and>
    mt_pruned_bytes (after rs) [show_attr slug] =
      mt_pruned_bytes m [show_attr slug] + sum_list (map (\<lambda>e. snd (freed_for slug e)) (delivered_events rs)) \<and>
    mt_quarantined (after rs) [(''provider'', AttrStr name)] =
      mt_quarantined m [(''provider'', AttrStr name)] +
      of_nat (length (filter (is_quarantine name) (delivered_events rs)))"
proof -
  have step: "mt_polls (record_event e n) [show_attr slug, (''ok'', AttrBool good)] =
      mt_polls n [show_attr slug, (''ok'', AttrBool good)] + (if is_poll slug good e then 1 else 0)"
    "mt_discovered (record_event e n) [show_attr slug] =
      mt_discovered n [show_attr slug] + (if is_discovery slug e then 1 else 0)"
    "mt_downloads (record_event e n) [show_attr slug, result_attr err] =
      mt_downloads n [show_attr slug, result_attr err] + (if is_result slug err e then 1 else 0)"
    "mt_pruned_episodes (record_event e n) [show_attr slug] =
      mt_pruned_episodes n [show_attr slug] + ucast (fst (freed_for slug e))"
    "mt_pruned_bytes (record_event e n) [show_attr slug] = mt_pruned_bytes n [show_attr slug] + snd (freed_for slug e)"
    "mt_quarantined (record_event e n) [(''provider'', AttrStr name)] =
      mt_quarantined n [(''provider'', AttrStr name)] + (if is_quarantine name e then 1 else 0)"
    for e and n :: "'u metrics"
    by (cases e; auto simp: event_kinds counter_add_def)+
  show ?thesis
    unfolding after_def pump_is_fold sum_list_count [symmetric]
    by (intro conjI counter_sum step)
qed

end
