(* ===== verification/Sync_Events.thy ===== *)
theory Sync_Events
  imports Library_Facts Telemetry
begin

text \<open>
  What a sync announces.  The events it broadcasts are the only account of it that the metrics
  and the terminal interface get; here they are set against the report the sync returns.
\<close>

lemma andThen_Inr: "andThen rs f = (Inr b, s') \<Longrightarrow> \<exists>a s. rs = (Inr a, s) \<and> f a s = (Inr b, s')"
  by (cases rs; cases "fst rs") auto

lemma lift_err_Inr: "lift_err g rs = (Inr a, s) \<Longrightarrow> rs = (Inr a, s)"
  by (cases rs; cases "fst rs") auto

lemma events_andThen:
  assumes "ls_events (snd rs) = E" "\<And>a s. rs = (Inr a, s) \<Longrightarrow> ls_events s = E \<Longrightarrow> ls_events (snd (f a s)) = E"
  shows "ls_events (snd (andThen rs f)) = E"
  using assms by (cases rs; cases "fst rs") auto

lemma transfer_file_events: "ls_events (snd (transfer_file H slug ep source dest s)) = ls_events s"
  using transfer_outcome [of H slug ep source dest s] by (cases "transfer_file H slug ep source dest s") auto

lemma try_download_events: "ls_events (snd (try_download H L pv slug ep s)) = ls_events s"
  unfolding try_download_def Let_def
  by (intro events_andThen) (auto simp: transfer_file_events record_cached_def Let_def)

text \<open>One download, one event: that of its outcome.\<close>

lemma download_episode_events:
  assumes "download_episode H L pv slug ep s = (success, s')"
  shows "\<exists>r. ls_events s' = ls_events s @ [DownloadFinished slug (r_id ep) r] \<and> (success \<longleftrightarrow> r = None)"
  using assms try_download_events [of H L pv slug ep s]
  by (auto simp: download_episode_def Let_def split: prod.splits sum.splits)

lemma download_all_events:
  assumes "download_all H L pv slug eps n s = (m, s')"
  shows "\<exists>rs. length rs = length eps \<and>
    ls_events s' = ls_events s @ map (\<lambda>(ep, r). DownloadFinished slug (r_id ep) r) (zip eps rs) \<and>
    m = n + of_nat (length (filter (\<lambda>r. r = None) rs))"
  using assms
proof (induction eps arbitrary: n s)
  case (Cons ep eps)
  obtain success s1 where d: "download_episode H L pv slug ep s = (success, s1)" by fastforce
  from download_episode_events [OF d] obtain r where
    r: "ls_events s1 = ls_events s @ [DownloadFinished slug (r_id ep) r]" "success \<longleftrightarrow> r = None" by blast
  from Cons.IH [of "if success then n + 1 else n" s1] Cons.prems d obtain rs where
    rs: "length rs = length eps"
    "ls_events s' = ls_events s1 @ map (\<lambda>(ep, r). DownloadFinished slug (r_id ep) r) (zip eps rs)"
    "m = (if success then n + 1 else n) + of_nat (length (filter (\<lambda>r. r = None) rs))"
    by auto
  with r show ?case by (intro exI [of _ "r # rs"]) simp
qed simp

lemma prune_loop_events: "ls_events (snd (prune_loop slug records ids n b s)) = ls_events s"
proof (induction ids arbitrary: n b s)
  case (Cons i ids)
  have *: "ls_events (snd (andThen (stored (mark_pruned slug i (ls_db t)) t)
      (\<lambda>_ s. prune_loop slug records ids m k s))) = ls_events t" for t m k
    by (intro events_andThen) (simp_all add: Cons)
  show ?case
    by (auto simp: Let_def Cons * split: option.split prod.split sum.split io_error.split)
qed simp

lemma apply_retention_events:
  assumes "apply_retention H slug policy s = (Inr n, s')"
  shows "\<exists>freed. ls_events s' = ls_events s @ (if 0 < n then [EpisodesPruned slug n freed] else [])"
proof -
  from assms obtain records freed s1 where
    p: "prune_loop slug records (plan policy (cached_candidates records)) 0 0 (tick s) = (Inr (n, freed), s1)"
    "s' = (if 0 < n then emit (EpisodesPruned slug n freed) s1 else s1)"
    by (auto simp: apply_retention_def dest!: andThen_Inr lift_err_Inr)
  have "ls_events s1 = ls_events s"
    using prune_loop_events [of slug records "plan policy (cached_candidates records)" 0 0 "tick s"] p(1) by simp
  with p(2) show ?thesis by auto
qed

lemma art_fetch_events: "ls_events (snd (art_fetch H dest src s)) = ls_events s"
  by (cases src) (auto split: prod.split option.split sum.split)

lemma cache_artwork_events [simp]: "ls_events (cache_artwork H L sc meta slug s) = ls_events s"
proof (cases "storage_show (host_codec H) slug (ls_db s)")
  case (Inr found)
  show ?thesis
  proof (cases "pick_art_source sc meta")
    case (Some src)
    let ?dest = "art_dest H L slug src"
    obtain b s1 where f: "art_fetch H ?dest src (tick s) = (b, s1)" by fastforce
    obtain x s2 where m: "stored (set_artwork_path slug ?dest (ls_db s1)) s1 = (x, s2)" by fastforce
    have "ls_events s1 = ls_events s" "ls_events s2 = ls_events s"
      using art_fetch_events [of H ?dest src "tick s"] f ls_events_simps(3) [of "set_artwork_path slug ?dest (ls_db s1)" s1] m
      by simp_all
    then show ?thesis
      by (auto simp: cache_artwork_def Inr Some Let_def f m split: bool.split sum.split option.split)
  qed (simp add: cache_artwork_def Inr Let_def)
qed (simp add: cache_artwork_def)

lemma fold_emit_events: "ls_events (fold (\<lambda>x. emit (g x)) xs s) = ls_events s @ map g xs"
  by (induction xs arbitrary: s) simp_all

lemma stored_events: "stored r s = (x, s') \<Longrightarrow> ls_events s' = ls_events s"
  by (metis ls_events_simps(3) snd_conv)

text \<open>A listing announces each episode that was not known, and counts them.\<close>

lemma record_listing_events:
  assumes "record_listing H L sc slug es etag meta s = (Inr (window, n), s')"
  shows "\<exists>new. ls_events s' = ls_events s @ map (EpisodeDiscovered slug) new \<and> n = of_nat (length new)"
proof -
  from assms obtain s1 new s2 s3 where
    s1: "stored (upsert_show meta (sc_provider sc) (ls_db s)) s = (Inr (), s1)" and
    s2: "stored (discover (host_codec H) (host_clock H (ls_tick (cache_artwork H L sc meta slug s1))) slug es
      (ls_db (cache_artwork H L sc meta slug s1))) (cache_artwork H L sc meta slug s1) = (Inr new, s2)" and
    s3: "stored (set_episodes_etag slug etag (ls_db (fold (\<lambda>i. emit (EpisodeDiscovered slug i)) new s2)))
      (fold (\<lambda>i. emit (EpisodeDiscovered slug i)) new s2) = (Inr (), s')" and n: "n = of_nat (length new)"
    unfolding record_listing_def Let_def by (auto dest!: andThen_Inr lift_err_Inr)
  from stored_events [OF s1] stored_events [OF s2] stored_events [OF s3] n show ?thesis
    by (intro exI [of _ new]) (simp add: fold_emit_events)
qed


lemma take_listing_events:
  assumes "take_listing H L sc pv slug limit listing s = (Inr (window, n), s')"
  shows "\<exists>new. ls_events s' = ls_events s @ map (EpisodeDiscovered slug) new \<and> n = of_nat (length new)"
proof (cases listing)
  case (Modified es etag)
  have failed: "fst (fail_poll H L slug err t) \<noteq> Inr x" for err t and x :: "episode_id list \<times> u32"
  proof (cases "fail_poll H L slug err t :: ('a library_error + episode_id list \<times> u32) \<times> lib_state")
    case (Pair a b)
    from fail_poll_outcome [OF Pair] Pair show ?thesis by simp
  qed
  show ?thesis
  proof (cases "pv_show pv (ls_tick s) slug")
    case (Inl err)
    with assms failed [of err "tick s" "(window, n)"] show ?thesis by (simp add: take_listing_def Modified)
  next
    case (Inr meta)
    with assms record_listing_events [of H L sc slug es etag meta "tick s" window n s'] show ?thesis
      by (simp add: take_listing_def Modified)
  qed
next
  case NotModified
  with assms show ?thesis by (auto simp: take_listing_def dest!: andThen_Inr intro: exI [of _ "[]"])
qed

text \<open>The events of a completed sync, up to the order in which its downloads ended.\<close>

definition announced :: "show_slug \<Rightarrow> episode_id list \<Rightarrow> (episode_id \<times> error_class option) list \<Rightarrow> u32 \<Rightarrow> u64 \<Rightarrow> u32
    \<Rightarrow> known_event list" where
  "announced slug new results pruned freed discovered =
     PollStarted slug # map (EpisodeDiscovered slug) new @ map (\<lambda>(i, r). DownloadFinished slug i r) results @
     (if 0 < pruned then [EpisodesPruned slug pruned freed] else []) @ [PollFinished slug True discovered]"

lemma length_filter_snd: "length xs = length ys \<Longrightarrow> length (filter (\<lambda>d. P (snd d)) (zip xs ys)) = length (filter P ys)"
  by (induction xs ys rule: list_induct2) simp_all

lemma finish_sync_events:
  assumes "finish_sync H L pv slug policy records window discovered s = (Inr report, s')"
  shows "\<exists>results freed. ls_events s' = ls_events s @ map (\<lambda>(i, r). DownloadFinished slug i r) results @
      (if 0 < sr_pruned report then [EpisodesPruned slug (sr_pruned report) freed] else []) @
      [PollFinished slug True discovered] \<and>
    map fst results = map r_id (host_order H (ls_tick s) (pending_downloads policy records window)) \<and>
    sr_discovered report = discovered \<and>
    sr_downloaded report = of_nat (length (filter (\<lambda>d. snd d = None) results))"
proof -
  let ?pending = "host_order H (ls_tick s) (pending_downloads policy records window)"
  obtain n s1 where d: "download_all H L pv slug ?pending 0 s = (n, s1)" by fastforce
  from assms d obtain pruned s2 s3 where
    p: "apply_retention H slug policy s1 = (Inr pruned, s2)" and
    r: "stored (record_poll (host_codec H) (now_at H s2) slug None (ls_db s2)) s2 = (Inr (), s3)" and
    report: "report = \<lparr>sr_discovered = discovered, sr_downloaded = n, sr_pruned = pruned\<rparr>" and
    s': "s' = emit (PollFinished slug True discovered) s3"
    by (auto simp: finish_sync_def dest!: andThen_Inr lift_err_Inr)
  from download_all_events [OF d] obtain rs where rs: "length rs = length ?pending"
    "ls_events s1 = ls_events s @ map (\<lambda>(ep, r). DownloadFinished slug (r_id ep) r) (zip ?pending rs)"
    "n = of_nat (length (filter (\<lambda>r. r = None) rs))"
    by auto
  let ?results = "zip (map r_id ?pending) rs"
  have "map (\<lambda>(i, r). DownloadFinished slug i r) ?results =
      map (\<lambda>(ep, r). DownloadFinished slug (r_id ep) r) (zip ?pending rs)"
    by (auto simp: zip_map1)
  moreover have "length (filter (\<lambda>d. snd d = None) ?results) = length (filter (\<lambda>r. r = None) rs)"
    using rs(1) length_filter_snd [of "map r_id ?pending" rs "\<lambda>r. r = None"] by simp
  moreover obtain freed where "ls_events s2 = ls_events s1 @ (if 0 < pruned then [EpisodesPruned slug pruned freed] else [])"
    using apply_retention_events [OF p] by blast
  ultimately show ?thesis
    using rs stored_events [OF r] by (intro exI [of _ ?results] exI [of _ freed]) (simp add: report s')
qed


lemma poll_listing_events:
  assumes "poll_listing H L sc pv slug etag s = (Inr report, s')"
  shows "\<exists>new results freed.
    PollStarted slug # drop (length (ls_events s)) (ls_events s') =
      announced slug new results (sr_pruned report) freed (sr_discovered report) \<and>
    take (length (ls_events s)) (ls_events s') = ls_events s \<and>
    sr_discovered report = of_nat (length new) \<and>
    sr_downloaded report = of_nat (length (filter (\<lambda>d. snd d = None) results))"
proof (cases "pv_episodes pv (ls_tick s) slug (show_fetch_last sc (cfg_fetch_last (lib_config L))) etag")
  case (Inl err)
  have "fst (fail_poll H L slug err (tick s)) \<noteq> Inr report"
  proof (cases "fail_poll H L slug err (tick s) :: ('a library_error + sync_report) \<times> lib_state")
    case (Pair a b)
    from fail_poll_outcome [OF Pair] Pair show ?thesis by simp
  qed
  with Inl assms show ?thesis by (simp add: poll_listing_def)
next
  case (Inr listing)
  with assms obtain window n s1 records where
    t: "take_listing H L sc pv slug (show_fetch_last sc (cfg_fetch_last (lib_config L))) listing (tick s) = (Inr (window, n), s1)" and
    f: "finish_sync H L pv slug (show_retention sc (cfg_retention (lib_config L))) records window n (tick s1) = (Inr report, s')"
    by (auto simp: poll_listing_def Let_def dest!: andThen_Inr)
  from take_listing_events [OF t] obtain new where new: "ls_events s1 = ls_events s @ map (EpisodeDiscovered slug) new"
    "n = of_nat (length new)" by auto
  from finish_sync_events [OF f] obtain results freed where
    "ls_events s' = ls_events s1 @ map (\<lambda>(i, r). DownloadFinished slug i r) results @
      (if 0 < sr_pruned report then [EpisodesPruned slug (sr_pruned report) freed] else []) @ [PollFinished slug True n]"
    "sr_discovered report = n" "sr_downloaded report = of_nat (length (filter (\<lambda>d. snd d = None) results))"
    by auto
  with new show ?thesis
    by (intro exI [of _ new] exI [of _ results] exI [of _ freed]) (simp add: announced_def)
qed

lemma sync_events:
  assumes "sync H L slug s = (Inr report, s')"
  shows "\<exists>new results freed.
    ls_events s' = ls_events s @ announced slug new results (sr_pruned report) freed (sr_discovered report) \<and>
    sr_discovered report = of_nat (length new) \<and>
    sr_downloaded report = of_nat (length (filter (\<lambda>d. snd d = None) results))"
proof -
  from assms obtain sc pv found where c: "find_show L slug = Inr sc" "get_provider L (sc_provider sc) = Inr pv"
    "storage_show (host_codec H) slug (ls_db s) = Inr found"
    by (auto simp: sync_def Let_def dest!: andThen_Inr)
  let ?t = "tick (emit (PollStarted slug) s)"
  obtain res s1 where h: "stored (reset_stale_downloads (host_codec H) (now_at H ?t) slug stale_download_after (ls_db s)) ?t =
      (res, s1)"
    by fastforce
  have p: "poll_listing H L sc pv slug (Option.bind found rs_episodes_etag) s1 = (Inr report, s')"
    using assms by (cases res) (simp_all add: sync_def Let_def c h)
  from stored_events [OF h] have e: "ls_events s1 = ls_events s @ [PollStarted slug]" by simp
  from poll_listing_events [OF p] obtain new results freed where
    r: "PollStarted slug # drop (length (ls_events s1)) (ls_events s') =
      announced slug new results (sr_pruned report) freed (sr_discovered report)"
    "take (length (ls_events s1)) (ls_events s') = ls_events s1" "sr_discovered report = of_nat (length new)"
    "sr_downloaded report = of_nat (length (filter (\<lambda>d. snd d = None) results))"
    by blast
  have "ls_events s' = ls_events s1 @ drop (length (ls_events s1)) (ls_events s')"
    using r(2) append_take_drop_id by metis
  with r e show ?thesis by (intro exI [of _ new] exI [of _ results] exI [of _ freed]) simp
qed

text \<open>What the counters make of the events of one sync.\<close>

lemma delivered_all [simp]: "delivered_events (map Delivered es) = es"
  by (induction es) simp_all

lemma filter_discoveries [simp]:
  "filter (is_discovery slug) (map (EpisodeDiscovered slug) new) = map (EpisodeDiscovered slug) new"
  "filter (is_poll sl good) (map (EpisodeDiscovered slug) new) = []"
  "filter (is_result sl err) (map (EpisodeDiscovered slug) new) = []"
  by (induction new) (simp_all add: event_kinds)

lemma filter_results [simp]:
  "filter (is_discovery sl) (map (\<lambda>(i, r). DownloadFinished slug i r) results) = []"
  "filter (is_poll sl good) (map (\<lambda>(i, r). DownloadFinished slug i r) results) = []"
  "length (filter (is_result slug err \<circ> (\<lambda>(i, r). DownloadFinished slug i r)) results) =
     length (filter (\<lambda>d. snd d = err) results)"
  by (induction results) (auto simp: event_kinds)

lemma freed_nothing [simp]:
  "sum_list (map (\<lambda>e. ucast (fst (freed_for slug e))) (map (EpisodeDiscovered sl) new)) = (0 :: u64)"
  "sum_list (map (\<lambda>e. ucast (fst (freed_for slug e))) (map (\<lambda>(i, r). DownloadFinished sl i r) results)) = (0 :: u64)"
  by (induction new, simp_all) (induction results, auto)

lemma announced_counts:
  "length (filter (is_poll slug True) (announced slug new results pruned freed n)) = 1"
  "length (filter (is_poll slug False) (announced slug new results pruned freed n)) = 0"
  "length (filter (is_discovery slug) (announced slug new results pruned freed n)) = length new"
  "length (filter (is_result slug err) (announced slug new results pruned freed n)) =
     length (filter (\<lambda>d. snd d = err) results)"
  "sum_list (map (\<lambda>e. ucast (fst (freed_for slug e))) (announced slug new results pruned freed n)) = (ucast pruned :: u64)"
proof -
  show "length (filter (is_poll slug True) (announced slug new results pruned freed n)) = 1"
    "length (filter (is_poll slug False) (announced slug new results pruned freed n)) = 0"
    by (simp_all add: announced_def) (simp_all add: event_kinds)
  show "length (filter (is_discovery slug) (announced slug new results pruned freed n)) = length new"
    "length (filter (is_result slug err) (announced slug new results pruned freed n)) =
       length (filter (\<lambda>d. snd d = err) results)"
    by (simp_all add: announced_def) (simp_all add: event_kinds)
  have "\<not> 0 < pruned \<Longrightarrow> pruned = 0" by (simp add: word_gt_0)
  then show "sum_list (map (\<lambda>e. ucast (fst (freed_for slug e))) (announced slug new results pruned freed n)) = (ucast pruned :: u64)"
    unfolding announced_def list.map map_append sum_list.Cons sum_list_append freed_nothing by auto
qed

section \<open>Properties\<close>

text \<open>
  C17: A completed sync has announced exactly what it reports.  The events it adds are the start
  of the poll, one discovery per new episode, one outcome per attempted download, a pruning if
  anything was pruned, and the end of the poll, in that order; and the numbers of its report
  are the number of discoveries, the number of successful outcomes and the announced pruning.
\<close>

theorem sync_announces_report:
  assumes "sync H L slug s = (Inr report, s')"
  shows "\<exists>new results freed.
    ls_events s' = ls_events s @ announced slug new results (sr_pruned report) freed (sr_discovered report) \<and>
    sr_discovered report = of_nat (length new) \<and>
    sr_downloaded report = of_nat (length (filter (\<lambda>d. snd d = None) results))"
  using assms by (rule sync_events)

lemma idle_sync_report: "\<exists>report s'. sync demo_host idle_library demo_slug idle_state = (Inr report, s')"
  using idle_sync by (cases "sync demo_host idle_library demo_slug idle_state") auto

theorem sync_announces_report_witness:
  "\<exists>report s' new results freed. sync demo_host idle_library demo_slug idle_state = (Inr report, s') \<and>
    ls_events s' = announced demo_slug new results (sr_pruned report) freed (sr_discovered report) \<and>
    sr_discovered report = of_nat (length new)"
proof -
  obtain report s' where run: "sync demo_host idle_library demo_slug idle_state = (Inr report, s')"
    using idle_sync_report by blast
  have "ls_events idle_state = []" by (simp add: idle_state_def demo_state_def)
  with sync_announces_report [OF run] run show ?thesis by fastforce
qed

text \<open>
  The metrics agree with the reports.  When the event pump has been given everything a
  completed sync broadcast, the counters of its show have grown by one successful poll, by no
  failed one, and by the discovered, downloaded and pruned episodes of its report (which are
  32-bit counts, while the counters have 64 bits).
\<close>

theorem metrics_match_report:
  fixes m :: "'u metrics"
  assumes "sync H L slug s = (Inr report, s')"
  defines "m' \<equiv> pump_events (map Delivered (drop (length (ls_events s)) (ls_events s'))) m"
  shows "mt_polls m' [show_attr slug, (''ok'', AttrBool True)] = mt_polls m [show_attr slug, (''ok'', AttrBool True)] + 1 \<and>
    mt_polls m' [show_attr slug, (''ok'', AttrBool False)] = mt_polls m [show_attr slug, (''ok'', AttrBool False)] \<and>
    ucast (mt_discovered m' [show_attr slug] - mt_discovered m [show_attr slug]) = sr_discovered report \<and>
    ucast (mt_downloads m' [show_attr slug, result_attr None] - mt_downloads m [show_attr slug, result_attr None]) =
      sr_downloaded report \<and>
    mt_pruned_episodes m' [show_attr slug] = mt_pruned_episodes m [show_attr slug] + ucast (sr_pruned report)"
proof -
  from sync_events [OF assms(1)] obtain new results freed where
    e: "ls_events s' = ls_events s @ announced slug new results (sr_pruned report) freed (sr_discovered report)"
    "sr_discovered report = of_nat (length new)" "sr_downloaded report = of_nat (length (filter (\<lambda>d. snd d = None) results))"
    by blast
  have m': "m' = pump_events (map Delivered (announced slug new results (sr_pruned report) freed (sr_discovered report))) m"
    by (simp add: m'_def e(1))
  have narrow: "(ucast (of_nat n :: u64) :: u32) = of_nat n" for n
    by transfer simp
  note counts = counters_count_events [where m = m and slug = slug and err = None and name = "[]" and
      rs = "map Delivered (announced slug new results (sr_pruned report) freed (sr_discovered report))"]
  show ?thesis
    using counts [where good = True] counts [where good = False]
    unfolding m' [symmetric] delivered_all announced_counts
    by (simp add: narrow e(2,3))
qed


definition no_metrics :: "tuple_url metrics" where
  "no_metrics =
     \<lparr>mt_otlp = None, mt_polls = (\<lambda>a. 0), mt_discovered = (\<lambda>a. 0), mt_downloads = (\<lambda>a. 0), mt_pruned_episodes = (\<lambda>a. 0),
      mt_pruned_bytes = (\<lambda>a. 0), mt_quarantined = (\<lambda>a. 0), mt_requests = (\<lambda>a. 0)\<rparr>"

theorem metrics_match_report_witness:
  "\<exists>report s'. sync demo_host idle_library demo_slug idle_state = (Inr report, s') \<and>
    mt_polls (pump_events (map Delivered (ls_events s')) no_metrics) [show_attr demo_slug, (''ok'', AttrBool True)] = 1"
proof -
  obtain report s' where run: "sync demo_host idle_library demo_slug idle_state = (Inr report, s')"
    using idle_sync_report by blast
  have "ls_events idle_state = []" by (simp add: idle_state_def demo_state_def)
  with metrics_match_report [OF run, of no_metrics] run show ?thesis by (auto simp: no_metrics_def)
qed

end
