(* ===== verification/Sync_Outcome.thy ===== *)
theory Sync_Outcome
  imports Sync_Events Intact
begin

text \<open>
  When a sync fails, and which episodes it tries to download.  Nothing but the provider makes the
  sync of a configured show fail; and what counts as its listing depends on whether the provider
  sent one or said that nothing has changed.
\<close>

section \<open>Only the listing can fail\<close>

lemma is_show_update [simp]:
  "(\<And>r. is_show slug (f r) = is_show slug r) \<Longrightarrow> list_ex (is_show slug) (update_where P f rows) = list_ex (is_show slug) rows"
  by (auto simp: list_ex_iff set_update_where)

lemma upsert_registers:
  assumes "sm_slug meta = slug"
  shows "list_ex (is_show slug) (show_rows (after d (upsert_show meta provider d)))"
proof (cases "list_ex (is_show slug) (show_rows d)")
  case True
  have "is_show slug (r\<lparr>s_provider := p, s_title := t, s_description := x\<rparr>) = is_show slug r" for r p t x
    by (simp add: is_show_def)
  with True assms show ?thesis by (simp add: upsert_show_def)
qed (use assms in \<open>simp add: upsert_show_def\<close>, simp add: is_show_def new_show_row_def)

lemma cache_artwork_registered:
  assumes "list_ex (is_show slug) (show_rows (ls_db s))"
  shows "list_ex (is_show slug) (show_rows (ls_db (cache_artwork H L sc meta slug s)))"
proof (cases "storage_show (host_codec H) slug (ls_db s)")
  case (Inr found)
  show ?thesis
  proof (cases "pick_art_source sc meta")
    case (Some src)
    let ?dest = "art_dest H L slug src"
    obtain b s1 where f: "art_fetch H ?dest src (tick s) = (b, s1)" by fastforce
    obtain x s2 where m: "stored (set_artwork_path slug ?dest (ls_db s1)) s1 = (x, s2)" by fastforce
    have "list_ex (is_show slug) (show_rows (ls_db s1))" using art_fetch_disk [OF f] assms by simp
    moreover have "list_ex (is_show slug) (show_rows (ls_db s2)) = list_ex (is_show slug) (show_rows (ls_db s1))"
      unfolding stored_db [OF m] by (simp add: set_artwork_path_def is_show_def)
    ultimately show ?thesis using assms
      by (auto simp: cache_artwork_def Inr Some Let_def f m split: bool.split sum.split option.split)
  qed (use assms in \<open>simp add: cache_artwork_def Inr Let_def\<close>)
qed (use assms in \<open>simp add: cache_artwork_def\<close>)

lemma stored_Inr: "r = Inr (a, d') \<Longrightarrow> stored r s = (Inr a, tick (s\<lparr>ls_db := d'\<rparr>))"
  by (simp add: stored_def tick_def)

text \<open>Once the metadata is there the listing is stored, and then its validator.\<close>

lemma record_listing_stores:
  assumes "host_ok H" "valid_slug slug" "sm_slug meta = slug" "\<forall>m \<in> set es. valid_id (em_id m)"
    "db_inv (host_codec H) (ls_db s)"
  shows "\<exists>n d s'. record_listing H L sc slug es etag meta s = (Inr (map em_id es, n), s') \<and>
    ls_db s' = after d (set_episodes_etag slug etag d) \<and> (\<forall>m \<in> set es. view (host_codec H) d slug (em_id m) \<noteq> None)"
proof -
  let ?X = "host_codec H"
  have codec: "codec_ok ?X" using assms(1) by (simp add: host_ok_def)
  obtain d1 where d1: "upsert_show meta (sc_provider sc) (ls_db s) = Inr ((), d1)" by (simp add: upsert_show_def)
  let ?s1 = "tick (s\<lparr>ls_db := d1\<rparr>)"
  let ?s2 = "cache_artwork H L sc meta slug ?s1"
  have "list_ex (is_show slug) (show_rows d1)"
    using upsert_registers [OF assms(3), of "ls_db s" "sc_provider sc"] d1 by simp
  then have reg: "list_ex (is_show slug) (show_rows (ls_db ?s2))"
    using cache_artwork_registered [of slug ?s1] by simp
  have "db_inv ?X d1" using upsert_show_inv [OF assms(5), of meta "sc_provider sc" d1] d1 assms(2,3) by simp
  then have inv: "db_inv ?X (ls_db ?s2)"
    using reaches_inv [OF cache_artwork_reaches codec, of ?s1] by simp
  from discover_refines [OF codec assms(2) reg inv assms(4), of "host_clock H (ls_tick ?s2)"] obtain new d2 where
    d2: "discover ?X (host_clock H (ls_tick ?s2)) slug es (ls_db ?s2) = Inr (new, d2)"
      "view ?X d2 = spec_discover (host_clock H (ls_tick ?s2)) 0 slug es (view ?X (ls_db ?s2))" by blast
  have "\<exists>n s'. record_listing H L sc slug es etag meta s = (Inr (map em_id es, n), s') \<and>
      ls_db s' = after d2 (set_episodes_etag slug etag d2)"
    by (simp add: record_listing_def Let_def stored_Inr [OF d1] stored_Inr [OF d2(1)])
      (simp add: set_episodes_etag_def stored_def)
  moreover have "\<forall>m \<in> set es. view ?X d2 slug (em_id m) \<noteq> None"
    unfolding d2(2) by (intro ballI) (rule spec_discover_listed)
  ultimately show ?thesis by blast
qed

lemma finish_sync_completes:
  assumes "host_ok H" "provider_ok (pv :: 'u provider)" "db_inv (host_codec H) (ls_db s)"
  shows "\<exists>report s'. finish_sync H L pv slug policy records window discovered s = (Inr report, s')"
proof -
  let ?X = "host_codec H" and ?pending = "host_order H (ls_tick s) (pending_downloads policy records window)"
  obtain n s1 where d: "download_all H L pv slug ?pending 0 s = (n, s1)" by fastforce
  have "reaches ?X (within slug (r_id ` set ?pending) :: 'u storage_op \<Rightarrow> bool) (ls_db s) (ls_db s1)"
    using download_all_reaches [OF assms(2) order.refl, where H = H and slug = slug and s = s and L = L and eps = "?pending"] d
    by (metis snd_conv)
  then have inv: "db_inv ?X (ls_db s1)"
    using reaches_inv assms(1,3) by (auto simp: host_ok_def)
  obtain cs where "storage_episodes ?X slug (ls_db s1) = Inr cs" using storage_episodes_total [OF inv] by blast
  from apply_retention_effect [OF inv this, of policy] obtain k s2 where
    s2: "apply_retention H slug policy s1 = (Inr k, s2)" by blast
  show ?thesis by (simp add: finish_sync_def Let_def d s2 record_poll_def stored_def)
qed

lemma take_listing_inv:
  assumes "host_ok H" "provider_ok (pv :: 'u provider)" "valid_slug slug" "db_inv (host_codec H) (ls_db s)"
    "\<forall>es tag. listing = Modified es tag \<longrightarrow> (\<forall>e \<in> set es. valid_id (em_id e))"
  shows "db_inv (host_codec H) (ls_db (snd (take_listing H L sc pv slug limit listing s)))"
  using reaches_inv [OF take_listing_reaches [OF assms(2,3,5)]] assms(1,4) by (auto simp: host_ok_def)

text \<open>The window: the listed ids, or the newest stored ones.\<close>

definition window_of :: "u32 option \<Rightarrow> episode_listing \<Rightarrow> episode_record list \<Rightarrow> episode_id list" where
  "window_of limit listing records =
     (case listing of
        Modified es tag \<Rightarrow> map em_id es
      | NotModified \<Rightarrow> map r_id (case limit of None \<Rightarrow> records | Some n \<Rightarrow> take (unat n) records))"

lemma take_listing_completes:
  assumes "host_ok H" "provider_ok pv" "valid_slug slug" "db_inv (host_codec H) (ls_db s)"
    "\<forall>es tag. listing = Modified es tag \<longrightarrow> (\<forall>e \<in> set es. valid_id (em_id e))"
    "\<And>es tag. listing = Modified es tag \<Longrightarrow> \<exists>meta. pv_show pv (ls_tick s) slug = Inr meta"
    "storage_episodes (host_codec H) slug (ls_db s) = Inr records"
  shows "\<exists>n s'. take_listing H L sc pv slug limit listing s = (Inr (window_of limit listing records, n), s')"
proof (cases listing)
  case (Modified es tag)
  with assms(6) obtain meta where meta: "pv_show pv (ls_tick s) slug = Inr meta" by blast
  with assms(2) have "sm_slug meta = slug" by (auto simp: provider_ok_def)
  from record_listing_stores [OF assms(1,3) this, of es "tick s" L sc tag] assms(4,5) Modified meta show ?thesis
    by (auto simp: take_listing_def window_of_def)
next
  case NotModified
  with assms(7) show ?thesis by (simp add: take_listing_def window_of_def)
qed

text \<open>The poll, from the answer of the provider on.\<close>

definition polled :: "'u provider \<Rightarrow> nat \<Rightarrow> show_slug \<Rightarrow> u32 option \<Rightarrow> string option \<Rightarrow> 'u provider_error + episode_listing" where
  "polled pv t slug limit etag =
     bind_res (pv_episodes pv t slug limit etag) (\<lambda>listing.
       case listing of
         Modified es tag \<Rightarrow> map_res (\<lambda>meta. listing) (pv_show pv (Suc t) slug)
       | NotModified \<Rightarrow> Inr listing)"

lemma fail_poll_fst: "fst (fail_poll H L slug err s) = Inl (LibProvider err)"
  using fail_poll_outcome [OF surjective_pairing] by blast

lemma andThen_failed: "fst rs = Inl e \<Longrightarrow> fst (andThen rs f) = Inl e"
  by (cases rs) auto

lemma poll_listing_failed:
  assumes "polled pv (ls_tick s) slug (show_fetch_last sc (cfg_fetch_last (lib_config L))) etag = Inl err"
  shows "fst (poll_listing H L sc pv slug etag s) = Inl (LibProvider err)"
proof -
  let ?answer = "pv_episodes pv (ls_tick s) slug (show_fetch_last sc (cfg_fetch_last (lib_config L))) etag"
  show ?thesis
  proof (cases ?answer)
    case (Inl e)
    with assms show ?thesis by (simp add: polled_def poll_listing_def fail_poll_fst)
  next
    case (Inr listing)
    with assms obtain es tag where m: "listing = Modified es tag" "pv_show pv (Suc (ls_tick s)) slug = Inl err"
      by (cases listing) (auto simp: polled_def map_res_Inl_iff)
    have "take_listing H L sc pv slug limit listing (tick s) = fail_poll H L slug err (tick (tick s))" for limit
      by (simp add: take_listing_def m tick_def)
    then show ?thesis by (simp add: poll_listing_def Inr andThen_failed fail_poll_fst)
  qed
qed

lemma poll_listing_completes:
  fixes pv :: "'u provider"
  assumes "host_ok H" "provider_ok pv" "valid_slug slug" "db_inv (host_codec H) (ls_db s)"
    "storage_episodes (host_codec H) slug (ls_db s) = Inr before"
    "polled pv (ls_tick s) slug (show_fetch_last sc (cfg_fetch_last (lib_config L))) etag = Inr listing"
  shows "\<exists>records report n s1 s'. poll_listing H L sc pv slug etag s = (Inr report, s') \<and>
    take_listing H L sc pv slug (show_fetch_last sc (cfg_fetch_last (lib_config L))) listing (tick s) =
      (Inr (window_of (show_fetch_last sc (cfg_fetch_last (lib_config L))) listing before, n), s1) \<and>
    storage_episodes (host_codec H) slug (ls_db s1) = Inr records \<and>
    finish_sync H L pv slug (show_retention sc (cfg_retention (lib_config L))) records
      (window_of (show_fetch_last sc (cfg_fetch_last (lib_config L))) listing before) n (tick s1) = (Inr report, s')"
proof -
  let ?limit = "show_fetch_last sc (cfg_fetch_last (lib_config L))"
  let ?w = "window_of ?limit listing before"
  have answer: "pv_episodes pv (ls_tick s) slug ?limit etag = Inr listing"
    and meta: "\<And>es tag. listing = Modified es tag \<Longrightarrow> \<exists>meta. pv_show pv (ls_tick (tick s)) slug = Inr meta"
    using assms(6) by (cases "pv_episodes pv (ls_tick s) slug ?limit etag"; cases "projr (pv_episodes pv (ls_tick s) slug ?limit etag)";
      auto simp: polled_def map_res_Inr_iff tick_def)+
  have ids: "\<forall>es tag. listing = Modified es tag \<longrightarrow> (\<forall>e \<in> set es. valid_id (em_id e))"
    using provider_ok_ids [OF assms(2)] answer by blast
  have inv: "db_inv (host_codec H) (ls_db (tick s))"
    and rec: "storage_episodes (host_codec H) slug (ls_db (tick s)) = Inr before" using assms(4,5) by simp_all
  obtain n s1 where t: "take_listing H L sc pv slug ?limit listing (tick s) = (Inr (?w, n), s1)"
    using take_listing_completes [OF assms(1-3) inv ids _ rec, of L sc ?limit] meta by blast
  have inv1: "db_inv (host_codec H) (ls_db (tick s1))"
    using take_listing_inv [OF assms(1-3) inv ids, of L sc ?limit] t by simp
  obtain records where r: "storage_episodes (host_codec H) slug (ls_db s1) = Inr records"
    using storage_episodes_total [OF inv1] by auto
  from finish_sync_completes [OF assms(1,2) inv1] obtain report s' where
    f: "finish_sync H L pv slug (show_retention sc (cfg_retention (lib_config L))) records ?w n (tick s1) = (Inr report, s')"
    by blast
  have "poll_listing H L sc pv slug etag s = (Inr report, s')"
    by (simp add: poll_listing_def answer t r f)
  with t r f show ?thesis by blast
qed

text \<open>Before it the sync reads the validator and heals what a dead process left.\<close>

definition healed :: "'u host \<Rightarrow> show_slug \<Rightarrow> lib_state \<Rightarrow> lib_state" where
  "healed H slug s =
     (let t = tick (emit (PollStarted slug) s)
      in snd (stored (reset_stale_downloads (host_codec H) (now_at H t) slug stale_download_after (ls_db t)) t))"

lemma healed_simps [simp]:
  "ls_db (healed H slug s) = after (ls_db s)
     (reset_stale_downloads (host_codec H) (now_at H (tick (emit (PollStarted slug) s))) slug stale_download_after (ls_db s))"
  "ls_events (healed H slug s) = ls_events s @ [PollStarted slug]"
  "ls_tick (healed H slug s) = Suc (Suc (ls_tick s))"
  by (simp_all add: healed_def Let_def) (simp add: reset_stale_downloads_def stored_def tick_def emit_def Let_def)

lemma sync_polls:
  assumes "find_show L slug = Inr sc" "get_provider L (sc_provider sc) = Inr pv"
    "storage_show (host_codec H) slug (ls_db s) = Inr found"
  shows "sync H L slug s = poll_listing H L sc pv slug (Option.bind found rs_episodes_etag) (healed H slug s)"
proof -
  let ?t = "tick (emit (PollStarted slug) s)"
  obtain n d where r: "reset_stale_downloads (host_codec H) (now_at H ?t) slug stale_download_after (ls_db s) = Inr (n, d)"
    by (simp add: reset_stale_downloads_def Let_def)
  show ?thesis by (simp add: sync_def healed_def Let_def assms r stored_def)
qed

section \<open>Which episodes are tried\<close>

lemma tried_events:
  assumes "map fst results = map r_id eps" "set eps = A"
  shows "(\<exists>r. DownloadFinished slug i r \<in> set (map (\<lambda>(i, r). DownloadFinished slug i r) results)) \<longleftrightarrow> i \<in> r_id ` A"
proof -
  have "i \<in> r_id ` A \<longleftrightarrow> i \<in> set (map fst results)" by (simp add: assms)
  then show ?thesis by force
qed

text \<open>Exactly the pending ones.\<close>

lemma finish_sync_tries:
  assumes "host_ok H" "finish_sync H L pv slug policy records window n s = (Inr report, s')"
  shows "(\<exists>r. DownloadFinished slug i r \<in> set (drop (length (ls_events s)) (ls_events s'))) \<longleftrightarrow>
    i \<in> r_id ` set (pending_downloads policy records window)"
proof -
  from finish_sync_events [OF assms(2)] obtain results freed where
    "ls_events s' = ls_events s @ map (\<lambda>(i, r). DownloadFinished slug i r) results @
      (if 0 < sr_pruned report then [EpisodesPruned slug (sr_pruned report) freed] else []) @ [PollFinished slug True n]"
    "map fst results = map r_id (host_order H (ls_tick s) (pending_downloads policy records window))"
    by auto
  with tried_events [OF this(2) host_order_set [OF assms(1)], of slug i] show ?thesis by auto
qed

lemma take_listing_quiet:
  assumes "take_listing H L sc pv slug limit listing s = (Inr (window, n), s')"
  shows "\<exists>new. ls_events s' = ls_events s @ new \<and> (\<forall>i r. DownloadFinished slug i r \<notin> set new)"
proof -
  from take_listing_events [OF assms] obtain new where
    "ls_events s' = ls_events s @ map (EpisodeDiscovered slug) new" by blast
  then show ?thesis by (intro exI [of _ "map (EpisodeDiscovered slug) new"]) auto
qed

lemma split_unlimited:
  assumes "keep_last p = None" "max_bytes p = None"
  shows "fst (split p cs) = map cand_id cs"
proof -
  have "chosen p kb k cs = cs" for kb k
    by (induction cs arbitrary: kb k) (simp_all add: over_count_def over_bytes_def assms)
  then show ?thesis by (simp add: split_eq)
qed

lemma pending_unlimited:
  assumes "keep_last p = None" "max_bytes p = None" "distinct (map r_id records)"
  shows "set (pending_downloads p records (map r_id records)) = {e \<in> set records. awaits_download (r_state e)}"
proof -
  have "cand_id (\<lparr>cand_id = i, cand_bytes = b\<rparr> :: candidate) = i" for i b by simp
  then have want: "set (fst (split p (listing_candidates records (map r_id records)))) = r_id ` set records"
    by (auto simp: split_unlimited [OF assms(1,2)] listing_candidates_def)
  have "List.find (\<lambda>ep. r_id ep = r_id e) records = Some e" if "e \<in> set records" for e
    using find_distinct [OF assms(3) that] .
  then show ?thesis by (force simp: pending_downloads_def Let_def in_map_filter want)
qed

lemma pending_in_window:
  assumes "e \<in> set (pending_downloads p records window)"
  shows "r_id e \<in> set window"
  using assms by (auto simp: pending_downloads_def Let_def in_map_filter split: if_splits dest!: find_Some_mem)

text \<open>A record that waits for a download is left alone by the healing.\<close>

lemma healed_waiting:
  assumes "db_inv (host_codec H) (ls_db s)" "view (host_codec H) (ls_db s) slug i = Some e" "awaits_download (r_state e)"
  shows "view (host_codec H) (ls_db (healed H slug s)) slug i = Some e"
  using assms by (auto simp: view_after [OF reset_stale_refines [OF assms(1)]] spec_heal_def awaits_download_def)

lemma healed_db_inv: "db_inv (host_codec H) (ls_db s) \<Longrightarrow> db_inv (host_codec H) (ls_db (healed H slug s))"
  by (simp add: healed_inv)

section \<open>Properties\<close>



section \<open>The properties at work\<close>

lemma idle_followed:
  "find_show idle_library demo_slug = Inr demo_follow" "get_provider idle_library (sc_provider demo_follow) = Inr idle_provider"
  by (simp_all add: find_show_def get_provider_def idle_library_def demo_library_def)

lemma idle_polled: "polled idle_provider t slug limit etag = Inr NotModified"
  by (simp add: polled_def idle_provider_def)


text \<open>A show that keeps everything, whose provider has nothing new.\<close>

definition keeping_show :: "tuple_url show_config" where
  "keeping_show = demo_follow\<lparr>sc_retention := None\<rparr>"

definition keeping_library :: "tuple_url library" where
  "keeping_library = idle_library\<lparr>lib_config := (lib_config idle_library)\<lparr>cfg_shows := [keeping_show]\<rparr>\<rparr>"

lemma keeping_followed:
  "library_ok keeping_library" "find_show keeping_library demo_slug = Inr keeping_show"
  "get_provider keeping_library (sc_provider keeping_show) = Inr idle_provider"
  "show_fetch_last keeping_show (cfg_fetch_last (lib_config keeping_library)) = None"
  "keep_last (show_retention keeping_show (cfg_retention (lib_config keeping_library))) = None"
  "max_bytes (show_retention keeping_show (cfg_retention (lib_config keeping_library))) = None"
  using idle_library_ok
  by (simp_all add: keeping_library_def keeping_show_def find_show_def get_provider_def idle_library_def demo_library_def
      show_fetch_last_def show_retention_def keep_last_def max_bytes_def library_ok_def)


end
