(* ===== verification/Conditional.thy ===== *)
theory Conditional
  imports Sync_Outcome Intact_Facts
begin

text \<open>
  Conditional polls.  A sync stores the validator of the listing it took and sends it with the
  next poll; a provider that answers \<open>NotModified\<close> spares the listing.  Nothing is missed by
  that: the stored validator never stands for an episode that is not stored.
\<close>

section \<open>The validator a poll sends\<close>

definition stored_etag :: "codec \<Rightarrow> show_slug \<Rightarrow> db \<Rightarrow> string option" where
  "stored_etag X slug d =
     (case storage_show X slug d of Inl e \<Rightarrow> None | Inr found \<Rightarrow> Option.bind found rs_episodes_etag)"

lemma stored_etag_shows: "show_rows d' = show_rows d \<Longrightarrow> stored_etag X slug d' = stored_etag X slug d"
  by (simp add: stored_etag_def storage_show_def)

lemma stored_etag_polled:
  assumes "codec_ok X" "db_inv X d"
  shows "stored_etag X slug (after d (record_poll X t slug err d)) = stored_etag X slug d"
proof -
  obtain found where "storage_show X slug d = Inr found" using storage_show_total [OF assms(2)] by blast
  with storage_show_record_poll [OF assms(1) this, of t err] show ?thesis
    by (cases found) (simp_all add: stored_etag_def polled_show_def)
qed

lemma stored_etag_set:
  assumes "stored_etag X slug (after d (set_episodes_etag slug etag d)) = Some tag"
  shows "etag = Some tag"
proof -
  let ?f = "\<lambda>r. r\<lparr>s_episodes_etag := etag\<rparr>"
  have "List.find (is_show slug) (update_where (is_show slug) ?f (show_rows d)) =
      map_option (\<lambda>r. if is_show slug r then ?f r else r) (List.find (is_show slug) (show_rows d))"
    by (rule find_update_where) (simp add: is_show_def)
  with assms show ?thesis
    by (auto simp: stored_etag_def storage_show_def set_episodes_etag_def decode_show_def bind_res_Inr_iff
        map_res_Inr_iff dest: find_Some_mem split: option.splits sum.splits)
qed

section \<open>No record is forgotten\<close>

definition remembers :: "codec \<Rightarrow> show_slug \<Rightarrow> db \<Rightarrow> db \<Rightarrow> bool" where
  "remembers X slug d d' \<longleftrightarrow> (\<forall>i. view X d slug i \<noteq> None \<longrightarrow> view X d' slug i \<noteq> None)"

lemma remembers_refl [simp]: "view X d' = view X d \<Longrightarrow> remembers X slug d d'"
  by (simp add: remembers_def)

lemma remembers_trans: "remembers X slug a b \<Longrightarrow> remembers X slug b c \<Longrightarrow> remembers X slug a c"
  by (simp add: remembers_def)

lemma reaches_remembers:
  assumes "reaches X (Q :: 'u storage_op \<Rightarrow> bool) d d'" "codec_ok X" "db_inv X d"
  shows "remembers X slug d d'"
proof -
  have "remembers X slug d (run_ops X ps d)" if "list_all admissible ps" "db_inv X d" for ps :: "'u storage_op list" and d
    using that
  proof (induction ps arbitrary: d)
    case (Cons p ps)
    have "remembers X slug d (perform X p d)"
      unfolding remembers_def
    proof (intro allI impI)
      fix j
      assume "view X d slug j \<noteq> None"
      moreover have "lawful (view X d) (view X (perform X p d)) slug j (downloads (slug, j) p)"
        by (rule perform_lawful [OF assms(2) Cons.prems(2)]) (use Cons.prems(1) in simp)
      ultimately show "view X (perform X p d) slug j \<noteq> None" by (auto simp: lawful_def)
    qed
    moreover have "remembers X slug (perform X p d) (run_ops X ps (perform X p d))"
      using Cons perform_inv [OF assms(2) Cons.prems(2), of p] by simp
    ultimately show ?case by (simp add: run_ops_def) (rule remembers_trans)
  qed (simp add: run_ops_def)
  with assms(1,3) show ?thesis by (auto simp: reaches_def list_all_iff)
qed

section \<open>What the stored validator stands for\<close>

text \<open>The episodes a provider has ever listed under a validator.\<close>

definition listed_under :: "'u provider \<Rightarrow> show_slug \<Rightarrow> u32 option \<Rightarrow> string \<Rightarrow> episode_id set" where
  "listed_under pv slug limit tag =
     {i. \<exists>t etag es. pv_episodes pv t slug limit etag = Inr (Modified es (Some tag)) \<and> i \<in> em_id ` set es}"

text \<open>
  What a conditional request promises: listings under one validator name the same episodes; a
  listing is called unchanged only while its validator is the current one; and a listing sent
  in answer to a conditional request names whatever an unconditional one would have named.
\<close>

definition tells_changes :: "'u provider \<Rightarrow> show_slug \<Rightarrow> u32 option \<Rightarrow> bool" where
  "tells_changes pv slug limit \<longleftrightarrow>
     (\<forall>t etag es tag. pv_episodes pv t slug limit etag = Inr (Modified es (Some tag)) \<longrightarrow>
        listed_under pv slug limit tag \<subseteq> em_id ` set es) \<and>
     (\<forall>t tag es tag'. pv_episodes pv t slug limit (Some tag) = Inr NotModified \<longrightarrow>
        pv_episodes pv t slug limit None = Inr (Modified es tag') \<longrightarrow> tag' = Some tag) \<and>
     (\<forall>t etag es x es' x'. pv_episodes pv t slug limit etag = Inr (Modified es x) \<longrightarrow>
        pv_episodes pv t slug limit None = Inr (Modified es' x') \<longrightarrow> em_id ` set es' \<subseteq> em_id ` set es)"

lemma tells_changesD:
  assumes "tells_changes pv slug limit"
  shows "pv_episodes pv t slug limit etag = Inr (Modified es (Some tag)) \<Longrightarrow>
      i \<in> listed_under pv slug limit tag \<Longrightarrow> i \<in> em_id ` set es"
    "pv_episodes pv t slug limit (Some tag) = Inr NotModified \<Longrightarrow>
      pv_episodes pv t slug limit None = Inr (Modified es tag') \<Longrightarrow> tag' = Some tag"
    "pv_episodes pv t slug limit etag = Inr (Modified es x) \<Longrightarrow>
      pv_episodes pv t slug limit None = Inr (Modified es' x') \<Longrightarrow> m \<in> set es' \<Longrightarrow> em_id m \<in> em_id ` set es"
  using assms unfolding tells_changes_def by (blast, blast, blast)

definition covers :: "codec \<Rightarrow> 'u provider \<Rightarrow> show_slug \<Rightarrow> u32 option \<Rightarrow> db \<Rightarrow> bool" where
  "covers X pv slug limit d \<longleftrightarrow>
     (\<forall>tag. stored_etag X slug d = Some tag \<longrightarrow> (\<forall>i \<in> listed_under pv slug limit tag. view X d slug i \<noteq> None))"

lemma covers_kept:
  assumes "covers X pv slug limit d" "stored_etag X slug d' = stored_etag X slug d" "remembers X slug d d'"
  shows "covers X pv slug limit d'"
  using assms by (simp add: covers_def remembers_def)

text \<open>A change that leaves the rows of shows alone.\<close>

lemma covers_episodes:
  assumes "covers X pv slug limit d" "reaches X (Q :: 'u storage_op \<Rightarrow> bool) d d'" "show_rows d' = show_rows d"
    "codec_ok X" "db_inv X d"
  shows "covers X pv slug limit d'"
  using covers_kept [OF assms(1) stored_etag_shows [OF assms(3)] reaches_remembers [OF assms(2,4,5)]] .

lemma covers_stored_listing:
  assumes "tells_changes pv slug limit" "pv_episodes pv t slug limit etag = Inr (Modified es tag)"
    "\<forall>m \<in> set es. view X d slug (em_id m) \<noteq> None"
  shows "covers X pv slug limit (after d (set_episodes_etag slug tag d))"
  unfolding covers_def
proof (intro allI impI ballI)
  fix stored i
  assume "stored_etag X slug (after d (set_episodes_etag slug tag d)) = Some stored" "i \<in> listed_under pv slug limit stored"
  with assms(2) have "i \<in> em_id ` set es"
    by (auto dest!: stored_etag_set intro: tells_changesD(1) [OF assms(1)])
  with assms(3) show "view X (after d (set_episodes_etag slug tag d)) slug i \<noteq> None" by auto
qed

section \<open>The stages of a sync\<close>

lemma download_all_shows [simp]: "show_rows (ls_db (snd (download_all H L pv slug eps n s))) = show_rows (ls_db s)"
proof (induction eps arbitrary: n s)
  case (Cons ep eps)
  have "show_rows (ls_db (snd (download_episode H L pv slug ep s))) = show_rows (ls_db s)" by simp
  with Cons show ?case by (cases "download_episode H L pv slug ep s") simp
qed simp

lemma failed_poll_covers:
  assumes "fail_poll H L slug err s = (r, s')" "covers (host_codec H) pv slug limit (ls_db s)"
    "codec_ok (host_codec H)" "db_inv (host_codec H) (ls_db s)"
  shows "covers (host_codec H) pv slug limit (ls_db s')"
proof -
  have "ls_db s' = failed_poll_db H slug err s" using assms(1) fail_poll_db by (metis snd_conv)
  with covers_kept [OF assms(2) stored_etag_polled [OF assms(3,4)]] show ?thesis
    by (simp add: failed_poll_db_def)
qed

lemma finish_sync_covers:
  assumes "host_ok H" "provider_ok (pv :: 'u provider)" "db_inv (host_codec H) (ls_db s)"
  shows "stored_etag (host_codec H) slug (ls_db (snd (finish_sync H L pv slug policy records window n s))) =
      stored_etag (host_codec H) slug (ls_db s) \<and>
    remembers (host_codec H) slug (ls_db s) (ls_db (snd (finish_sync H L pv slug policy records window n s)))"
proof -
  let ?X = "host_codec H" and ?eps = "host_order H (ls_tick s) (pending_downloads policy records window)"
  have codec: "codec_ok ?X" using assms(1) by (simp add: host_ok_def)
  have all: "reaches ?X (within slug UNIV :: 'u storage_op \<Rightarrow> bool) (ls_db s)
      (ls_db (snd (finish_sync H L pv slug policy records window n s)))"
    by (rule finish_sync_reaches [OF assms(1,2) subset_UNIV])
  obtain k s1 where d: "download_all H L pv slug ?eps 0 s = (k, s1)" by fastforce
  have "reaches ?X (within slug UNIV :: 'u storage_op \<Rightarrow> bool) (ls_db s) (ls_db s1)"
    using download_all_reaches [OF assms(2) subset_UNIV, of H slug s L ?eps 0] d by simp
  from reaches_inv [OF this codec assms(3)] have inv1: "db_inv ?X (ls_db s1)" .
  have shows1: "show_rows (ls_db s1) = show_rows (ls_db s)"
    using download_all_shows [of H L pv slug ?eps 0 s] d by simp
  obtain r s2 where a: "apply_retention H slug policy s1 = (r, s2)" by fastforce
  have "reaches ?X (within slug UNIV :: 'u storage_op \<Rightarrow> bool) (ls_db s1) (ls_db s2)"
    using apply_retention_reaches [of H slug UNIV s1 policy] a by simp
  from reaches_inv [OF this codec inv1] have inv2: "db_inv ?X (ls_db s2)" .
  have shows2: "show_rows (ls_db s2) = show_rows (ls_db s)"
    using apply_retention_shows [of H slug policy s1] a shows1 by simp
  have "stored_etag ?X slug (ls_db (snd (finish_sync H L pv slug policy records window n s))) = stored_etag ?X slug (ls_db s2)"
    using stored_etag_polled [OF codec inv2, of slug "now_at H s2" None]
    by (cases r) (simp_all add: finish_sync_def Let_def d a record_poll_def stored_def)
  with stored_etag_shows [OF shows2] reaches_remembers [OF all codec assms(3)] show ?thesis by simp
qed

lemma take_listing_covers:
  fixes pv :: "'u provider"
  assumes "host_ok H" "provider_ok pv" "valid_slug slug" "tells_changes pv slug limit"
    "db_inv (host_codec H) (ls_db s)" "covers (host_codec H) pv slug limit (ls_db s)"
    "pv_episodes pv t slug limit (stored_etag (host_codec H) slug (ls_db s)) = Inr listing"
    "take_listing H L sc pv slug limit listing s = (Inr (window, n), s1)"
  shows "covers (host_codec H) pv slug limit (ls_db s1) \<and>
    (\<forall>es tag. pv_episodes pv t slug limit None = Inr (Modified es tag) \<longrightarrow>
       (\<forall>m \<in> set es. view (host_codec H) (ls_db s1) slug (em_id m) \<noteq> None))"
proof (cases listing)
  case (Modified es tag)
  from assms(8) obtain meta where meta: "pv_show pv (ls_tick s) slug = Inr meta"
    by (cases "pv_show pv (ls_tick s) slug")
      (auto simp: take_listing_def Modified dest: fail_poll_outcome)
  with assms(2) have slug: "sm_slug meta = slug" by (auto simp: provider_ok_def)
  have "\<forall>m \<in> set es. valid_id (em_id m)" using provider_ok_ids [OF assms(2)] assms(7) Modified by blast
  from record_listing_stores [OF assms(1,3) slug this, of "tick s" L sc tag] assms(5,8) Modified meta obtain d where
    d: "ls_db s1 = after d (set_episodes_etag slug tag d)" "\<forall>m \<in> set es. view (host_codec H) d slug (em_id m) \<noteq> None"
    by (auto simp: take_listing_def)
  have "view (host_codec H) (ls_db s1) slug (em_id m) \<noteq> None"
    if "pv_episodes pv t slug limit None = Inr (Modified es' tag')" "m \<in> set es'" for es' tag' m
  proof -
    from tells_changesD(3) [OF assms(4) _ that] assms(7) Modified have "em_id m \<in> em_id ` set es" by blast
    with d show ?thesis by auto
  qed
  with covers_stored_listing [OF assms(4) assms(7) [unfolded Modified] d(2)] d(1) show ?thesis by simp
next
  case NotModified
  then have same: "ls_db s1 = ls_db s"
    using assms(8) by (cases "storage_episodes (host_codec H) slug (ls_db s)") (auto simp: take_listing_def)
  have "view (host_codec H) (ls_db s) slug (em_id m) \<noteq> None"
    if now: "pv_episodes pv t slug limit None = Inr (Modified es tag)" "m \<in> set es" for es tag m
  proof -
    from assms(7) NotModified now(1) obtain stored where
      stored: "stored_etag (host_codec H) slug (ls_db s) = Some stored"
      by (cases "stored_etag (host_codec H) slug (ls_db s)") auto
    with tells_changesD(2) [OF assms(4) _ now(1)] assms(7) NotModified have "tag = Some stored" by simp
    with now have "em_id m \<in> listed_under pv slug limit stored" unfolding listed_under_def by blast
    with assms(6) stored show ?thesis by (simp add: covers_def)
  qed
  with assms(6) same show ?thesis by simp
qed

text \<open>
  Whatever the poll brings, the stored validator keeps standing for stored episodes only, and a
  poll that ends well has stored what an unconditional one would have listed at that moment.
\<close>

lemma poll_listing_covers:
  fixes pv :: "'u provider"
  assumes "host_ok H" "provider_ok pv" "valid_slug slug" "tells_changes pv slug limit"
    "limit = show_fetch_last sc (cfg_fetch_last (lib_config L))" "db_inv (host_codec H) (ls_db s)"
    "covers (host_codec H) pv slug limit (ls_db s)" "etag = stored_etag (host_codec H) slug (ls_db s)"
    "poll_listing H L sc pv slug etag s = (r, s')"
  shows "covers (host_codec H) pv slug limit (ls_db s') \<and>
    (\<forall>report es tag. r = Inr report \<longrightarrow> pv_episodes pv (ls_tick s) slug limit None = Inr (Modified es tag) \<longrightarrow>
       (\<forall>m \<in> set es. view (host_codec H) (ls_db s') slug (em_id m) \<noteq> None))"
proof (cases "polled pv (ls_tick s) slug limit etag")
  case (Inl err)
  then have failed: "r = Inl (LibProvider err)"
    using poll_listing_failed [of pv s slug sc L etag err H] assms(5,9) by simp
  have codec: "codec_ok (host_codec H)" using assms(1) by (simp add: host_ok_def)
  have "covers (host_codec H) pv slug limit (ls_db s')"
  proof (cases "pv_episodes pv (ls_tick s) slug limit etag")
    case (Inl e)
    with assms(5,9) have "fail_poll H L slug e (tick s) = (r, s')" by (simp add: poll_listing_def)
    from failed_poll_covers [OF this _ codec] assms(6,7) show ?thesis by simp
  next
    case (Inr listing)
    with \<open>polled pv (ls_tick s) slug limit etag = Inl err\<close> obtain es tag where
      m: "listing = Modified es tag" "pv_show pv (Suc (ls_tick s)) slug = Inl err"
      by (cases listing) (auto simp: polled_def map_res_Inl_iff)
    obtain x t where f: "(fail_poll H L slug err (tick (tick s)) :: ('u library_error + episode_id list \<times> u32) \<times> lib_state) = (x, t)"
      by fastforce
    have "take_listing H L sc pv slug limit listing (tick s) = (x, t)"
      using f by (simp add: take_listing_def m tick_def)
    moreover have "x = Inl (LibProvider err)" using fail_poll_outcome [OF f] by simp
    ultimately have "s' = t" using Inr assms(5,9) by (simp add: poll_listing_def)
    with failed_poll_covers [OF f _ codec] assms(6,7) show ?thesis by simp
  qed
  with failed show ?thesis by simp
next
  case (Inr listing)
  let ?X = "host_codec H"
  have codec: "codec_ok ?X" using assms(1) by (simp add: host_ok_def)
  obtain before where before: "storage_episodes ?X slug (ls_db s) = Inr before"
    using storage_episodes_total [OF assms(6)] by blast
  from poll_listing_completes [OF assms(1-3,6) before Inr [unfolded assms(5)]] assms(9) obtain records n window s1 where
    run: "take_listing H L sc pv slug limit listing (tick s) = (Inr (window, n), s1)"
      "finish_sync H L pv slug (show_retention sc (cfg_retention (lib_config L))) records window n (tick s1) = (r, s')"
    unfolding assms(5) [symmetric] by auto
  have answer: "pv_episodes pv (ls_tick s) slug limit etag = Inr listing"
    using Inr unfolding polled_def bind_res_Inr_iff
    by (elim exE conjE, rename_tac got, case_tac got) (auto simp: map_res_Inr_iff)
  with provider_ok_ids [OF assms(2)]
  have ids: "\<forall>es tag. listing = Modified es tag \<longrightarrow> (\<forall>e \<in> set es. valid_id (em_id e))" by blast
  have inv: "db_inv ?X (ls_db (tick s1))"
    using take_listing_inv [OF assms(1-3) _ ids, of "tick s" L sc limit] assms(6) run(1) by simp
  from take_listing_covers [OF assms(1-4) _ _ _ run(1), of "ls_tick s"] assms(6-8) answer have
    s1: "covers ?X pv slug limit (ls_db s1)"
      "\<And>es tag m. pv_episodes pv (ls_tick s) slug limit None = Inr (Modified es tag) \<Longrightarrow> m \<in> set es \<Longrightarrow>
         view ?X (ls_db s1) slug (em_id m) \<noteq> None" by auto
  from finish_sync_covers [OF assms(1,2) inv, of slug L "show_retention sc (cfg_retention (lib_config L))" records window n]
  have fin: "stored_etag ?X slug (ls_db s') = stored_etag ?X slug (ls_db s1)" "remembers ?X slug (ls_db s1) (ls_db s')"
    by (simp_all add: run(2))
  from covers_kept [OF s1(1) fin] s1(2) fin(2) show ?thesis by (simp add: remembers_def)
qed

lemma sync_covers:
  assumes "host_ok H" "library_ok L" "valid_slug slug" "tells_changes pv slug limit"
    "find_show L slug = Inr sc" "get_provider L (sc_provider sc) = Inr pv"
    "limit = show_fetch_last sc (cfg_fetch_last (lib_config L))" "db_inv (host_codec H) (ls_db s)"
    "covers (host_codec H) pv slug limit (ls_db s)" "sync H L slug s = (r, s')"
  shows "covers (host_codec H) pv slug limit (ls_db s') \<and>
    (\<forall>report es tag. r = Inr report \<longrightarrow>
       pv_episodes pv (Suc (Suc (ls_tick s))) slug limit None = Inr (Modified es tag) \<longrightarrow>
       (\<forall>m \<in> set es. view (host_codec H) (ls_db s') slug (em_id m) \<noteq> None))"
proof -
  let ?X = "host_codec H" and ?h = "healed H slug s"
  have codec: "codec_ok ?X" using assms(1) by (simp add: host_ok_def)
  obtain found where found: "storage_show ?X slug (ls_db s) = Inr found"
    using storage_show_total [OF assms(8)] by blast
  have rows: "show_rows (ls_db ?h) = show_rows (ls_db s)" by simp
  have "remembers ?X slug (ls_db s) (ls_db ?h)"
    by (auto simp: remembers_def view_after [OF reset_stale_refines [OF assms(8)]] spec_heal_def)
  from covers_kept [OF assms(9) stored_etag_shows [OF rows] this] have covered: "covers ?X pv slug limit (ls_db ?h)" .
  have etag: "Option.bind found rs_episodes_etag = stored_etag ?X slug (ls_db ?h)"
    using found unfolding stored_etag_shows [OF rows] by (simp add: stored_etag_def)
  have "poll_listing H L sc pv slug (Option.bind found rs_episodes_etag) ?h = (r, s')"
    using sync_polls [OF assms(5,6) found] assms(10) by simp
  from poll_listing_covers [OF assms(1) find_show_get_provider [OF assms(6,2)] assms(3,4,7)
      healed_db_inv [OF assms(8)] covered etag this]
  show ?thesis by simp
qed

section \<open>Histories\<close>

text \<open>
  Calls by libraries that may have been reloaded and may disagree about everything else: where
  they configure the show, it is with this provider and this \<open>fetch_last\<close>.
\<close>

fun follows :: "'u provider \<Rightarrow> show_slug \<Rightarrow> u32 option \<Rightarrow> 'u library_call \<Rightarrow> bool" where
  "follows pv slug limit (CallSync L show) \<longleftrightarrow>
     library_ok L \<and> valid_slug show \<and>
     (show = slug \<longrightarrow> (\<forall>sc pv'. find_show L slug = Inr sc \<longrightarrow> get_provider L (sc_provider sc) = Inr pv' \<longrightarrow>
        pv' = pv \<and> show_fetch_last sc (cfg_fetch_last (lib_config L)) = limit))"
| "follows pv slug limit (CallVerify L show fix_files) \<longleftrightarrow> library_ok L"

lemma sync_unknown:
  assumes "find_show L slug = Inl e \<or> (\<exists>sc. find_show L slug = Inr sc \<and> get_provider L (sc_provider sc) = Inl e)"
  shows "ls_db (snd (sync H L slug s)) = ls_db s"
  using assms by (auto simp: sync_def)

lemma verify_episode_db:
  fixes pv :: "'u provider option"
  assumes "host_ok H" "\<forall>p. pv = Some p \<longrightarrow> provider_ok p" "verify_episode H L pv slug ep s = (out, s')"
  shows "reaches (host_codec H) (within slug UNIV :: 'u storage_op \<Rightarrow> bool) (ls_db s) (ls_db s') \<and>
    show_rows (ls_db s') = show_rows (ls_db s)"
proof (cases "check_file H (ls_fs s) ep")
  case problem: (Some problem)
  show ?thesis
  proof (cases pv)
    case (Some p)
    obtain success t where d: "download_episode H L p slug ep (tick s) = (success, t)" by fastforce
    have "provider_ok p" using Some assms(2) by simp
    from download_episode_reaches [OF this UNIV_I, of H slug "tick s" L ep] download_episode_shows [of H L p slug ep "tick s"]
    show ?thesis using assms(3) d by (auto simp: verify_episode_def problem Some)
  qed (use assms(3) in \<open>auto simp: verify_episode_def problem\<close>)
qed (use assms(3) in \<open>auto simp: verify_episode_def\<close>)

lemma verify_all_db:
  fixes pv :: "'u provider option"
  assumes "host_ok H" "\<forall>p. pv = Some p \<longrightarrow> provider_ok p"
  shows "reaches (host_codec H) (within slug UNIV :: 'u storage_op \<Rightarrow> bool) (ls_db s) (ls_db (snd (verify_all H L pv slug eps s))) \<and>
    show_rows (ls_db (snd (verify_all H L pv slug eps s))) = show_rows (ls_db s)"
proof (induction eps arbitrary: s)
  case (Cons ep eps)
  obtain out s1 where v: "verify_episode H L pv slug ep s = (out, s1)" by fastforce
  from verify_episode_db [OF assms v] Cons [of s1] show ?case
    by (auto simp: v split: prod.split intro: reaches_trans)
qed simp

lemma verify_db:
  fixes L :: "'u library"
  assumes "host_ok H" "library_ok L" "db_inv (host_codec H) (ls_db s)"
  shows "reaches (host_codec H) (within slug UNIV :: 'u storage_op \<Rightarrow> bool) (ls_db s) (ls_db (snd (verify H L slug fix_files s))) \<and>
    show_rows (ls_db (snd (verify H L slug fix_files s))) = show_rows (ls_db s)"
proof -
  let ?pv = "if fix_files then map_res Some (bind_res (find_show L slug) (\<lambda>sc. get_provider L (sc_provider sc))) else Inr None"
  obtain records where records: "storage_episodes (host_codec H) slug (ls_db s) = Inr records"
    using storage_episodes_total [OF assms(3)] by blast
  show ?thesis
  proof (cases ?pv)
    case (Inl e)
    then show ?thesis by (simp add: verify_def)
  next
    case (Inr pv)
    then have "\<forall>p. pv = Some p \<longrightarrow> provider_ok p"
      using find_show_get_provider [OF _ assms(2)] by (auto simp: map_res_Inr_iff bind_res_Inr_iff split: if_splits)
    note all = verify_all_db [OF assms(1) this, of slug "tick s" L]
    show ?thesis
      unfolding verify_def Inr using all [of "host_order H (ls_tick (tick s)) (filter (\<lambda>ep. r_state ep = Cached) records)"]
      by (auto simp: records Let_def split: prod.split)
  qed
qed

lemma call_covers:
  assumes "host_ok H" "valid_slug slug" "tells_changes pv slug limit" "follows pv slug limit c"
    "db_inv (host_codec H) (ls_db s)" "covers (host_codec H) pv slug limit (ls_db s)"
  shows "db_inv (host_codec H) (ls_db (perform_call H c s)) \<and>
    covers (host_codec H) pv slug limit (ls_db (perform_call H c s))"
proof -
  have codec: "codec_ok (host_codec H)" using assms(1) by (simp add: host_ok_def)
  show ?thesis
  proof (cases c)
    case (CallSync L other)
    with assms(4) have L: "library_ok L" "valid_slug other" by simp_all
    note reach = sync_reaches [OF assms(1) L, of s]
    have "covers (host_codec H) pv slug limit (ls_db (snd (sync H L other s)))"
    proof (cases "other = slug")
      case False
      with reaches_other [OF reach codec assms(5), of slug] assms(6) show ?thesis
        by (auto simp: covers_def stored_etag_def)
    next
      case True
      obtain r s' where run: "sync H L slug s = (r, s')" by fastforce
      show ?thesis
      proof (cases "\<exists>sc pv'. find_show L slug = Inr sc \<and> get_provider L (sc_provider sc) = Inr pv'")
        case ex: True
        then obtain sc pv' where sc: "find_show L slug = Inr sc" "get_provider L (sc_provider sc) = Inr pv'" by blast
        from assms(4) [unfolded CallSync follows.simps] True sc
        have same: "pv' = pv" "limit = show_fetch_last sc (cfg_fetch_last (lib_config L))" by blast+
        note sc = sc(1) sc(2) [unfolded same(1)] same(2)
        from sync_covers [OF assms(1) L(1) assms(2,3) sc assms(5,6) run] run True show ?thesis by simp
      next
        case False
        then have "\<exists>e. find_show L slug = Inl e \<or> (\<exists>sc. find_show L slug = Inr sc \<and> get_provider L (sc_provider sc) = Inl e)"
          by (metis sum.exhaust)
        then have "ls_db (snd (sync H L slug s)) = ls_db s" by (elim exE) (rule sync_unknown)
        with True assms(6) show ?thesis by (simp only:)
      qed
    qed
    with reaches_inv [OF reach codec assms(5)] CallSync show ?thesis by simp
  next
    case (CallVerify L other fix_files)
    with assms(4) have L: "library_ok L" by simp
    have after: "perform_call H c s = snd (verify H L other fix_files s)" by (simp add: CallVerify)
    from verify_db [OF assms(1) L assms(5)] have
      reach: "reaches (host_codec H) (within other UNIV :: 'a storage_op \<Rightarrow> bool) (ls_db s) (ls_db (perform_call H c s))"
      and rows: "show_rows (ls_db (perform_call H c s)) = show_rows (ls_db s)"
      unfolding after by blast+
    from covers_episodes [OF assms(6) reach rows codec assms(5)] reaches_inv [OF reach codec assms(5)]
    show ?thesis by blast
  qed
qed

lemma calls_cover:
  assumes "host_ok H" "valid_slug slug" "tells_changes pv slug limit" "\<forall>c \<in> set calls. follows pv slug limit c"
    "db_inv (host_codec H) (ls_db s)" "covers (host_codec H) pv slug limit (ls_db s)"
  shows "db_inv (host_codec H) (ls_db (fold (perform_call H) calls s)) \<and>
    covers (host_codec H) pv slug limit (ls_db (fold (perform_call H) calls s))"
  using assms(4-6)
proof (induction calls arbitrary: s)
  case (Cons c calls)
  have "follows pv slug limit c" using Cons.prems(1) by simp
  from call_covers [OF assms(1-3) this Cons.prems(2,3)] Cons.IH [of "perform_call H c s"] Cons.prems(1)
  show ?case by simp
qed simp

lemma covers_empty: "covers X pv slug limit empty_db"
  by (simp add: covers_def stored_etag_def storage_show_def empty_db_def)

section \<open>Properties\<close>

text \<open>
  C13: Conditional polls miss nothing.  Start from an empty database and let syncs and
  verifications follow in any order, with listings, failures and unchanged answers as they
  come, by libraries that may have been reloaded but keep the show's provider and
  \<open>fetch_last\<close>.  The validator that is stored never stands for an episode that is not: a poll
  that failed half-way has not moved it on.  So a sync that ends well leaves every episode
  stored that a poll without a validator would have listed at that moment.
\<close>

theorem conditional_polls_miss_nothing:
  assumes "host_ok H" "valid_slug slug" "tells_changes pv slug limit" "\<forall>c \<in> set calls. follows pv slug limit c"
    "ls_db start = empty_db" "s = fold (perform_call H) calls start" "library_ok L"
    "find_show L slug = Inr sc" "get_provider L (sc_provider sc) = Inr pv"
    "show_fetch_last sc (cfg_fetch_last (lib_config L)) = limit"
  shows "covers (host_codec H) pv slug limit (ls_db s) \<and>
    (\<forall>report s' es tag. sync H L slug s = (Inr report, s') \<longrightarrow>
       pv_episodes pv (Suc (Suc (ls_tick s))) slug limit None = Inr (Modified es tag) \<longrightarrow>
       (\<forall>m \<in> set es. view (host_codec H) (ls_db s') slug (em_id m) \<noteq> None))"
proof -
  have "db_inv (host_codec H) (ls_db s) \<and> covers (host_codec H) pv slug limit (ls_db s)"
    using calls_cover [OF assms(1-4), of start] by (simp add: assms(5,6) db_inv_empty covers_empty)
  with sync_covers [OF assms(1,7,2,3,8,9) assms(10) [symmetric]] show ?thesis by blast
qed

section \<open>The property at work\<close>

text \<open>A provider that has one episode, and from some moment on two, and answers conditionally.\<close>

definition growing_provider :: "tuple_url provider" where
  "growing_provider =
     \<lparr>pv_show = (\<lambda>t s. Inr \<lparr>sm_slug = s, sm_title = ''After Hours'', sm_description = None, sm_artwork = None\<rparr>),
      pv_episodes = (\<lambda>t s limit etag.
        let (tag, ids) = if t < 20 then (''v1'', [''161'']) else (''v2'', [''162'', ''161'']) in
        if etag = Some tag then Inr NotModified else Inr (Modified (map demo_meta ids) (Some tag))),
      pv_resolve_audio = (\<lambda>t s i. Inr demo_source), pv_artwork = (\<lambda>t s. Inr None)\<rparr>"

lemma growing_answers:
  "pv_episodes growing_provider t s limit etag =
     (if t < 20 then if etag = Some ''v1'' then Inr NotModified else Inr (Modified [demo_meta ''161''] (Some ''v1''))
      else if etag = Some ''v2'' then Inr NotModified
      else Inr (Modified [demo_meta ''162'', demo_meta ''161''] (Some ''v2'')))"
  by (simp add: growing_provider_def)

lemma growing_provider_ok: "provider_ok growing_provider"
  unfolding provider_ok_def growing_answers
  by (auto simp: growing_provider_def valid_id_def canonical_mime_def mime_from_def split: if_splits)

lemma growing_tells_changes: "tells_changes growing_provider slug limit"
  unfolding tells_changes_def listed_under_def growing_answers by (auto split: if_splits)

definition growing_library :: "tuple_url library" where
  "growing_library = demo_library\<lparr>lib_providers := (\<lambda>n. if n = ''difm'' then Some growing_provider else None)\<rparr>"

lemma growing_followed:
  "library_ok growing_library" "find_show growing_library demo_slug = Inr demo_follow"
  "get_provider growing_library (sc_provider demo_follow) = Inr growing_provider"
  "show_fetch_last demo_follow (cfg_fetch_last (lib_config growing_library)) = None"
  using growing_provider_ok
  by (simp_all add: growing_library_def library_ok_def find_show_def get_provider_def demo_library_def show_fetch_last_def)

lemma growing_polled: "\<exists>listing. polled growing_provider t slug limit etag = Inr listing"
  unfolding polled_def growing_answers by (simp add: growing_provider_def)

text \<open>Three calls, and a further sync at whatever moment they have left.\<close>

abbreviation growing_calls :: "tuple_url library_call list" where
  "growing_calls \<equiv>
     [CallSync growing_library demo_slug, CallVerify growing_library demo_slug True, CallSync growing_library demo_slug]"

abbreviation new_state :: lib_state where
  "new_state \<equiv> \<lparr>ls_db = empty_db, ls_fs = demo_fs, ls_events = [], ls_tick = 0\<rparr>"

theorem conditional_polls_miss_nothing_witness:
  "\<exists>report s'. sync demo_host growing_library demo_slug (fold (perform_call demo_host) growing_calls new_state) = (Inr report, s') \<and>
    view demo_codec (ls_db s') demo_slug (EpisodeId ''161'') \<noteq> None"
proof -
  define s where "s = fold (perform_call demo_host) growing_calls new_state"
  have calls: "\<forall>c \<in> set growing_calls. follows growing_provider demo_slug None c"
    using growing_followed by (simp add: demo_slug_valid)
  have "db_inv (host_codec demo_host) (ls_db s)"
    using calls_cover [OF demo_host_ok demo_slug_valid growing_tells_changes calls, of new_state]
    by (simp add: s_def db_inv_empty covers_empty del: fold_simps)
  note inv = this healed_db_inv [OF this, of demo_slug]
  obtain found before where read: "storage_show (host_codec demo_host) demo_slug (ls_db s) = Inr found"
    "storage_episodes (host_codec demo_host) demo_slug (ls_db (healed demo_host demo_slug s)) = Inr before"
    using storage_show_total [OF inv(1)] storage_episodes_total [OF inv(2)] by blast
  obtain listing where "polled growing_provider (ls_tick (healed demo_host demo_slug s)) demo_slug
      (show_fetch_last demo_follow (cfg_fetch_last (lib_config growing_library))) (Option.bind found rs_episodes_etag) = Inr listing"
    using growing_polled by blast
  from poll_listing_completes [OF demo_host_ok growing_provider_ok demo_slug_valid inv(2) read(2) this]
  obtain report s' where run: "sync demo_host growing_library demo_slug s = (Inr report, s')"
    unfolding sync_polls [OF growing_followed(2,3) read(1)] by blast
  have "\<exists>es tag. pv_episodes growing_provider t demo_slug None None = Inr (Modified es tag) \<and> demo_meta ''161'' \<in> set es" for t
    by (simp add: growing_answers)
  with conditional_polls_miss_nothing [OF demo_host_ok demo_slug_valid growing_tells_changes calls _ s_def
      growing_followed] run
  have "view (host_codec demo_host) (ls_db s') demo_slug (em_id (demo_meta ''161'')) \<noteq> None"
    by fastforce
  with run show ?thesis by (simp add: s_def demo_host_def del: fold_simps)
qed

end
