(* ===== verification/Interleaving.thy ===== *)
theory Interleaving
  imports Intact
begin

text \<open>
  Concurrent downloads.  A sync runs its downloads at the same time (\<open>for_each_concurrent\<close>), and
  \<open>Library\<close> takes them one after the other.  Here each download is the sequence of its atomic
  steps, the storage calls under the connection's mutex and the rename that puts the file in
  its place, and every interleaving of the downloads of a sync ends in the database and
  the files of the sequential run.  Progress reports are spawned tasks of their own and may
  even land after the download they belong to.
\<close>

section \<open>Steps that do not meet\<close>

fun interleavings :: "'a list list \<Rightarrow> 'a list set" where
  "interleavings [] = {[]}"
| "interleavings (xs # xss) = (\<Union>ys \<in> interleavings xss. shuffles xs ys)"

locale independent_steps =
  fixes exec :: "'p \<Rightarrow> 's \<Rightarrow> 's"
    and apart :: "'p \<Rightarrow> 'p \<Rightarrow> bool"
  assumes commute: "apart p q \<Longrightarrow> exec p (exec q s) = exec q (exec p s)"
begin

lemma past: "\<forall>q \<in> set qs. apart q p \<Longrightarrow> fold exec qs (exec p s) = exec p (fold exec qs s)"
proof (induction qs arbitrary: s)
  case (Cons q qs)
  then have "exec q (exec p s) = exec p (exec q s)" by (intro commute) simp
  with Cons show ?case by simp
qed simp

lemma shuffled:
  "zs \<in> shuffles xs ys \<Longrightarrow> \<forall>x \<in> set xs. \<forall>y \<in> set ys. apart x y \<Longrightarrow>
   fold exec zs s = fold exec ys (fold exec xs s)"
proof (induction zs arbitrary: xs ys s)
  case (Cons z zs)
  from Cons.prems(1) consider (left) xs' where "xs = z # xs'" "zs \<in> shuffles xs' ys"
    | (right) ys' where "ys = z # ys'" "zs \<in> shuffles xs ys'"
    by (auto simp: Cons_in_shuffles_iff neq_Nil_conv)
  then show ?case
  proof cases
    case left
    with Cons show ?thesis by simp
  next
    case right
    then have "fold exec xs (exec z s) = exec z (fold exec xs s)"
      using Cons.prems(2) by (intro past) simp
    with right Cons show ?thesis by simp
  qed
qed (simp add: Nil_in_shuffles)

lemma set_interleavings: "zs \<in> interleavings xss \<Longrightarrow> set zs = (\<Union>xs \<in> set xss. set xs)"
  by (induction xss arbitrary: zs) (auto simp: set_shuffles)

text \<open>Runs whose steps are pairwise apart may be interleaved at will.\<close>

lemma serialises:
  assumes "zs \<in> interleavings xss" "sorted_wrt (\<lambda>xs ys. \<forall>x \<in> set xs. \<forall>y \<in> set ys. apart x y) xss"
  shows "fold exec zs s = fold exec (concat xss) s"
  using assms
proof (induction xss arbitrary: zs s)
  case (Cons xs xss)
  then obtain ys where ys: "ys \<in> interleavings xss" "zs \<in> shuffles xs ys" by auto
  have "\<forall>x \<in> set xs. \<forall>y \<in> set ys. apart x y"
    using Cons.prems(2) set_interleavings [OF ys(1)] by auto
  from shuffled [OF ys(2) this] Cons.IH [OF ys(1)] Cons.prems(2) show ?case by simp
qed simp

end

section \<open>The steps of a download\<close>

datatype download_action =
    Begin
  | Progress timestamp u64 "u64 option"
  | Persist path string
  | Complete timestamp cached_file
  | Abort error_class

type_synonym tagged_action = "(show_slug \<times> episode_id) \<times> download_action"

fun exec_step :: "codec \<Rightarrow> tagged_action \<Rightarrow> db \<times> fs \<Rightarrow> db \<times> fs" where
  "exec_step X ((slug, i), Begin) (d, F) = (after d (mark_downloading slug i d), F)"
| "exec_step X ((slug, i), Progress now b n) (d, F) = (after d (set_progress X now slug i b n d), F)"
| "exec_step X ((slug, i), Persist p c) (d, F) = (d, fs_write p c F)"
| "exec_step X ((slug, i), Complete now f) (d, F) = (after d (mark_cached X now slug i f d), F)"
| "exec_step X ((slug, i), Abort cls) (d, F) = (after d (mark_failed slug i cls d), F)"

text \<open>Steps of different episodes that write different files.\<close>

fun steps_apart :: "tagged_action \<Rightarrow> tagged_action \<Rightarrow> bool" where
  "steps_apart (k, Persist p c) (l, Persist q e) \<longleftrightarrow> k \<noteq> l \<and> p \<noteq> q"
| "steps_apart (k, a) (l, b) \<longleftrightarrow> k \<noteq> l"

text \<open>A row-level change of one episode, as a function of the row it finds.\<close>

definition change_row :: "show_slug \<times> episode_id \<Rightarrow> (episode_row option \<Rightarrow> episode_row \<Rightarrow> episode_row) \<Rightarrow> db \<Rightarrow> db" where
  "change_row k g d =
     d\<lparr>episode_rows := update_where (is_episode (fst k) (snd k))
         (g (List.find (is_episode (fst k) (snd k)) (episode_rows d))) (episode_rows d)\<rparr>"

definition keeps_key :: "(episode_row option \<Rightarrow> episode_row \<Rightarrow> episode_row) \<Rightarrow> bool" where
  "keeps_key g \<longleftrightarrow> (\<forall>x r. row_key (g x r) = row_key r)"

lemma change_row_commute:
  assumes "k \<noteq> l" "keeps_key g" "keeps_key h"
  shows "change_row k g (change_row l h d) = change_row l h (change_row k g d)"
proof -
  let ?P = "is_episode (fst k) (snd k)" and ?Q = "is_episode (fst l) (snd l)"
  have disjoint: "\<not> (?P r \<and> ?Q r)" for r
    using assms(1) by (cases k; cases l) (auto simp: is_episode_key slug_str_inj id_str_inj)
  have keys: "is_episode s i (g x r) = is_episode s i r" "is_episode s i (h x r) = is_episode s i r" for s i x r
    using assms(2,3) by (simp_all add: keeps_key_def is_episode_key)
  have find_h: "List.find ?P (update_where ?Q f rows) = List.find ?P rows"
    if "\<And>r. is_episode (fst k) (snd k) (f r) = is_episode (fst k) (snd k) r" for f rows
  proof -
    have "List.find ?P (update_where ?Q f rows) = map_option (\<lambda>r. if ?Q r then f r else r) (List.find ?P rows)"
      by (rule find_update_where) (simp add: that)
    also have "\<dots> = List.find ?P rows"
      using disjoint find_Some_mem [of ?P rows] by (cases "List.find ?P rows") auto
    finally show ?thesis .
  qed
  have find_g: "List.find ?Q (update_where ?P f rows) = List.find ?Q rows"
    if "\<And>r. is_episode (fst l) (snd l) (f r) = is_episode (fst l) (snd l) r" for f rows
  proof -
    have "List.find ?Q (update_where ?P f rows) = map_option (\<lambda>r. if ?P r then f r else r) (List.find ?Q rows)"
      by (rule find_update_where) (simp add: that)
    also have "\<dots> = List.find ?Q rows"
      using disjoint find_Some_mem [of ?Q rows] by (cases "List.find ?Q rows") auto
    finally show ?thesis .
  qed
  have "update_where ?P f (update_where ?Q f' rows) = update_where ?Q f' (update_where ?P f rows)"
    if "\<And>r. ?Q (f r) = ?Q r" "\<And>r. ?P (f' r) = ?P r" for f f' rows
    using disjoint that by (auto simp: update_where_def)
  then show ?thesis by (simp add: change_row_def find_h find_g keys)
qed


lemma transition_change:
  assumes "\<And>r. row_key (f r) = row_key r"
  shows "\<exists>g. keeps_key g \<and> (\<forall>d. after d (transition show i to f d) = change_row (show, i) g d)"
proof -
  let ?ok = "\<lambda>x. \<exists>r st. x = Some r \<and> decode_state (e_state r) (e_error_class r) = Inr st \<and> can_transition_to st to"
  let ?g = "\<lambda>x r. if ?ok x then f r else r"
  have "after d (transition show i to f d) = change_row (show, i) ?g d" for d
  proof (cases "List.find (is_episode show i) (episode_rows d)")
    case (Some r)
    show ?thesis
    proof (cases "?ok (Some r)")
      case True
      with Some show ?thesis by (auto simp: transition_def change_row_def)
    next
      case False
      then have "?g (Some r) = (\<lambda>r. r)" by (simp only: if_False)
      with Some False show ?thesis
        by (cases "decode_state (e_state r) (e_error_class r)")
          (simp_all add: transition_def change_row_def update_where_def)
    qed
  qed (simp add: transition_def change_row_def update_where_def)
  then show ?thesis using assms by (intro exI [of _ ?g]) (simp add: keeps_key_def)
qed

text \<open>Every step changes at most the row of its episode and one file.\<close>

lemma step_change:
  "\<exists>g h. keeps_key g \<and> (\<forall>d F. exec_step X (k, a) (d, F) = (change_row k g d, h F)) \<and>
    (\<forall>F. h F = (case a of Persist p c \<Rightarrow> fs_write p c F | _ \<Rightarrow> F))"
proof -
  obtain slug i where k: "k = (slug, i)" by fastforce
  show ?thesis
  proof (cases a)
    case Begin
    with transition_change [of downloading_row slug i Downloading] show ?thesis
      by (auto simp: k mark_downloading_def intro!: exI [of _ "\<lambda>F. F"])
  next
    case (Progress now b n)
    let ?f = "\<lambda>r. r\<lparr>e_bytes_done := Some (i64_of_u64 b), e_bytes_total := map_option i64_of_u64 n,
        e_progress_at := Some (ts_show X now)\<rparr>"
    let ?g = "\<lambda>x r. if e_state r = ''downloading'' then ?f r else r"
    have "exec_step X (k, a) (d, F) = (change_row k ?g d, F)" for d F
      by (simp add: k Progress set_progress_def change_row_def update_where_def)
    moreover have "keeps_key ?g" by (simp add: keeps_key_def)
    ultimately show ?thesis by (intro exI [of _ ?g] exI [of _ "\<lambda>F. F"]) (simp add: Progress)
  next
    case (Persist p c)
    have "change_row k (\<lambda>x r. r) d = d" for d by (simp add: change_row_def update_where_def)
    then show ?thesis
      by (intro exI [of _ "\<lambda>x r. r"] exI [of _ "fs_write p c"]) (simp add: k Persist keeps_key_def)
  next
    case (Complete now f)
    with transition_change [of "cached_row X now f" slug i Cached] show ?thesis
      by (auto simp: k mark_cached_def intro!: exI [of _ "\<lambda>F. F"])
  next
    case (Abort c)
    with transition_change [of "failed_row c" slug i "Failed c"] show ?thesis
      by (auto simp: k mark_failed_def intro!: exI [of _ "\<lambda>F. F"])
  qed
qed

lemma fs_write_commute: "p \<noteq> q \<Longrightarrow> fs_write p c (fs_write q e F) = fs_write q e (fs_write p c F)"
  by (simp add: fs_write_def fun_upd_twist)

lemma steps_commute:
  assumes "steps_apart p q"
  shows "exec_step X p (exec_step X q s) = exec_step X q (exec_step X p s)"
proof -
  obtain k a l b d F where pq: "p = (k, a)" "q = (l, b)" "s = (d, F)" by (metis prod.collapse)
  have kl: "k \<noteq> l" using assms pq by (cases a; cases b) auto
  obtain g1 h1 where 1: "keeps_key g1" "\<And>d F. exec_step X p (d, F) = (change_row k g1 d, h1 F)"
    "\<And>F. h1 F = (case a of Persist p c \<Rightarrow> fs_write p c F | _ \<Rightarrow> F)"
    using step_change [of X k a] pq by metis
  obtain g2 h2 where 2: "keeps_key g2" "\<And>d F. exec_step X q (d, F) = (change_row l g2 d, h2 F)"
    "\<And>F. h2 F = (case b of Persist p c \<Rightarrow> fs_write p c F | _ \<Rightarrow> F)"
    using step_change [of X l b] pq by metis
  have "h1 (h2 F) = h2 (h1 F)"
    using assms pq by (cases a; cases b) (auto simp: 1(3) 2(3) fs_write_commute)
  then show ?thesis using change_row_commute [OF kl 1(1) 2(1)] by (simp add: 1(2) 2(2) pq(3))
qed

interpretation downloads: independent_steps "exec_step X" steps_apart
  by unfold_locales (rule steps_commute)

section \<open>A download as its steps\<close>

text \<open>
  The shape of a download: it is begun, may put the body of a reply in its place, reports
  progress, and is completed with the size and hash of that body, or aborted.
\<close>

definition is_progress :: "download_action \<Rightarrow> bool" where
  "is_progress a \<longleftrightarrow> (\<exists>now b n. a = Progress now b n)"

lemma is_progress_Progress [simp]: "is_progress (Progress now b n)"
  by (simp add: is_progress_def)

definition records_body :: "'u host \<Rightarrow> path \<Rightarrow> string \<Rightarrow> cached_file \<Rightarrow> bool" where
  "records_body H p c f \<longleftrightarrow>
     cf_file_path f = p \<and> cf_bytes f = of_nat (length c) \<and> cf_blake3 f = host_hash H c"

definition puts_reply :: "'u host \<Rightarrow> path set \<Rightarrow> path \<Rightarrow> string \<Rightarrow> bool" where
  "puts_reply H places p c \<longleftrightarrow> p \<in> places \<and> (\<exists>t k. c = reply_body (host_net H t k))"

definition download_run :: "'u host \<Rightarrow> path set \<Rightarrow> bool \<Rightarrow> download_action list \<Rightarrow> bool" where
  "download_run H places success as \<longleftrightarrow>
     (\<exists>put ws last.
        as = Begin # put @ ws @ [last] \<and> list_all is_progress ws \<and>
        (put = [] \<or> (\<exists>p c. put = [Persist p c] \<and> puts_reply H places p c)) \<and>
        (if success then \<exists>p c now f. put = [Persist p c] \<and> last = Complete now f \<and> records_body H p c f
         else \<exists>cls. last = Abort cls))"

definition places_of :: "'u host \<Rightarrow> 'u library \<Rightarrow> show_slug \<Rightarrow> episode_id \<Rightarrow> path set" where
  "places_of H L slug i = {p. \<exists>source. p = media_path (host_url H) L slug i source}"

abbreviation run_steps :: "codec \<Rightarrow> show_slug \<times> episode_id \<Rightarrow> download_action list \<Rightarrow> db \<times> fs \<Rightarrow> db \<times> fs" where
  "run_steps X k as \<equiv> fold (exec_step X) (map (Pair k) as)"

abbreviation disk_of :: "lib_state \<Rightarrow> db \<times> fs" where
  "disk_of s \<equiv> (ls_db s, ls_fs s)"

lemma write_progress_steps:
  "\<exists>as. list_all is_progress as \<and> run_steps (host_codec H) (slug, i) as (disk_of s) = disk_of (write_progress H slug i ws s)"
proof (induction ws arbitrary: s)
  case (Cons w ws)
  obtain ms b n where w: "w = (ms, b, n)" by (metis prod.collapse)
  let ?s = "snd (stored (set_progress (host_codec H) (now_at H s) slug i b n (ls_db s)) s)"
  from Cons [of ?s] obtain as where "list_all is_progress as"
    "run_steps (host_codec H) (slug, i) as (disk_of ?s) = disk_of (write_progress H slug i ws ?s)" by blast
  then show ?case
    by (intro exI [of _ "Progress (now_at H s) b n # as"]) (simp add: w)
qed (auto intro: exI [of _ "[]"])

lemma transfer_file_steps:
  assumes "transfer_file H slug ep source dest s = (r, s')"
  shows "\<exists>as. list_all is_progress as \<and>
    (case r of
       Inl e \<Rightarrow> run_steps (host_codec H) (slug, r_id ep) as (disk_of s) = disk_of s'
     | Inr got \<Rightarrow> \<exists>k. let c = reply_body (host_net H (ls_tick s) k) in
         run_steps (host_codec H) (slug, r_id ep) (Persist dest c # as) (disk_of s) = disk_of s' \<and>
         dl_bytes got = of_nat (length c) \<and> dl_blake3 got = host_hash H c)"
proof -
  obtain result F calls n where f: "fetch (host_url H) (host_hash H) (host_net H (ls_tick s)) source dest (ls_fs s) =
      (result, F, calls, n)"
    using prod_cases4 by blast
  let ?ws = "progress_writes (host_elapsed_ms H (ls_tick s)) 0 (- 1) calls"
  have s': "r = map_err SyncDownload result" "s' = write_progress H slug (r_id ep) ?ws (tick (s\<lparr>ls_fs := F\<rparr>))"
    using assms by (simp_all add: transfer_file_def f Let_def)
  obtain as where as: "list_all is_progress as"
    "run_steps (host_codec H) (slug, r_id ep) as (ls_db s, F) = disk_of s'"
    using write_progress_steps [of H slug "r_id ep" "tick (s\<lparr>ls_fs := F\<rparr>)" ?ws] s'(2) by auto
  show ?thesis
  proof (cases result)
    case (Inl e)
    with fetch_failed [of "host_url H"] f have "F = ls_fs s" by blast
    with as s'(1) Inl show ?thesis by auto
  next
    case (Inr got)
    with fetch_delivered [of "host_url H"] f obtain k where
      "F = fs_write dest (reply_body (host_net H (ls_tick s) k)) (ls_fs s)"
      "dl_bytes got = of_nat (length (reply_body (host_net H (ls_tick s) k)))"
      "dl_blake3 got = host_hash H (reply_body (host_net H (ls_tick s) k))"
      by (fastforce simp: delivered_def)
    with as s'(1) Inr show ?thesis by (auto simp: Let_def)
  qed
qed

text \<open>A file is put in its place only after \<open>mark_downloading\<close> went through.\<close>

definition begins :: "show_slug \<Rightarrow> episode_id \<Rightarrow> db \<Rightarrow> bool" where
  "begins slug i d \<longleftrightarrow> ok (mark_downloading slug i d) \<noteq> None"

lemma try_download_steps:
  assumes "try_download H L pv slug ep s = (r, s')"
  shows "\<exists>put ws last. list_all is_progress ws \<and>
    (put = [] \<or> begins slug (r_id ep) (ls_db s) \<and>
       (\<exists>p c. put = [Persist p c] \<and> puts_reply H (places_of H L slug (r_id ep)) p c)) \<and>
    run_steps (host_codec H) (slug, r_id ep) (Begin # put @ ws @ last) (disk_of s) = disk_of s' \<and>
    (case r of
       Inl e \<Rightarrow> last = []
     | Inr u \<Rightarrow> \<exists>p c now f. put = [Persist p c] \<and> last = [Complete now f] \<and> records_body H p c f \<and>
         (provider_ok pv \<longrightarrow> (\<forall>m. cf_mime f = Some m \<longrightarrow> canonical_mime m)))"
proof -
  let ?X = "host_codec H" and ?k = "(slug, r_id ep)"
  obtain r1 s1 where m: "stored (mark_downloading slug (r_id ep) (ls_db s)) s = (r1, s1)" by fastforce
  then have s1: "exec_step ?X (?k, Begin) (disk_of s) = disk_of s1"
    using stored_db [OF m] stored_fs [OF m] by simp
  have begun: "begins slug (r_id ep) (ls_db s)" if "r1 = Inr u" for u
    using that m by (auto simp: begins_def stored_def split: sum.splits)
  have short: ?thesis if "r = Inl e" "disk_of s' = disk_of s1" for e
    using that s1 by (intro exI [of _ "[]"]) simp
  show ?thesis
  proof (cases r1)
    case (Inl e)
    with assms m short show ?thesis by (auto simp: try_download_def)
  next
    case (Inr u)
    show ?thesis
    proof (cases "pv_resolve_audio pv (ls_tick s1) slug (r_id ep)")
      case (Inl e)
      with assms m Inr short show ?thesis by (auto simp: try_download_def)
    next
      case resolved: (Inr source)
      let ?dest = "media_path (host_url H) L slug (r_id ep) source"
      obtain r2 s2 where t: "transfer_file H slug ep source ?dest (tick s1) = (r2, s2)" by fastforce
      note steps = transfer_file_steps [OF t]
      show ?thesis
      proof (cases r2)
        case (Inl e)
        with steps obtain as where "list_all is_progress as" "run_steps ?X ?k as (disk_of s1) = disk_of s2" by auto
        moreover have "r = Inl e" "s' = s2"
          using assms m Inr resolved t Inl by (simp_all add: try_download_def Let_def)
        ultimately show ?thesis using s1 by (intro exI [of _ "[]"] exI [of _ as]) simp
      next
        case got: (Inr got)
        with steps obtain as c k where as: "list_all is_progress as" "c = reply_body (host_net H (ls_tick (tick s1)) k)"
          "run_steps ?X ?k (Persist ?dest c # as) (disk_of s1) = disk_of s2"
          "dl_bytes got = of_nat (length c)" "dl_blake3 got = host_hash H c" by (auto simp: Let_def)
        obtain f where rec: "record_cached H slug ep ?dest got s2 =
            lift_err SyncStorage (stored (mark_cached ?X (now_at H s2) slug (r_id ep) f (ls_db s2)) s2)"
          and f: "records_body H ?dest c f" "cf_mime f = dl_mime got"
          using as(4,5) unfolding record_cached_def Let_def records_body_def
          by (metis cached_file.select_convs(1-4))
        have mime: "\<forall>m. cf_mime f = Some m \<longrightarrow> canonical_mime m" if "provider_ok pv"
          using transfer_file_mime [of H slug ep source ?dest "tick s1" got] t got that resolved
          by (auto simp: f(2) provider_ok_def)
        obtain r3 s3 where c: "stored (mark_cached ?X (now_at H s2) slug (r_id ep) f (ls_db s2)) s2 = (r3, s3)" by fastforce
        have res: "r = map_err SyncStorage r3" "s' = s3"
          using assms m Inr resolved t got rec c by (simp_all add: try_download_def Let_def lift_err_def)
        have s3: "exec_step ?X (?k, Complete (now_at H s2) f) (disk_of s2) = disk_of s3"
          using stored_db [OF c] stored_fs [OF c] by simp
        have place: "puts_reply H (places_of H L slug (r_id ep)) ?dest c"
          using as(2) by (auto simp: places_of_def puts_reply_def)
        show ?thesis
        proof (cases r3)
          case (Inl e)
          then have "disk_of s3 = disk_of s2" using stored_db [OF c] stored_fs [OF c] c
            by (auto simp: stored_def split: sum.splits)
          with as(1,3) s1 res Inl place begun [OF Inr] show ?thesis
            by (intro exI [of _ "[Persist ?dest c]"] exI [of _ as] exI [of _ "[]"]) auto
        next
          case (Inr v)
          with as(1,3) s1 s3 res place f(1) mime begun [OF \<open>r1 = Inr u\<close>] show ?thesis
            by (intro exI [of _ "[Persist ?dest c]"] exI [of _ as] exI [of _ "[Complete (now_at H s2) f]"]) auto
        qed
      qed
    qed
  qed
qed

definition mimes_canonical :: "download_action list \<Rightarrow> bool" where
  "mimes_canonical as \<longleftrightarrow>
     (\<forall>now f m. Complete now f \<in> set as \<longrightarrow> cf_mime f = Some m \<longrightarrow> canonical_mime m)"

definition writes_file :: "download_action list \<Rightarrow> bool" where
  "writes_file as \<longleftrightarrow> (\<exists>p c. Persist p c \<in> set as)"

lemma progress_only [simp]:
  "list_all is_progress ws \<Longrightarrow> Complete now f \<notin> set ws" "list_all is_progress ws \<Longrightarrow> Persist p c \<notin> set ws"
  by (auto simp: list_all_iff is_progress_def)

lemma completed_run:
  "puts_reply H places p c \<Longrightarrow> records_body H p c f \<Longrightarrow> list_all is_progress ws \<Longrightarrow>
   download_run H places True (Begin # Persist p c # ws @ [Complete now f])"
  unfolding download_run_def
  by (intro exI [of _ "[Persist p c]"] exI [of _ ws] exI [of _ "Complete now f"]) simp

lemma download_episode_steps:
  assumes "download_episode H L pv slug ep s = (success, s')"
  shows "\<exists>as. download_run H (places_of H L slug (r_id ep)) success as \<and>
    run_steps (host_codec H) (slug, r_id ep) as (disk_of s) = disk_of s' \<and>
    (provider_ok pv \<longrightarrow> mimes_canonical as) \<and> (writes_file as \<longrightarrow> begins slug (r_id ep) (ls_db s))"
proof -
  let ?X = "host_codec H" and ?k = "(slug, r_id ep)"
  obtain r s1 where t: "try_download H L pv slug ep s = (r, s1)" by fastforce
  from try_download_steps [OF t] obtain put ws last where steps: "list_all is_progress ws"
    "put = [] \<or> begins slug (r_id ep) (ls_db s) \<and>
       (\<exists>p c. put = [Persist p c] \<and> puts_reply H (places_of H L slug (r_id ep)) p c)"
    "run_steps ?X ?k (Begin # put @ ws @ last) (disk_of s) = disk_of s1"
    "case r of
       Inl e \<Rightarrow> last = []
     | Inr u \<Rightarrow> \<exists>p c now f. put = [Persist p c] \<and> last = [Complete now f] \<and> records_body H p c f \<and>
         (provider_ok pv \<longrightarrow> (\<forall>m. cf_mime f = Some m \<longrightarrow> canonical_mime m))"
    by blast
  show ?thesis
  proof (cases r)
    case (Inl err)
    obtain x s2 where f: "stored (mark_failed slug (r_id ep) (sync_error_class err) (ls_db s1)) s1 = (x, s2)" by fastforce
    have "success = False" "disk_of s' = exec_step ?X (?k, Abort (sync_error_class err)) (disk_of s1)"
      using assms t Inl f stored_db [OF f] stored_fs [OF f] by (auto simp: download_episode_def Let_def)
    with steps Inl show ?thesis
      by (intro exI [of _ "Begin # put @ ws @ [Abort (sync_error_class err)]"])
        (auto simp: download_run_def mimes_canonical_def writes_file_def)
  next
    case (Inr u)
    then obtain p c now f where last: "put = [Persist p c]" "last = [Complete now f]" "records_body H p c f"
      "provider_ok pv \<longrightarrow> (\<forall>m. cf_mime f = Some m \<longrightarrow> canonical_mime m)" using steps(4) by auto
    have "success" "disk_of s' = disk_of s1"
      using assms t Inr by (auto simp: download_episode_def)
    moreover have "begins slug (r_id ep) (ls_db s)" "puts_reply H (places_of H L slug (r_id ep)) p c"
      using steps(2) last(1) by auto
    ultimately show ?thesis
      using steps(1,3) last
      by (intro exI [of _ "Begin # Persist p c # ws @ [Complete now f]"])
        (auto simp: mimes_canonical_def writes_file_def intro: completed_run)
  qed
qed


abbreviation tagged_runs :: "show_slug \<Rightarrow> episode_record list \<Rightarrow> (bool \<times> download_action list) list \<Rightarrow> tagged_action list list" where
  "tagged_runs slug eps runs \<equiv> map2 (\<lambda>ep run. map (Pair (slug, r_id ep)) (snd run)) eps runs"

lemma download_all_steps:
  assumes "download_all H L pv slug eps n s = (m, s')"
  shows "\<exists>runs. list_all2 (\<lambda>ep (success, as). download_run H (places_of H L slug (r_id ep)) success as) eps runs \<and>
    m = n + of_nat (length (filter fst runs)) \<and>
    fold (exec_step (host_codec H)) (concat (tagged_runs slug eps runs)) (disk_of s) = disk_of s'"
  using assms
proof (induction eps arbitrary: n s)
  case (Cons ep eps)
  obtain success s1 where d: "download_episode H L pv slug ep s = (success, s1)" by fastforce
  from download_episode_steps [OF d] obtain as where as: "download_run H (places_of H L slug (r_id ep)) success as"
    "run_steps (host_codec H) (slug, r_id ep) as (disk_of s) = disk_of s1" by blast
  from Cons.IH [of "if success then n + 1 else n" s1] Cons.prems d obtain runs where
    "list_all2 (\<lambda>ep (success, as). download_run H (places_of H L slug (r_id ep)) success as) eps runs"
    "m = (if success then n + 1 else n) + of_nat (length (filter fst runs))"
    "fold (exec_step (host_codec H)) (concat (tagged_runs slug eps runs)) (disk_of s1) = disk_of s'"
    by auto
  with as show ?case by (intro exI [of _ "(success, as) # runs"]) simp
qed simp

lemma download_run_places:
  "download_run H P success as \<Longrightarrow> Persist p c \<in> set as \<Longrightarrow> p \<in> P"
  by (auto simp: download_run_def puts_reply_def list_all_iff is_progress_def split: if_splits)

lemma places_disjoint:
  assumes "names_apart I" "i \<in> I" "j \<in> I" "i \<noteq> j" "valid_slug slug" "p \<in> places_of H L slug i"
  shows "p \<notin> places_of H L slug j"
proof
  assume "p \<in> places_of H L slug j"
  with assms(6) obtain a b where "media_path (host_url H) L slug i a = media_path (host_url H) L slug j b"
    by (auto simp: places_of_def)
  from media_path_inj [OF this assms(5,5)] assms(1-4) show False by (auto simp: names_apart_def dest: inj_onD)
qed

lemma steps_apartI:
  "k \<noteq> l \<Longrightarrow> (\<And>p c q e. a = Persist p c \<Longrightarrow> b = Persist q e \<Longrightarrow> p \<noteq> q) \<Longrightarrow> steps_apart (k, a) (l, b)"
  by (cases a; cases b) auto

lemma runs_apart:
  assumes "names_apart (r_id ` set eps)" "distinct (map r_id eps)" "valid_slug slug"
    "list_all2 (\<lambda>ep (success, as). download_run H (places_of H L slug (r_id ep)) success as) eps runs"
  shows "sorted_wrt (\<lambda>xs ys. \<forall>x \<in> set xs. \<forall>y \<in> set ys. steps_apart x y) (tagged_runs slug eps runs)"
proof (intro sorted_wrt_iff_nth_less [THEN iffD2] allI impI ballI)
  fix i j x y
  assume ij: "i < j" "j < length (tagged_runs slug eps runs)"
    and x: "x \<in> set (tagged_runs slug eps runs ! i)" and y: "y \<in> set (tagged_runs slug eps runs ! j)"
  let ?a = "eps ! i" and ?b = "eps ! j"
  have len: "i < length eps" "j < length eps" "i < length runs" "j < length runs" using ij by auto
  have ids: "r_id ?a \<noteq> r_id ?b" using assms(2) ij(1) len by (simp add: distinct_conv_nth)
  have mem: "r_id ?a \<in> r_id ` set eps" "r_id ?b \<in> r_id ` set eps" using len by auto
  from x len obtain a where a: "x = ((slug, r_id ?a), a)" "a \<in> set (snd (runs ! i))" by auto
  from y len obtain b where b: "y = ((slug, r_id ?b), b)" "b \<in> set (snd (runs ! j))" by auto
  have run: "download_run H (places_of H L slug (r_id (eps ! k))) (fst (runs ! k)) (snd (runs ! k))"
    if "k < length eps" for k
    using list_all2_nthD [OF assms(4) that] by (simp add: split_beta)
  show "steps_apart x y"
    unfolding a(1) b(1)
  proof (rule steps_apartI)
    show "(slug, r_id ?a) \<noteq> (slug, r_id ?b)" using ids by simp
    fix p c q e assume "a = Persist p c" "b = Persist q e"
    then have "p \<in> places_of H L slug (r_id ?a)" "q \<in> places_of H L slug (r_id ?b)"
      using download_run_places [OF run [OF len(1)]] download_run_places [OF run [OF len(2)]] a(2) b(2) by blast+
    with places_disjoint [OF assms(1) mem ids assms(3), of p H L] show "p \<noteq> q" by blast
  qed
qed

section \<open>Late progress\<close>

definition final :: "download_action \<Rightarrow> bool" where
  "final a \<longleftrightarrow> (\<exists>now f. a = Complete now f) \<or> (\<exists>cls. a = Abort cls)"

definition final_row :: "codec \<Rightarrow> download_action \<Rightarrow> episode_row \<Rightarrow> episode_row" where
  "final_row X a = (case a of Complete now f \<Rightarrow> cached_row X now f | Abort cls \<Rightarrow> failed_row cls | _ \<Rightarrow> id)"

fun final_state :: "download_action \<Rightarrow> episode_state" where
  "final_state (Abort cls) = Failed cls"
| "final_state _ = Cached"

lemma exec_final:
  "final a \<Longrightarrow> exec_step X ((slug, i), a) (d, F) = (after d (transition slug i (final_state a) (final_row X a) d), F)"
  by (auto simp: final_def final_row_def mark_cached_def mark_failed_def)

definition in_flight :: "show_slug \<times> episode_id \<Rightarrow> db \<Rightarrow> bool" where
  "in_flight k d \<longleftrightarrow>
     (\<exists>r. List.find (is_episode (fst k) (snd k)) (episode_rows d) = Some r \<and>
        decode_state (e_state r) (e_error_class r) = Inr Downloading)"

lemma in_flight_view:
  assumes "db_inv X d" "view X d slug i = Some e" "r_state e = Downloading"
  shows "in_flight (slug, i) d"
  using view_find [OF assms(1), of slug i] assms(2,3)
  by (cases "List.find (is_episode slug i) (episode_rows d)") (auto simp: in_flight_def row_state_def)

lemma final_row_simps:
  assumes "final a"
  shows "e_state (final_row X a r) \<noteq> ''downloading''" "is_episode slug i (final_row X a r) = is_episode slug i r"
    "final_row X a (r\<lparr>e_bytes_done := x, e_bytes_total := y, e_progress_at := z\<rparr>) = final_row X a r"
    "can_transition_to Downloading (final_state a)"
  using assms by (auto simp: final_def final_row_def cached_row_def failed_row_def clear_progress_def is_episode_def)

lemma exec_final_in_flight:
  assumes "final a" "in_flight (slug, i) d"
  shows "exec_step X ((slug, i), a) (d, F) =
    (d\<lparr>episode_rows := update_where (is_episode slug i) (final_row X a) (episode_rows d)\<rparr>, F)"
  using assms final_row_simps(4) [OF assms(1)]
  by (auto simp: exec_final in_flight_def transition_def)

text \<open>The end of a download clears what progress has written, and no progress is written after it.\<close>

lemma final_forgets_progress:
  assumes "final a" "in_flight (slug, i) d"
  shows "in_flight (slug, i) (fst (exec_step X ((slug, i), Progress now b n) (d, F)))"
    "exec_step X ((slug, i), a) (exec_step X ((slug, i), Progress now b n) (d, F)) = exec_step X ((slug, i), a) (d, F)"
proof -
  let ?f = "\<lambda>r. r\<lparr>e_bytes_done := Some (i64_of_u64 b), e_bytes_total := map_option i64_of_u64 n,
      e_progress_at := Some (ts_show X now)\<rparr>"
  let ?rows = "update_where (\<lambda>r. is_episode slug i r \<and> e_state r = ''downloading'') ?f (episode_rows d)"
  have find: "List.find (is_episode slug i) ?rows =
      map_option (\<lambda>r. if is_episode slug i r \<and> e_state r = ''downloading'' then ?f r else r)
        (List.find (is_episode slug i) (episode_rows d))"
    by (rule find_update_where) (simp add: is_episode_def)
  have p: "exec_step X ((slug, i), Progress now b n) (d, F) = (d\<lparr>episode_rows := ?rows\<rparr>, F)"
    by (simp add: set_progress_def)
  show flying: "in_flight (slug, i) (fst (exec_step X ((slug, i), Progress now b n) (d, F)))"
  proof -
    from assms(2) obtain r where r: "List.find (is_episode slug i) (episode_rows d) = Some r"
      "decode_state (e_state r) (e_error_class r) = Inr Downloading"
      by (auto simp: in_flight_def)
    let ?r = "if is_episode slug i r \<and> e_state r = ''downloading'' then ?f r else r"
    have "List.find (is_episode slug i) ?rows = Some ?r" unfolding find r(1) by (rule option.map)
    moreover have "decode_state (e_state ?r) (e_error_class ?r) = Inr Downloading" using r(2) by simp
    moreover have "episode_rows (d\<lparr>episode_rows := ?rows\<rparr>) = ?rows" by simp
    ultimately show ?thesis unfolding p in_flight_def fst_conv snd_conv by metis
  qed
  have "update_where (is_episode slug i) (final_row X a) ?rows =
      update_where (is_episode slug i) (final_row X a) (episode_rows d)"
    using final_row_simps(3) [OF assms(1)] by (auto simp: update_where_def is_episode_def)
  with exec_final_in_flight [OF assms(1), of slug i "d\<lparr>episode_rows := ?rows\<rparr>" X F] flying
  show "exec_step X ((slug, i), a) (exec_step X ((slug, i), Progress now b n) (d, F)) = exec_step X ((slug, i), a) (d, F)"
    unfolding p exec_final_in_flight [OF assms] by simp
qed

lemma progress_after_final:
  assumes "final a" "in_flight (slug, i) d"
  shows "exec_step X ((slug, i), Progress now b n) (exec_step X ((slug, i), a) (d, F)) = exec_step X ((slug, i), a) (d, F)"
proof -
  have "update_where (\<lambda>r. is_episode slug i r \<and> e_state r = ''downloading'') f
      (update_where (is_episode slug i) (final_row X a) (episode_rows d)) =
      update_where (is_episode slug i) (final_row X a) (episode_rows d)" for f
    using final_row_simps(1,2) [OF assms(1)] by (intro update_where_id) (auto simp: set_update_where)
  then show ?thesis by (simp add: exec_final_in_flight [OF assms] set_progress_def)
qed

lemma progress_before:
  "list_all is_progress ps \<Longrightarrow> final a \<Longrightarrow> in_flight (slug, i) d \<Longrightarrow>
   exec_step X ((slug, i), a) (run_steps X (slug, i) ps (d, F)) = exec_step X ((slug, i), a) (d, F)"
proof (induction ps arbitrary: d F)
  case (Cons p ps)
  then obtain now b n where p: "p = Progress now b n" by (auto simp: is_progress_def)
  obtain d' F' where e: "exec_step X ((slug, i), p) (d, F) = (d', F')" by fastforce
  from final_forgets_progress [OF Cons.prems(2,3), of X now b n F] have
    "in_flight (slug, i) d'" "exec_step X ((slug, i), a) (d', F') = exec_step X ((slug, i), a) (d, F)"
    using e p by simp_all
  with Cons e show ?case by simp
qed simp

lemma progress_after:
  "list_all is_progress ps \<Longrightarrow> final a \<Longrightarrow> in_flight (slug, i) d \<Longrightarrow>
   run_steps X (slug, i) ps (exec_step X ((slug, i), a) (d, F)) = exec_step X ((slug, i), a) (d, F)"
  by (induction ps) (auto simp: is_progress_def progress_after_final)

section \<open>Properties\<close>

text \<open>
  C16: The downloads of a sync may run concurrently.  Each download of a sync is a sequence of
  steps (begin, put the file in place, progress, complete or abort), and when the ids are
  distinct and no two have one file name, every interleaving of these sequences ends in exactly
  the database and the files that taking the downloads one after the other produces.
\<close>

theorem downloads_interleave_freely:
  assumes "names_apart (r_id ` set eps)" "distinct (map r_id eps)" "valid_slug slug"
    "download_all H L pv slug eps n s = (m, s')"
  shows "\<exists>runs. list_all2 (\<lambda>ep (success, as). download_run H (places_of H L slug (r_id ep)) success as) eps runs \<and>
    m = n + of_nat (length (filter fst runs)) \<and>
    (\<forall>steps \<in> interleavings (tagged_runs slug eps runs).
       fold (exec_step (host_codec H)) steps (ls_db s, ls_fs s) = (ls_db s', ls_fs s'))"
proof -
  from download_all_steps [OF assms(4)] obtain runs where
    runs: "list_all2 (\<lambda>ep (success, as). download_run H (places_of H L slug (r_id ep)) success as) eps runs"
    "m = n + of_nat (length (filter fst runs))"
    "fold (exec_step (host_codec H)) (concat (tagged_runs slug eps runs)) (disk_of s) = disk_of s'"
    by blast
  from downloads.serialises [OF _ runs_apart [OF assms(1-3) runs(1)], of _ "host_codec H"] runs show ?thesis
    by (intro exI [of _ runs]) simp
qed

theorem downloads_interleave_freely_witness:
  "\<exists>m s' runs. download_all demo_host demo_library (difm_provider demo_upstream demo_difm) demo_slug
      [spec_new 0 demo_slug (demo_meta ''161''), spec_new 0 demo_slug (demo_meta ''163'')] 0 demo_state = (m, s') \<and>
    length runs = 2 \<and>
    (\<forall>steps \<in> interleavings (tagged_runs demo_slug
         [spec_new 0 demo_slug (demo_meta ''161''), spec_new 0 demo_slug (demo_meta ''163'')] runs).
       fold (exec_step (host_codec demo_host)) steps (ls_db demo_state, ls_fs demo_state) = (ls_db s', ls_fs s'))"
proof -
  let ?eps = "[spec_new 0 demo_slug (demo_meta ''161''), spec_new 0 demo_slug (demo_meta ''163'')]"
  obtain m s' where run: "download_all demo_host demo_library (difm_provider demo_upstream demo_difm) demo_slug ?eps 0 demo_state =
      (m, s')"
    by fastforce
  have "names_apart (r_id ` set ?eps)" "distinct (map r_id ?eps)"
    by (simp_all add: spec_new_def names_apart_def sanitize_def scalar_heads_def utf8_continuation_def char_code_def
        ascii_alnum_def)
  from downloads_interleave_freely [OF this demo_slug_valid run] obtain runs where
    "list_all2 (\<lambda>ep (success, as). download_run demo_host (places_of demo_host demo_library demo_slug (r_id ep)) success as) ?eps runs"
    "\<forall>steps \<in> interleavings (tagged_runs demo_slug ?eps runs).
       fold (exec_step (host_codec demo_host)) steps (ls_db demo_state, ls_fs demo_state) = (ls_db s', ls_fs s')"
    by blast
  moreover from this(1) have "length runs = 2" using list_all2_lengthD by fastforce
  ultimately show ?thesis using run by blast
qed


text \<open>
  C22: A racing completion wins.  Progress writes are tasks of their own and may land before or
  after the end of their download.  However many of them surround the completion (or the
  failure) of a download in flight, the database is the one that the completion alone leaves:
  no progress is shown for an episode that is no longer being downloaded.
\<close>

theorem completion_wins_race:
  assumes "db_inv X d" "view X d slug i = Some e" "r_state e = Downloading" "final a"
    "list_all is_progress before" "list_all is_progress late"
  shows "run_steps X (slug, i) (before @ a # late) (d, F) = exec_step X ((slug, i), a) (d, F)"
proof -
  note flying = in_flight_view [OF assms(1-3)]
  have "run_steps X (slug, i) (before @ a # late) (d, F) =
      run_steps X (slug, i) late (exec_step X ((slug, i), a) (run_steps X (slug, i) before (d, F)))" by simp
  also have "\<dots> = exec_step X ((slug, i), a) (d, F)"
    unfolding progress_before [OF assms(5,4) flying] by (rule progress_after [OF assms(6,4) flying])
  finally show ?thesis .
qed

theorem completion_wins_race_witness:
  "run_steps demo_codec (demo_slug, EpisodeId ''163'') ([Progress 7 2 None] @ Abort Network # [Progress 9 4 (Some 5)])
     (demo_db, demo_fs) =
   exec_step demo_codec ((demo_slug, EpisodeId ''163''), Abort Network) (demo_db, demo_fs)"
proof -
  have "(case view demo_codec demo_db demo_slug (EpisodeId ''163'') of None \<Rightarrow> False | Some e \<Rightarrow> r_state e = Downloading)"
    by code_simp
  then obtain e where "view demo_codec demo_db demo_slug (EpisodeId ''163'') = Some e" "r_state e = Downloading"
    by (auto split: option.splits)
  from completion_wins_race [OF demo_db_inv this, of "Abort Network" "[Progress 7 2 None]" "[Progress 9 4 (Some 5)]"]
  show ?thesis by (simp add: final_def)
qed

end
