(* ===== verification/Crash.thy ===== *)
theory Crash
  imports Interleaving Intact_Facts
begin

text \<open>
  What a killed process leaves.  The storage calls are transactions and a file reaches its place
  by a rename, so a kill falls between two steps: of the concurrent downloads of a sync, as
  \<open>Interleaving\<close> takes them apart, or of a retention pass, which deletes a file before it marks
  the record.
\<close>

section \<open>A prefix of an interleaving\<close>

lemma take_shuffles:
  "zs \<in> shuffles xs ys \<Longrightarrow> \<exists>i j. take k zs \<in> shuffles (take i xs) (take j ys)"
proof (induction zs arbitrary: xs ys k)
  case (Cons z zs)
  show ?case
  proof (cases k)
    case 0
    then show ?thesis by (intro exI [of _ 0]) simp
  next
    case (Suc n)
    from Cons.prems consider (left) xs' where "xs = z # xs'" "zs \<in> shuffles xs' ys"
      | (right) ys' where "ys = z # ys'" "zs \<in> shuffles xs ys'"
      by (auto simp: Cons_in_shuffles_iff neq_Nil_conv)
    then show ?thesis
    proof cases
      case left
      from Cons.IH [OF left(2), of n] obtain i j where "take n zs \<in> shuffles (take i xs') (take j ys)" by blast
      with left Suc show ?thesis by (intro exI [of _ "Suc i"] exI [of _ j]) (simp add: Cons_in_shuffles_leftI)
    next
      case right
      from Cons.IH [OF right(2), of n] obtain i j where "take n zs \<in> shuffles (take i xs) (take j ys')" by blast
      with right Suc show ?thesis by (intro exI [of _ i] exI [of _ "Suc j"]) (simp add: Cons_in_shuffles_rightI)
    qed
  qed
qed (auto intro: exI [of _ 0])

text \<open>It is an interleaving of prefixes.\<close>

definition cut_runs :: "nat list \<Rightarrow> 'a list list \<Rightarrow> 'a list list" where
  "cut_runs ns xss = map2 take ns xss"

lemma take_interleavings:
  "zs \<in> interleavings xss \<Longrightarrow>
   \<exists>ns. length ns = length xss \<and> take k zs \<in> interleavings (cut_runs ns xss)"
proof (induction xss arbitrary: zs k)
  case (Cons xs xss)
  then obtain ys where ys: "ys \<in> interleavings xss" "zs \<in> shuffles xs ys" by auto
  from take_shuffles [OF ys(2), of k] obtain i j where ij: "take k zs \<in> shuffles (take i xs) (take j ys)" by blast
  from Cons.IH [OF ys(1), of j] obtain ns where "length ns = length xss" "take j ys \<in> interleavings (cut_runs ns xss)"
    by blast
  with ij show ?case by (intro exI [of _ "i # ns"]) (auto simp: cut_runs_def)
qed (simp add: cut_runs_def)

lemma cut_runs_apart:
  assumes "sorted_wrt (\<lambda>xs ys. \<forall>x \<in> set xs. \<forall>y \<in> set ys. A x y) xss" "length ns = length xss"
  shows "sorted_wrt (\<lambda>xs ys. \<forall>x \<in> set xs. \<forall>y \<in> set ys. A x y) (cut_runs ns xss)"
  using assms
  by (auto simp: sorted_wrt_iff_nth_less cut_runs_def dest!: in_set_takeD)

section \<open>The steps on records\<close>

definition settled_view :: "storage_error + store_view \<Rightarrow> store_view \<Rightarrow> store_view" where
  "settled_view r v = (case r of Inl e \<Rightarrow> v | Inr v' \<Rightarrow> v')"

fun view_step :: "show_slug \<times> episode_id \<Rightarrow> download_action \<Rightarrow> store_view \<Rightarrow> store_view" where
  "view_step (slug, i) Begin v = settled_view (spec_transition slug i Downloading spec_downloading v) v"
| "view_step (slug, i) (Progress now b n) v = set_at slug i (map_option (spec_progress now b n) (v slug i)) v"
| "view_step (slug, i) (Persist p c) v = v"
| "view_step (slug, i) (Complete now f) v = settled_view (spec_transition slug i Cached (spec_cached now f) v) v"
| "view_step (slug, i) (Abort c) v = settled_view (spec_transition slug i (Failed c) (spec_failed c) v) v"

lemma settle_other:
  "(sl, j) \<noteq> (slug, i) \<Longrightarrow> settled_view (spec_transition slug i to g v) v sl j = v sl j"
  by (auto simp: settled_view_def spec_transition_def set_at_def split: option.split)

lemma view_step_other: "(sl, j) \<noteq> k \<Longrightarrow> view_step k a v sl j = v sl j"
  by (cases "(k, a, v)" rule: view_step.cases) (auto simp: settle_other set_at_def)

lemma settle_eq: "(case r of Inl e \<Rightarrow> v | Inr v' \<Rightarrow> v') = settled_view r v"
  by (simp add: settled_view_def)

lemma exec_step_view:
  assumes "codec_ok X" "db_inv X d" "exec_step X (k, a) (d, F) = (d', F')"
    "\<And>now f m. a = Complete now f \<Longrightarrow> cf_mime f = Some m \<Longrightarrow> canonical_mime m"
  shows "db_inv X d' \<and> view X d' = view_step k a (view X d) \<and> show_rows d' = show_rows d \<and>
    F' = (case a of Persist p c \<Rightarrow> fs_write p c F | _ \<Rightarrow> F)"
proof -
  obtain slug i where k: "k = (slug, i)" by fastforce
  have inv: "db_inv X (after d r)" if "\<And>d'. r = Inr ((), d') \<Longrightarrow> db_inv X d'" for r
    using assms(2) that by (rule after_inv) simp
  have inv: "db_inv X (after d (mark_downloading slug i d))"
    "db_inv X (after d (set_progress X now slug i b n d))"
    "db_inv X (after d (mark_cached X now slug i f d))" "db_inv X (after d (mark_failed slug i c d))" for now b n f c
    by (rule inv, erule mark_downloading_inv [OF assms(2)], rule inv, erule set_progress_inv [OF assms(1,2)],
      rule inv, erule mark_cached_inv [OF assms(1,2)], rule inv, erule mark_failed_inv [OF assms(2)])
  have kept: "show_rows (after d (set_progress X now slug i b n d)) = show_rows d" for now b n
    by (simp add: set_progress_def)
  show ?thesis
  proof (cases a)
    case Begin
    with assms(3) inv(1) view_after [OF mark_downloading_refines [OF assms(2)]] show ?thesis
      by (auto simp: k settle_eq)
  next
    case (Progress now b n)
    with assms(3) inv(2) kept view_after [OF set_progress_refines [OF assms(2,1)]] show ?thesis
      by (auto simp: k)
  next
    case (Complete now f)
    with assms(4) have "\<forall>m. cf_mime f = Some m \<longrightarrow> canonical_mime m" by blast
    from view_after [OF mark_cached_refines [OF assms(2,1) this]] Complete assms(3) inv(3) show ?thesis
      by (auto simp: k settle_eq)
  next
    case (Abort c)
    with assms(3) inv(4) view_after [OF mark_failed_refines [OF assms(2)]] show ?thesis
      by (auto simp: k settle_eq)
  qed (use assms(2,3) k in auto)
qed

section \<open>Soundness after every step\<close>

definition sound_disk :: "'u host \<Rightarrow> 'u library \<Rightarrow> episode_id set \<Rightarrow> db \<times> fs \<Rightarrow> bool" where
  "sound_disk H L I x \<longleftrightarrow> media_sound H L I {} \<lparr>ls_db = fst x, ls_fs = snd x, ls_events = [], ls_tick = 0\<rparr>"

lemma sound_disk_iff: "media_sound H L I {} s \<longleftrightarrow> sound_disk H L I (disk_of s)"
  by (simp add: sound_disk_def media_sound_def)

lemma sound_diskD:
  assumes "sound_disk H L I (d, F)"
  shows "db_inv (host_codec H) d" "disk_quiet F" "art_paths d \<subseteq> artwork_places L"
    "view (host_codec H) d slug i = Some e \<Longrightarrow> record_sound H L I {} F slug i e"
  using assms by (simp_all add: sound_disk_def media_sound_def)

text \<open>A step that caches nothing keeps the records sound.\<close>

lemma sound_uncached:
  assumes "sound_disk H L I (d, F)" "db_inv (host_codec H) d'" "show_rows d' = show_rows d"
    "\<And>sl j. (sl, j) \<noteq> k \<Longrightarrow> view (host_codec H) d' sl j = view (host_codec H) d sl j"
    "\<And>e'. view (host_codec H) d' (fst k) (snd k) = Some e' \<Longrightarrow>
       view (host_codec H) d (fst k) (snd k) = Some e' \<or>
       r_state e' \<noteq> Cached \<and> view (host_codec H) d (fst k) (snd k) \<noteq> None"
  shows "sound_disk H L I (d', F)"
proof -
  note inv = sound_diskD [OF assms(1)]
  have "record_sound H L I {} F sl j e'" if v': "view (host_codec H) d' sl j = Some e'" for sl j e'
  proof (cases "(sl, j) = k")
    case True
    with assms(5) [of e'] v' inv(4) show ?thesis by (auto simp: record_sound_def)
  next
    case False
    with v' assms(4) inv(4) show ?thesis by auto
  qed
  with inv assms(2) art_paths_same [OF assms(3)] show ?thesis by (simp add: sound_disk_def media_sound_def)
qed

lemma sound_simple_step:
  assumes "codec_ok (host_codec H)" "sound_disk H L I x" "a = Begin \<or> is_progress a \<or> (\<exists>c. a = Abort c)"
  shows "sound_disk H L I (exec_step (host_codec H) (k, a) x)"
proof -
  obtain slug i d F d' F' where x: "x = (d, F)" "k = (slug, i)" "exec_step (host_codec H) (k, a) x = (d', F')"
    by (metis prod.collapse)
  note inv = sound_diskD [OF assms(2) [unfolded x(1)]]
  have step: "db_inv (host_codec H) d'" "view (host_codec H) d' = view_step k a (view (host_codec H) d)"
    "show_rows d' = show_rows d" "F' = F"
    using exec_step_view [OF assms(1) inv(1) x(3) [unfolded x(1)]] assms(3) by (auto simp: is_progress_def)
  have "sound_disk H L I (d', F)"
  proof (rule sound_uncached [OF assms(2) [unfolded x(1)] step(1,3), of k])
    fix e' assume "view (host_codec H) d' (fst k) (snd k) = Some e'"
    then show "view (host_codec H) d (fst k) (snd k) = Some e' \<or>
       r_state e' \<noteq> Cached \<and> view (host_codec H) d (fst k) (snd k) \<noteq> None"
      using assms(3)
      by (auto simp: step(2) x(2) settled_view_def spec_transition_def spec_downloading_def spec_failed_def no_progress_def
          is_progress_def spec_progress_def split: option.splits if_splits)
  qed (simp add: step(2) view_step_other)
  then show ?thesis by (simp add: x(3) step(4))
qed

text \<open>From \<open>Begin\<close> to the end the record stays \<open>Downloading\<close>.\<close>

definition flying :: "'u host \<Rightarrow> show_slug \<times> episode_id \<Rightarrow> db \<times> fs \<Rightarrow> bool" where
  "flying H k x \<longleftrightarrow> (\<exists>e. view (host_codec H) (fst x) (fst k) (snd k) = Some e \<and> r_state e = Downloading)"

lemma flying_progress:
  assumes "codec_ok (host_codec H)" "sound_disk H L I x" "flying H k x" "is_progress a"
  shows "flying H k (exec_step (host_codec H) (k, a) x) \<and> snd (exec_step (host_codec H) (k, a) x) = snd x"
proof -
  obtain slug i d F d' F' where x: "x = (d, F)" "k = (slug, i)" "exec_step (host_codec H) (k, a) x = (d', F')"
    by (metis prod.collapse)
  with exec_step_view [OF assms(1) sound_diskD(1) [OF assms(2) [unfolded x(1)]] x(3) [unfolded x(1)]] assms(3,4)
  show ?thesis by (auto simp: flying_def is_progress_def spec_progress_def)
qed

lemma sound_progress:
  assumes "codec_ok (host_codec H)" "sound_disk H L I x" "list_all is_progress ws"
  shows "sound_disk H L I (run_steps (host_codec H) k ws x) \<and>
    (flying H k x \<longrightarrow> flying H k (run_steps (host_codec H) k ws x) \<and> snd (run_steps (host_codec H) k ws x) = snd x)"
  using assms(2,3)
proof (induction ws arbitrary: x)
  case (Cons w ws)
  from Cons.IH [OF sound_simple_step [OF assms(1) Cons.prems(1), of w k]] Cons.prems
    flying_progress [OF assms(1) Cons.prems(1), of k w]
  show ?case by auto
qed simp

lemma sound_persist:
  assumes "names_apart I" "sound_disk H L I x" "flying H (slug, i) x" "p \<in> places_of H L slug i"
  shows "sound_disk H L I (fst x, fs_write p c (snd x))"
proof -
  obtain d F where x: "x = (d, F)" by fastforce
  note inv = sound_diskD [OF assms(2) [unfolded x]]
  let ?s = "\<lparr>ls_db = d, ls_fs = F, ls_events = [], ls_tick = 0\<rparr>"
  have sound: "media_sound H L I {} ?s" using assms(2) by (simp add: x sound_disk_def)
  obtain e0 where e0: "view (host_codec H) d slug i = Some e0" "r_state e0 = Downloading"
    using assms(3) by (auto simp: x flying_def)
  have i: "i \<in> I" "valid_slug slug"
    using inv(4) [OF e0(1)] view_valid_slug [OF inv(1) e0(1)] by (simp_all add: record_sound_def)
  have "record_sound H L I {} (fs_write p c F) sl j e" if v: "view (host_codec H) d sl j = Some e" for sl j e
  proof (rule record_sound_cong [OF inv(4) [OF v] inv(2)])
    fix q assume q: "r_state e = Cached" "r_file_path e = Some q"
    then have "(sl, j) \<noteq> (slug, i)" using v e0 by auto
    from sound_places_apart [OF sound assms(1) i _ q(1) this] v q(2) assms(4) have "q \<noteq> p"
      by (auto simp: places_of_def)
    then show "fs_files (fs_write p c F) q = fs_files F q" by (simp add: fs_write_def)
  qed (use inv(2) in simp_all)
  with inv show ?thesis by (simp add: x sound_disk_def media_sound_def)
qed

lemma fs_write_same: "fs_files F p = Some c \<Longrightarrow> fs_write p c F = F"
  by (cases F) (auto simp: fs_write_def)

lemma sound_complete:
  assumes "codec_ok (host_codec H)" "sound_disk H L I x" "flying H (slug, i) x" "p \<in> places_of H L slug i"
    "fs_files (snd x) p = Some c" "length c < 2 ^ 63" "records_body H p c f"
    "\<And>m. cf_mime f = Some m \<Longrightarrow> canonical_mime m"
  shows "sound_disk H L I (exec_step (host_codec H) ((slug, i), Complete now f) x)"
proof -
  obtain d F d' F' where x: "x = (d, F)" "exec_step (host_codec H) ((slug, i), Complete now f) (d, F) = (d', F')"
    by (metis prod.collapse)
  note inv = sound_diskD [OF assms(2) [unfolded x(1)]]
  obtain e0 where e0: "view (host_codec H) d slug i = Some e0" "r_state e0 = Downloading"
    using assms(3) by (auto simp: x flying_def)
  let ?e = "spec_cached now f e0"
  have step: "db_inv (host_codec H) d'" "view (host_codec H) d' = set_at slug i (Some ?e) (view (host_codec H) d)"
    "show_rows d' = show_rows d" "F' = F"
    using exec_step_view [OF assms(1) inv(1) x(2)] assms(8) e0 by (auto simp: settled_view_def spec_transition_def)
  have "check_file H (fs_write p c F) ?e = None"
    by (rule check_written [OF inv(2) assms(6)]) (use assms(7) in \<open>simp_all add: records_body_def spec_cached_def no_progress_def\<close>)
  then have "check_file H F ?e = None" using fs_write_same assms(5) by (simp add: x(1))
  moreover have "i \<in> I" using inv(4) [OF e0(1)] by (simp add: record_sound_def)
  ultimately have "record_sound H L I {} F slug i ?e"
    using assms(4,7) by (auto simp: record_sound_def records_body_def places_of_def spec_cached_def no_progress_def)
  then have "record_sound H L I {} F sl j e" if "view (host_codec H) d' sl j = Some e" for sl j e
    using that inv(4) by (auto simp: step(2) set_at_def split: if_splits)
  with step(1,4) inv art_paths_same [OF step(3)] have "sound_disk H L I (d', F')"
    by (simp add: sound_disk_def media_sound_def)
  then show ?thesis unfolding x .
qed

section \<open>A download that is cut short\<close>

lemma begins_flying:
  assumes "codec_ok (host_codec H)" "sound_disk H L I x" "begins slug i (fst x)"
  shows "flying H (slug, i) (exec_step (host_codec H) ((slug, i), Begin) x)"
proof -
  obtain d F d' F' where x: "x = (d, F)" "exec_step (host_codec H) ((slug, i), Begin) (d, F) = (d', F')"
    by (metis prod.collapse)
  note inv = sound_diskD(1) [OF assms(2) [unfolded x(1)]]
  from assms(3) obtain d1 where "mark_downloading slug i d = Inr ((), d1)"
    by (cases "mark_downloading slug i d") (auto simp: begins_def x(1))
  with mark_downloading_refines [OF inv, of slug i] obtain v where
    "spec_transition slug i Downloading spec_downloading (view (host_codec H) d) = Inr v"
    by simp (metis)
  with exec_step_view [OF assms(1) inv x(2)] have
    "spec_transition slug i Downloading spec_downloading (view (host_codec H) d) = Inr (view (host_codec H) d')"
    by (simp add: settled_view_def)
  then show ?thesis
    unfolding flying_def x fst_conv snd_conv
    by (auto simp: spec_transition_def spec_downloading_def no_progress_def split: option.splits if_splits
        dest!: sym [of "set_at slug i u v" w for u v w])
qed

lemma take_tail: "take n (ws @ [a]) = (if n \<le> length ws then take n ws else ws @ [a])"
  by simp

lemma sound_tail:
  assumes "codec_ok (host_codec H)" "sound_disk H L I x" "list_all is_progress ws"
    "\<And>y. sound_disk H L I y \<Longrightarrow> flying H k x \<Longrightarrow> flying H k y \<and> snd y = snd x \<Longrightarrow>
       sound_disk H L I (exec_step (host_codec H) (k, a) y)"
    "\<not> flying H k x \<Longrightarrow> \<exists>c. a = Abort c"
  shows "sound_disk H L I (run_steps (host_codec H) k (take n (ws @ [a])) x)"
proof (cases "n \<le> length ws")
  case True
  have "list_all is_progress (take n ws)" using assms(3) by (auto simp: list_all_iff dest: in_set_takeD)
  with True sound_progress [OF assms(1,2)] show ?thesis by (simp add: take_tail)
next
  case False
  let ?y = "run_steps (host_codec H) k ws x"
  note y = sound_progress [OF assms(1-3), of k]
  have "sound_disk H L I (exec_step (host_codec H) (k, a) ?y)"
  proof (cases "flying H k x")
    case True
    with y assms(4) [of ?y] show ?thesis by blast
  next
    case nf: False
    with assms(5) y sound_simple_step [OF assms(1), of L I ?y a k] show ?thesis by blast
  qed
  with False show ?thesis by (simp add: take_tail)
qed

lemma sound_cut_run:
  assumes "host_ok H" "replies_bounded H" "names_apart I" "sound_disk H L I x"
    "download_run H (places_of H L slug i) success as" "mimes_canonical as"
    "writes_file as \<Longrightarrow> begins slug i (fst x)"
  shows "sound_disk H L I (run_steps (host_codec H) (slug, i) (take n as) x)"
proof -
  let ?X = "host_codec H" and ?k = "(slug, i)"
  have codec: "codec_ok ?X" using assms(1) by (simp add: host_ok_def)
  obtain put ws a where run: "as = Begin # put @ ws @ [a]" "list_all is_progress ws"
    "put = [] \<or> (\<exists>p c. put = [Persist p c] \<and> puts_reply H (places_of H L slug i) p c)"
    "if success then \<exists>p c now f. put = [Persist p c] \<and> a = Complete now f \<and> records_body H p c f
     else \<exists>c. a = Abort c"
    using assms(5) unfolding download_run_def by blast
  let ?x = "exec_step ?X (?k, Begin) x"
  note begun = sound_simple_step [OF codec assms(4), of Begin ?k, simplified]
  show ?thesis
  proof (cases n)
    case 0
    with assms(4) show ?thesis by simp
  next
    case (Suc n1)
    show ?thesis
    proof (cases put)
      case Nil
      with run(4) have a: "\<exists>c. a = Abort c" by (auto split: if_splits)
      from sound_tail [OF codec begun run(2) sound_simple_step [OF codec]] a Nil Suc run(1) show ?thesis by simp
    next
      case (Cons b bs)
      with run(3) obtain p c where put: "put = [Persist p c]" "p \<in> places_of H L slug i" "length c < 2 ^ 63"
        using assms(2) by (auto simp: puts_reply_def replies_bounded_def)
      have fly: "flying H ?k ?x"
        using assms(7) by (intro begins_flying [OF codec assms(4)]) (auto simp: run(1) put(1) writes_file_def)
      let ?y = "(fst ?x, fs_write p c (snd ?x))"
      have y: "exec_step ?X (?k, Persist p c) ?x = ?y" by (cases ?x) simp
      note placed = sound_persist [OF assms(3) begun fly put(2), of c]
      have last: "sound_disk H L I (exec_step ?X (?k, a) z)"
        if z: "sound_disk H L I z" "flying H ?k z \<and> snd z = snd ?y" for z
      proof (cases success)
        case False
        with run(4) sound_simple_step [OF codec z(1)] show ?thesis by auto
      next
        case True
        with run(4) put(1) obtain now f where a: "a = Complete now f" "records_body H p c f" by auto
        have "canonical_mime m" if "cf_mime f = Some m" for m
          using assms(6) that by (auto simp: mimes_canonical_def run(1) a(1))
        from sound_complete [OF codec z(1) _ put(2) _ put(3) a(2) this] z(2) a(1) show ?thesis
          by (simp add: fs_write_def)
      qed
      have fly': "flying H ?k ?y" using fly by (simp add: flying_def)
      show ?thesis
      proof (cases n1)
        case 0
        with Suc run(1) begun show ?thesis by simp
      next
        case (Suc n2)
        have "sound_disk H L I (run_steps ?X ?k (take n2 (ws @ [a])) ?y)"
          by (rule sound_tail [OF codec placed run(2) last]) (use fly' in auto)
        with Suc \<open>n = Suc n1\<close> run(1) put(1) y show ?thesis by simp
      qed
    qed
  qed
qed

section \<open>The downloads of a sync, cut short\<close>

lemma begins_cong:
  assumes "db_inv X d" "db_inv X d'" "view X d' slug i = view X d slug i"
  shows "begins slug i d' \<longleftrightarrow> begins slug i d"
proof -
  have "begins slug i d \<longleftrightarrow> ok (spec_transition slug i Downloading spec_downloading (view X d)) \<noteq> None"
    if "db_inv X d" for d
    unfolding begins_def mark_downloading_refines [OF that, symmetric]
    by (cases "mark_downloading slug i d") auto
  then show ?thesis using assms by (simp add: spec_transition_def split: option.split)
qed

lemma run_view_other:
  assumes "codec_ok X" "db_inv X (fst x)" "mimes_canonical as"
  shows "db_inv X (fst (run_steps X k as x)) \<and>
    (\<forall>sl j. (sl, j) \<noteq> k \<longrightarrow> view X (fst (run_steps X k as x)) sl j = view X (fst x) sl j)"
  using assms(2,3)
proof (induction as arbitrary: x)
  case (Cons a as)
  obtain d F d' F' where x: "x = (d, F)" "exec_step X (k, a) (d, F) = (d', F')" by (metis prod.collapse)
  have "db_inv X d' \<and> view X d' = view_step k a (view X d)"
    using exec_step_view [OF assms(1) _ x(2)] Cons.prems by (auto simp: x(1) mimes_canonical_def)
  with Cons.IH [of "(d', F')"] Cons.prems(2) x show ?case
    by (auto simp: mimes_canonical_def view_step_other)
qed simp

text \<open>What a download needs to know of the record it starts from.\<close>

definition cut_ok :: "'u host \<Rightarrow> 'u library \<Rightarrow> show_slug \<Rightarrow> db \<Rightarrow> episode_record \<Rightarrow> bool \<times> download_action list \<Rightarrow> bool" where
  "cut_ok H L slug d ep run \<longleftrightarrow>
     download_run H (places_of H L slug (r_id ep)) (fst run) (snd run) \<and> mimes_canonical (snd run) \<and>
     (writes_file (snd run) \<longrightarrow> begins slug (r_id ep) d)"

lemma download_all_runs:
  assumes "host_ok H" "provider_ok pv" "replies_bounded H" "names_apart I" "media_sound H L I {} s"
    "distinct (map r_id eps)" "download_all H L pv slug eps n s = (m, s')"
  shows "\<exists>runs. list_all2 (cut_ok H L slug (ls_db s)) eps runs \<and>
    fold (exec_step (host_codec H)) (concat (tagged_runs slug eps runs)) (disk_of s) = disk_of s'"
  using assms(5-7)
proof (induction eps arbitrary: n s)
  case (Cons ep eps)
  obtain success s1 where d: "download_episode H L pv slug ep s = (success, s1)" by fastforce
  from download_episode_steps [OF d] assms(2) obtain as where as: "cut_ok H L slug (ls_db s) ep (success, as)"
    "run_steps (host_codec H) (slug, r_id ep) as (disk_of s) = disk_of s1" by (auto simp: cut_ok_def)
  have s1: "media_sound H L I {} s1" using sound_download [OF assms(1-4) Cons.prems(1) d] by simp
  from Cons.IH [OF s1, of "if success then n + 1 else n"] Cons.prems d obtain runs where
    runs: "list_all2 (cut_ok H L slug (ls_db s1)) eps runs"
    "fold (exec_step (host_codec H)) (concat (tagged_runs slug eps runs)) (disk_of s1) = disk_of s'"
    by auto
  have "begins slug (r_id e) (ls_db s1) \<longleftrightarrow> begins slug (r_id e) (ls_db s)" if "e \<in> set eps" for e
  proof (rule begins_cong [OF soundD(1) [OF Cons.prems(1)] soundD(1) [OF s1]])
    from that Cons.prems(2) have "r_id e \<noteq> r_id ep" by (metis distinct.simps(2) image_eqI list.set_map list.simps(9))
    then show "view (host_codec H) (ls_db s1) slug (r_id e) = view (host_codec H) (ls_db s) slug (r_id e)"
      using download_others(1) [OF assms(1,2,4) Cons.prems(1) d] by simp
  qed
  then have "list_all2 (cut_ok H L slug (ls_db s)) eps runs"
    using runs(1) by (auto simp: cut_ok_def list_all2_conv_all_nth)
  with as runs(2) show ?case by (intro exI [of _ "(success, as) # runs"]) simp
qed simp

lemma sound_cut_all:
  assumes "host_ok H" "replies_bounded H" "names_apart I" "sound_disk H L I x"
    "list_all2 (cut_ok H L slug d) eps runs" "length ns = length eps" "distinct (map r_id eps)" "db_inv (host_codec H) d"
    "\<And>ep. ep \<in> set eps \<Longrightarrow> view (host_codec H) (fst x) slug (r_id ep) = view (host_codec H) d slug (r_id ep)"
  shows "let y = fold (exec_step (host_codec H)) (concat (cut_runs ns (tagged_runs slug eps runs))) x
    in sound_disk H L I y \<and>
      (\<forall>sl j. sl \<noteq> slug \<or> j \<notin> r_id ` set eps \<longrightarrow> view (host_codec H) (fst y) sl j = view (host_codec H) (fst x) sl j)"
  using assms(5,6,4,7,9)
proof (induction eps runs arbitrary: ns x rule: list_all2_induct)
  case (Cons ep eps run runs)
  then obtain n ms where ns: "ns = n # ms" "length ms = length eps" by (cases ns) auto
  let ?X = "host_codec H" and ?k = "(slug, r_id ep)"
  let ?y = "run_steps ?X ?k (take n (snd run)) x"
  have codec: "codec_ok ?X" using assms(1) by (simp add: host_ok_def)
  have inv: "db_inv ?X (fst x)" using sound_diskD(1) Cons.prems(2) by (cases x) auto
  have "writes_file (snd run) \<Longrightarrow> begins slug (r_id ep) (fst x)"
    using Cons.hyps(1) begins_cong [OF assms(8) inv] Cons.prems(4) by (auto simp: cut_ok_def)
  then have y: "sound_disk H L I ?y"
    using Cons.hyps(1) by (intro sound_cut_run [OF assms(1-3) Cons.prems(2)]) (auto simp: cut_ok_def)
  have "mimes_canonical (take n (snd run))"
    using Cons.hyps(1) by (auto simp: cut_ok_def mimes_canonical_def dest: in_set_takeD)
  note other = run_view_other [OF codec inv this, of ?k, THEN conjunct2, rule_format]
  have new: "(slug, r_id e) \<noteq> ?k" if "e \<in> set eps" for e
    using that Cons.prems(3) by (metis distinct.simps(2) image_eqI list.set_map list.simps(9) prod.inject)
  have "view ?X (fst ?y) slug (r_id e) = view ?X d slug (r_id e)" if "e \<in> set eps" for e
    using other [OF new [OF that]] Cons.prems(4) [of e] that by simp
  from Cons.IH [OF ns(2) y _ this] Cons.prems(3) other show ?case
    by (auto simp: ns(1) cut_runs_def take_map Let_def)
qed (simp add: cut_runs_def)

text \<open>The state a process leaves that is killed after \<open>k\<close> steps of its downloads.\<close>

definition killed_in :: "'u host \<Rightarrow> tagged_action list \<Rightarrow> nat \<Rightarrow> lib_state \<Rightarrow> lib_state" where
  "killed_in H steps k s =
     (let y = fold (exec_step (host_codec H)) (take k steps) (ls_db s, ls_fs s)
      in s\<lparr>ls_db := fst y, ls_fs := snd y\<rparr>)"

lemma sound_killed:
  assumes "host_ok H" "provider_ok pv" "replies_bounded H" "names_apart I" "media_sound H L I {} s"
    "r_id ` set eps \<subseteq> I" "distinct (map r_id eps)" "valid_slug slug"
    "list_all2 (cut_ok H L slug (ls_db s)) eps runs" "steps \<in> interleavings (tagged_runs slug eps runs)"
  shows "media_sound H L I {} (killed_in H steps k s) \<and>
    (\<forall>sl j. sl \<noteq> slug \<or> j \<notin> r_id ` set eps \<longrightarrow>
       view (host_codec H) (ls_db (killed_in H steps k s)) sl j = view (host_codec H) (ls_db s) sl j)"
proof -
  let ?runs = "tagged_runs slug eps runs"
  have names: "names_apart (r_id ` set eps)" using assms(4,6) by (auto simp: names_apart_def intro: inj_on_subset)
  have "list_all2 (\<lambda>ep (success, as). download_run H (places_of H L slug (r_id ep)) success as) eps runs"
    using assms(9) by (rule list_all2_mono) (simp add: cut_ok_def split_beta)
  note apart = runs_apart [OF names assms(7,8) this]
  from take_interleavings [OF assms(10), of k] obtain ns where ns: "length ns = length ?runs"
    "take k steps \<in> interleavings (cut_runs ns ?runs)" by blast
  from downloads.serialises [OF ns(2) cut_runs_apart [OF apart ns(1)]]
  have y: "fold (exec_step (host_codec H)) (take k steps) (disk_of s) =
      fold (exec_step (host_codec H)) (concat (cut_runs ns ?runs)) (disk_of s)" .
  have len: "length ns = length eps" using ns(1) list_all2_lengthD [OF assms(9)] by simp
  have sound: "sound_disk H L I (disk_of s)" using assms(5) by (simp add: sound_disk_iff)
  from sound_cut_all [OF assms(1,3,4) sound assms(9) len assms(7) soundD(1) [OF assms(5)]]
  show ?thesis by (simp add: killed_in_def y Let_def sound_disk_iff)
qed

section \<open>Properties of killed downloads\<close>

text \<open>
  C20: A kill during the downloads of a sync damages nothing.  After any history of syncs and
  verifications from an empty database, let the downloads of a sync run concurrently and the
  process die after any number of their steps.  Then the records of all other episodes are as
  they were, and after the restart, whatever syncs and verifications follow, every cached
  episode has its file with the recorded size and hash.
\<close>

theorem killed_downloads_damage_nothing:
  assumes "host_ok H" "provider_ok pv" "replies_bounded H" "names_apart I"
    "\<forall>c \<in> set (before @ later). call_ok I (lib_data_dir L) c"
    "ls_db s0 = empty_db" "disk_quiet (ls_fs s0)" "s = fold (perform_call H) before s0"
    "r_id ` set eps \<subseteq> I" "distinct (map r_id eps)" "valid_slug slug" "download_all H L pv slug eps n s = (m, s')"
  shows "\<exists>runs. list_all2 (\<lambda>ep (success, as). download_run H (places_of H L slug (r_id ep)) success as) eps runs \<and>
    fold (exec_step (host_codec H)) (concat (tagged_runs slug eps runs)) (ls_db s, ls_fs s) = (ls_db s', ls_fs s') \<and>
    (\<forall>steps \<in> interleavings (tagged_runs slug eps runs). \<forall>k.
       (\<forall>sl j. sl \<noteq> slug \<or> j \<notin> r_id ` set eps \<longrightarrow>
          view (host_codec H) (ls_db (killed_in H steps k s)) sl j = view (host_codec H) (ls_db s) sl j) \<and>
       (let t = fold (perform_call H) later (killed_in H steps k s) in
        \<forall>sl. \<exists>rep u. verify H L sl False t = (Inr rep, t\<lparr>ls_tick := u\<rparr>) \<and> vr_problems rep = []))"
proof -
  have s: "media_sound H L I {} s"
    using sound_calls [OF assms(1,3,4) _ sound_empty [OF assms(6,7)], of before] assms(5,8) by simp
  from download_all_runs [OF assms(1-4) s assms(10,12)] obtain runs where
    runs: "list_all2 (cut_ok H L slug (ls_db s)) eps runs"
    "fold (exec_step (host_codec H)) (concat (tagged_runs slug eps runs)) (disk_of s) = disk_of s'" by blast
  note killed = sound_killed [OF assms(1-4) s assms(9-11) runs(1)]
  have "\<exists>rep u. verify H L sl False (fold (perform_call H) later (killed_in H steps k s)) =
      (Inr rep, (fold (perform_call H) later (killed_in H steps k s))\<lparr>ls_tick := u\<rparr>) \<and> vr_problems rep = []"
    if "steps \<in> interleavings (tagged_runs slug eps runs)" for steps k sl
    using assms(5) killed [OF that, THEN conjunct1]
    by (intro sound_verify_clean [OF assms(1) sound_calls [OF assms(1,3,4)]]) simp_all
  moreover have "list_all2 (\<lambda>ep (success, as). download_run H (places_of H L slug (r_id ep)) success as) eps runs"
    using runs(1) by (rule list_all2_mono) (simp add: cut_ok_def split_beta)
  ultimately show ?thesis
    using runs(2) killed by (intro exI [of _ runs]) (simp add: Let_def)
qed

theorem killed_downloads_damage_nothing_witness:
  "\<exists>s runs. s = perform_call demo_host (CallSync (catalogue_library [''161'', ''162'']) demo_slug)
      \<lparr>ls_db = empty_db, ls_fs = demo_fs, ls_events = [], ls_tick = 0\<rparr> \<and> length runs = 1 \<and>
    (\<forall>steps \<in> interleavings (tagged_runs demo_slug [spec_new 0 demo_slug (demo_meta ''162'')] runs). \<forall>k.
       let t = perform_call demo_host (CallSync (catalogue_library [''161'', ''162'']) demo_slug)
         (killed_in demo_host steps k s) in
       \<forall>sl. \<exists>rep u. verify demo_host (catalogue_library [''161'', ''162'']) sl False t =
         (Inr rep, t\<lparr>ls_tick := u\<rparr>) \<and> vr_problems rep = [])"
proof -
  let ?L = "catalogue_library [''161'', ''162'']" and ?eps = "[spec_new 0 demo_slug (demo_meta ''162'')]"
  let ?s0 = "\<lparr>ls_db = empty_db, ls_fs = demo_fs, ls_events = [], ls_tick = 0\<rparr>"
  let ?s = "fold (perform_call demo_host) [CallSync ?L demo_slug] ?s0"
  obtain m s' where run: "download_all demo_host ?L (catalogue [''161'', ''162'']) demo_slug ?eps 0 ?s = (m, s')"
    by fastforce
  have calls: "\<forall>c \<in> set ([CallSync ?L demo_slug] @ [CallSync ?L demo_slug]).
      call_ok (EpisodeId ` set [''161'', ''162'']) (lib_data_dir ?L) c"
    using catalogue_usable [of "[''161'', ''162'']"] demo_slug_valid by (simp add: catalogue_library_def demo_library_def)
  have pv: "provider_ok (catalogue [''161'', ''162''])" by (rule catalogue_provider_ok) simp
  have ids: "r_id ` set ?eps \<subseteq> EpisodeId ` set [''161'', ''162'']" "distinct (map r_id ?eps)" by (simp_all add: spec_new_def)
  obtain runs where "list_all2 (\<lambda>ep (success, as). download_run demo_host (places_of demo_host ?L demo_slug (r_id ep)) success as) ?eps runs"
    and all: "\<forall>steps \<in> interleavings (tagged_runs demo_slug ?eps runs). \<forall>k.
       let t = fold (perform_call demo_host) [CallSync ?L demo_slug] (killed_in demo_host steps k ?s) in
       \<forall>sl. \<exists>rep u. verify demo_host ?L sl False t = (Inr rep, t\<lparr>ls_tick := u\<rparr>) \<and> vr_problems rep = []"
    using killed_downloads_damage_nothing [OF demo_host_ok pv demo_replies_bounded demo_names_apart calls _ _ refl ids
        demo_slug_valid run] demo_disk_quiet by auto
  then have "length runs = 1" using list_all2_lengthD by fastforce
  with all show ?thesis by (intro exI [of _ ?s] exI [of _ runs]) simp
qed

section \<open>A retention pass, cut short\<close>

text \<open>
  The first half of an iteration of \<open>prune_loop\<close> deletes the file, the second marks the record;
  \<open>prune_until\<close> stops after \<open>k\<close> halves.
\<close>

definition remove_step :: "episode_record list \<Rightarrow> episode_id \<Rightarrow> lib_state \<Rightarrow> bool \<times> lib_state" where
  "remove_step records i s =
     (case Option.bind (List.find (\<lambda>ep. r_id ep = i) records) r_file_path of
        None \<Rightarrow> (True, s)
      | Some p \<Rightarrow>
          (case fs_remove p (ls_fs s) of
             (Inr _, F) \<Rightarrow> (True, s\<lparr>ls_fs := F\<rparr>)
           | (Inl IoNotFound, F) \<Rightarrow> (True, s\<lparr>ls_fs := F\<rparr>)
           | (Inl (IoOther why), F) \<Rightarrow> (False, s\<lparr>ls_fs := F\<rparr>)))"

fun prune_until :: "show_slug \<Rightarrow> episode_record list \<Rightarrow> episode_id list \<Rightarrow> nat \<Rightarrow> lib_state \<Rightarrow> lib_state" where
  "prune_until slug records [] k s = s"
| "prune_until slug records (i # ids) 0 s = s"
| "prune_until slug records (i # ids) (Suc 0) s = snd (remove_step records i s)"
| "prune_until slug records (i # ids) (Suc (Suc k)) s =
     (let (removed, s) = remove_step records i s
      in if \<not> removed then prune_until slug records ids k s
         else case stored (mark_pruned slug i (ls_db s)) s of
                (Inl e, s) \<Rightarrow> s
              | (Inr _, s) \<Rightarrow> prune_until slug records ids k s)"

definition retention_until :: "'u host \<Rightarrow> show_slug \<Rightarrow> retention \<Rightarrow> nat \<Rightarrow> lib_state \<Rightarrow> lib_state" where
  "retention_until H slug policy k s =
     (case storage_episodes (host_codec H) slug (ls_db s) of
        Inl e \<Rightarrow> s
      | Inr records \<Rightarrow> prune_until slug records (plan policy (cached_candidates records)) k (tick s))"

text \<open>Enough halves are the whole loop.\<close>

lemma prune_until_loop:
  "2 * length ids \<le> k \<Longrightarrow> prune_until slug records ids k s = snd (prune_loop slug records ids n b s)"
proof (induction slug records ids k s arbitrary: n b rule: prune_until.induct)
  case (4 slug records i ids k s)
  obtain removed s1 where r: "remove_step records i s = (removed, s1)" by fastforce
  obtain x s2 where m: "stored (mark_pruned slug i (ls_db s1)) s1 = (x, s2)" by fastforce
  have len: "2 * length ids \<le> k" using 4(3) by simp
  show ?case
    using 4(1) [OF r [symmetric] refl _ len] 4(2) [OF r [symmetric] refl _ m [symmetric] _ len] r m
    by (cases x) (auto simp: Let_def remove_step_def [symmetric])
qed simp_all

lemma remove_step_eq:
  assumes "List.find (\<lambda>ep. r_id ep = i) records = Some e"
  shows "remove_step records i s =
    (removable (ls_fs s) e, s\<lparr>ls_fs := remove_files (set_option (r_file_path e)) (ls_fs s)\<rparr>)"
  using remove_record_file [where e = e and s = s] by (simp add: remove_step_def assms)

text \<open>
  A pass that is cut short has pruned the first ones of its list and may have deleted the file of
  the next.
\<close>

lemma prune_until_effect:
  assumes "db_inv X (ls_db s)" "distinct doomed"
    "\<forall>i \<in> set doomed. \<exists>e. view X (ls_db s) slug i = Some e \<and> r_state e = Cached \<and>
       List.find (\<lambda>ep. r_id ep = i) records = Some e"
  shows "\<exists>j t ids. prune_until slug records doomed k s = t \<and> db_inv X (ls_db t) \<and>
    show_rows (ls_db t) = show_rows (ls_db s) \<and>
    view X (ls_db t) = prune_view slug (ls_fs s) (set (take j doomed)) (view X (ls_db s)) \<and>
    ls_fs t = remove_files (paths_of (view X (ls_db s)) slug (set (take j doomed) \<union> ids)) (ls_fs s) \<and>
    (ids = {} \<or> (\<exists>i \<in> set (drop j doomed). ids = {i}))"
  using assms
proof (induction slug records doomed k s rule: prune_until.induct)
  case (3 slug records i ids s)
  then obtain e where e: "view X (ls_db s) slug i = Some e" "List.find (\<lambda>ep. r_id ep = i) records = Some e" by auto
  then have "paths_of (view X (ls_db s)) slug {i} = set_option (r_file_path e)" by (auto simp: paths_of_def)
  with 3 show ?case
    by (intro exI [of _ 0] exI [of _ "prune_until slug records (i # ids) (Suc 0) s"] exI [of _ "{i}"])
      (simp add: remove_step_eq [OF e(2)] prune_view_def)
next
  case (4 slug records i ids k s)
  let ?v = "view X (ls_db s)" and ?F = "ls_fs s"
  from 4(5) obtain e where e: "?v slug i = Some e" "r_state e = Cached" "List.find (\<lambda>ep. r_id ep = i) records = Some e"
    by auto
  let ?s1 = "s\<lparr>ls_fs := remove_files (set_option (r_file_path e)) ?F\<rparr>"
  let ?v2 = "set_at slug i (Some (if removable ?F e then spec_pruned e else e)) ?v"
  obtain s2 where s2: "prune_until slug records (i # ids) (Suc (Suc k)) s = prune_until slug records ids k s2"
    "db_inv X (ls_db s2)" "show_rows (ls_db s2) = show_rows (ls_db s)" "view X (ls_db s2) = ?v2" "ls_fs s2 = ls_fs ?s1"
    and IH: "distinct ids \<Longrightarrow> \<forall>i \<in> set ids. \<exists>e. view X (ls_db s2) slug i = Some e \<and> r_state e = Cached \<and>
        List.find (\<lambda>ep. r_id ep = i) records = Some e \<Longrightarrow>
      \<exists>j t xs. prune_until slug records ids k s2 = t \<and> db_inv X (ls_db t) \<and>
        show_rows (ls_db t) = show_rows (ls_db s2) \<and>
        view X (ls_db t) = prune_view slug (ls_fs s2) (set (take j ids)) (view X (ls_db s2)) \<and>
        ls_fs t = remove_files (paths_of (view X (ls_db s2)) slug (set (take j ids) \<union> xs)) (ls_fs s2) \<and>
        (xs = {} \<or> (\<exists>i \<in> set (drop j ids). xs = {i}))"
  proof (cases "removable ?F e")
    case True
    obtain s2 where m: "stored (mark_pruned slug i (ls_db ?s1)) ?s1 = (Inr (), s2)" "db_inv X (ls_db s2)"
      "view X (ls_db s2) = set_at slug i (Some (spec_pruned e)) (view X (ls_db ?s1))" "ls_fs s2 = ls_fs ?s1"
      using marked_pruned [of X ?s1 slug i e] 4(3) e by auto
    have "show_rows (ls_db s2) = show_rows (ls_db s)" using stored_db [OF m(1)] by simp
    moreover note r = remove_step_eq [OF e(3), of s]
    ultimately show ?thesis
      using m True 4(2) [OF r [symmetric] refl _ m(1) [symmetric] refl m(2)] by (intro that [of s2]) (simp_all add: r)
  next
    case False
    note r = remove_step_eq [OF e(3), of s]
    show ?thesis
      using False 4(3) e(1) 4(1) [OF r [symmetric] refl] by (intro that [of ?s1]) (simp_all add: r set_at_same)
  qed
  have other: "j \<in> set ids \<Longrightarrow> ?v2 slug j = ?v slug j" for j using 4(4) by (auto simp: set_at_def)
  have "\<forall>j \<in> set ids. \<exists>e. view X (ls_db s2) slug j = Some e \<and> r_state e = Cached \<and>
      List.find (\<lambda>ep. r_id ep = j) records = Some e"
    using 4(5) other by (simp add: s2(4))
  with IH 4(4) obtain j t xs where t: "prune_until slug records ids k s2 = t" "db_inv X (ls_db t)"
    "show_rows (ls_db t) = show_rows (ls_db s)"
    "view X (ls_db t) = prune_view slug ?F (set (take j ids)) ?v2"
    "ls_fs t = remove_files (paths_of ?v2 slug (set (take j ids) \<union> xs)) (ls_fs s2)"
    "xs = {} \<or> (\<exists>i \<in> set (drop j ids). xs = {i})"
    by (auto simp: s2(3-5))
  have new: "i \<notin> set (take j ids) \<union> xs" "i \<notin> set (take j ids)"
    using 4(4) t(6) by (auto dest: in_set_takeD in_set_dropD)
  from prune_view_step [of ?v slug i e _ ?F, OF e(1) new(2)] paths_of_insert [of ?v slug i e, OF e(1) new(1)] t s2
  show ?case
    by (intro exI [of _ "Suc j"] exI [of _ t] exI [of _ xs]) (simp add: remove_files_Un)
qed (auto simp: prune_view_def paths_of_def intro!: exI [of _ 0] exI [of _ "{}"])

section \<open>Retention is resumed\<close>

lemma rejected_filter:
  "\<forall>c \<in> set (chosen p kb k cs). Q c \<Longrightarrow> rejected p kb k (filter Q cs) = filter Q (rejected p kb k cs)"
  by (induction p kb k cs rule: chosen.induct) (auto split: if_splits)

text \<open>Once a part of what is doomed is gone, the rest is doomed still, and nothing else.\<close>

lemma plan_without:
  assumes "distinct (map cand_id cs)" "gone \<subseteq> set (plan p cs)"
  shows "plan p (filter (\<lambda>c. cand_id c \<notin> gone) cs) = filter (\<lambda>i. i \<notin> gone) (plan p cs)"
proof -
  have "set (chosen p 0 0 cs) \<subseteq> set cs" using set_mset_mono [of "mset (chosen p 0 0 cs)" "mset cs"]
    mset_chosen_rejected [of p 0 0 cs] by (metis mset_subset_eq_add_left set_mset_mset)
  then have "\<forall>c \<in> set (chosen p 0 0 cs). cand_id c \<notin> gone"
    using chosen_iff [OF assms(1)] assms(2) by blast
  from rejected_filter [OF this] show ?thesis
    by (simp add: plan_def split_eq filter_map o_def flip: rev_filter)
qed

lemma filter_Cached_apart: "filter (\<lambda>e. P e \<and> Q e) xs = filter Q (filter P xs)"
  by (simp add: conj_commute)

lemma doomed_after_prune:
  assumes "db_inv X d" "storage_episodes X slug d = Inr records" "db_inv X d'" "storage_episodes X slug d' = Inr records'"
    "view X d' = prune_view slug F ids (view X d)" "ids \<subseteq> set (doomed_ids policy records)"
  defines "gone \<equiv> {i \<in> ids. \<exists>e. view X d slug i = Some e \<and> removable F e}"
  shows "set (doomed_ids policy records') = set (doomed_ids policy records) - gone"
proof -
  let ?P = "\<lambda>e. r_state e = Cached \<and> r_id e \<notin> gone"
  let ?cand = "\<lambda>ep. \<lparr>cand_id = r_id ep, cand_bytes = unwrap_or 0 (r_bytes ep)\<rparr>"
  have same: "view X d' slug i = view X d slug i" if "i \<notin> gone" for i
    using that by (cases "view X d slug i") (auto simp: assms(5) prune_view_def gone_def)
  have pruned: "r_state e = Pruned" if "i \<in> gone" "view X d' slug i = Some e" for i e
    using that by (auto simp: assms(5) prune_view_def gone_def)
  have "filter ?P records' = filter ?P records"
  proof (rule filter_listed_eq [OF assms(1-4)])
    fix e :: episode_record assume "?P e"
    then show "view X d slug (r_id e) = Some e \<longleftrightarrow> view X d' slug (r_id e) = Some e" using same [of "r_id e"] by simp
  qed
  moreover have "filter ?P records' = filter (\<lambda>e. r_state e = Cached) records'"
  proof (rule filter_cong [OF refl])
    fix e assume "e \<in> set records'"
    then have "view X d' slug (r_id e) = Some e" using listed_iff_view [OF assms(3,4)] by blast
    with pruned [of "r_id e" e] show "?P e \<longleftrightarrow> r_state e = Cached" by auto
  qed
  ultimately have "filter (\<lambda>e. r_state e = Cached) records' =
      filter (\<lambda>e. r_id e \<notin> gone) (filter (\<lambda>e. r_state e = Cached) records)"
    by (metis filter_Cached_apart)
  then have "cached_candidates records' = filter (\<lambda>c. cand_id c \<notin> gone) (cached_candidates records)"
    by (simp add: cached_candidates_def filter_map o_def)
  moreover have "distinct (map cand_id (cached_candidates records))"
    unfolding cached_candidate_ids by (rule distinct_map_filter [OF listed_distinct [OF assms(1,2)]])
  ultimately have "doomed_ids policy records' = filter (\<lambda>i. i \<notin> gone) (doomed_ids policy records)"
    using plan_without [of "cached_candidates records" gone policy] assms(6) by (auto simp: doomed_ids_def gone_def)
  then show ?thesis by auto
qed

text \<open>Pruning the rest after a part comes to pruning all.\<close>

lemma prune_view_rest:
  assumes "ids \<subseteq> all"
  shows "prune_view slug F (all - {i \<in> ids. \<exists>e. v slug i = Some e \<and> removable F e}) (prune_view slug F ids v) =
    prune_view slug F all v"
proof (intro ext)
  fix sl j
  show "prune_view slug F (all - {i \<in> ids. \<exists>e. v slug i = Some e \<and> removable F e}) (prune_view slug F ids v) sl j =
    prune_view slug F all v sl j"
    using assms by (cases "v slug j") (auto simp: prune_view_def)
qed

lemma paths_of_rest:
  assumes "ids \<subseteq> all" "extra \<subseteq> all"
  shows "paths_of (prune_view slug F ids v) slug (all - {i \<in> ids. \<exists>e. v slug i = Some e \<and> removable F e}) \<union>
      paths_of v slug (ids \<union> extra) = paths_of v slug all"
proof -
  have "p \<in> paths_of (prune_view slug F ids v) slug (all - {i \<in> ids. \<exists>e. v slug i = Some e \<and> removable F e}) \<union>
      paths_of v slug (ids \<union> extra)" if "i \<in> all" "v slug i = Some e" "r_file_path e = Some p" for p i e
    using that by (cases "i \<in> ids") (auto simp: paths_of_def prune_view_def)
  moreover have "p \<in> paths_of v slug all"
    if "p \<in> paths_of (prune_view slug F ids v) slug (all - {i \<in> ids. \<exists>e. v slug i = Some e \<and> removable F e})" for p
    using that by (auto simp: paths_of_def prune_view_def split: if_splits)
  moreover have "paths_of v slug (ids \<union> extra) \<subseteq> paths_of v slug all" using assms by (auto simp: paths_of_def)
  moreover have "\<exists>i e. i \<in> all \<and> v slug i = Some e \<and> r_file_path e = Some p" if "p \<in> paths_of v slug all" for p
    using that by (auto simp: paths_of_def)
  ultimately show ?thesis by blast
qed

lemma retention_until_effect:
  assumes "db_inv (host_codec H) (ls_db s)" "storage_episodes (host_codec H) slug (ls_db s) = Inr records"
  shows "\<exists>ids extra. let t = retention_until H slug policy k s; v = view (host_codec H) (ls_db s) in
    ids \<subseteq> set (doomed_ids policy records) \<and> extra \<subseteq> set (doomed_ids policy records) \<and> (\<exists>i. extra \<subseteq> {i}) \<and>
    db_inv (host_codec H) (ls_db t) \<and> show_rows (ls_db t) = show_rows (ls_db s) \<and>
    view (host_codec H) (ls_db t) = prune_view slug (ls_fs s) ids v \<and>
    ls_fs t = remove_files (paths_of v slug (ids \<union> extra)) (ls_fs s)"
proof -
  let ?doomed = "doomed_ids policy records"
  note doomed = doomed_cached [OF assms, where policy = policy]
  have inv: "db_inv (host_codec H) (ls_db (tick s))" using assms(1) by simp
  have all: "\<forall>i \<in> set ?doomed. \<exists>e. view (host_codec H) (ls_db (tick s)) slug i = Some e \<and> r_state e = Cached \<and>
      List.find (\<lambda>ep. r_id ep = i) records = Some e"
    using doomed(2) by simp
  from prune_until_effect [OF inv doomed(1) all, of k] obtain j t extra where
    t: "prune_until slug records ?doomed k (tick s) = t" "db_inv (host_codec H) (ls_db t)"
    "show_rows (ls_db t) = show_rows (ls_db s)"
    "view (host_codec H) (ls_db t) = prune_view slug (ls_fs s) (set (take j ?doomed)) (view (host_codec H) (ls_db s))"
    "ls_fs t = remove_files (paths_of (view (host_codec H) (ls_db s)) slug (set (take j ?doomed) \<union> extra)) (ls_fs s)"
    "extra = {} \<or> (\<exists>i \<in> set (drop j ?doomed). extra = {i})" by auto
  have "retention_until H slug policy k s = t"
    using t(1) by (simp add: retention_until_def assms(2) doomed_ids_def)
  with t set_take_subset [of j ?doomed] set_drop_subset [of j ?doomed] show ?thesis
    by (intro exI [of _ "set (take j ?doomed)"] exI [of _ extra]) (auto simp: Let_def)
qed

lemma retention_resumes:
  assumes "db_inv (host_codec H) (ls_db s)" "apply_retention H slug policy s = (Inr n, s')"
    "t = retention_until H slug policy k s"
  shows "\<exists>n' t'. apply_retention H slug policy t = (Inr n', t') \<and>
    view (host_codec H) (ls_db t') = view (host_codec H) (ls_db s') \<and> ls_fs t' = ls_fs s'"
proof -
  let ?X = "host_codec H" and ?v = "view (host_codec H) (ls_db s)"
  obtain records where rec: "storage_episodes ?X slug (ls_db s) = Inr records"
    using storage_episodes_total [OF assms(1)] by blast
  let ?all = "set (doomed_ids policy records)"
  have s': "view ?X (ls_db s') = prune_view slug (ls_fs s) ?all ?v"
    "ls_fs s' = remove_files (paths_of ?v slug ?all) (ls_fs s)"
    using apply_retention_effect [OF assms(1) rec, of policy] assms(2) by auto
  from retention_until_effect [OF assms(1) rec, of policy k] obtain ids extra where
    sub: "ids \<subseteq> ?all" "extra \<subseteq> ?all" and t: "db_inv ?X (ls_db t)" "view ?X (ls_db t) = prune_view slug (ls_fs s) ids ?v"
    "ls_fs t = remove_files (paths_of ?v slug (ids \<union> extra)) (ls_fs s)"
    unfolding assms(3) Let_def by blast
  obtain records' where rec': "storage_episodes ?X slug (ls_db t) = Inr records'"
    using storage_episodes_total [OF t(1)] by blast
  note rest = doomed_after_prune [OF assms(1) rec t(1) rec' t(2) sub(1)]
  obtain n' t' where t': "apply_retention H slug policy t = (Inr n', t')"
    "view ?X (ls_db t') = prune_view slug (ls_fs t) (set (doomed_ids policy records')) (view ?X (ls_db t))"
    "ls_fs t' = remove_files (paths_of (view ?X (ls_db t)) slug (set (doomed_ids policy records'))) (ls_fs t)"
    using apply_retention_effect [OF t(1) rec', of policy] by auto
  have "prune_view slug (ls_fs t) = prune_view slug (ls_fs s)" by (simp add: t(3))
  then have "view ?X (ls_db t') = view ?X (ls_db s')"
    using prune_view_rest [OF sub(1)] by (simp only: t'(2) rest t(2) s'(1))
  moreover have "ls_fs t' = ls_fs s'"
    unfolding t'(3) t(3) s'(2) remove_files_Un rest t(2) using paths_of_rest [OF sub] by metis
  ultimately show ?thesis using t'(1) by blast
qed

text \<open>At most the file of one record is gone.\<close>

lemma check_removed:
  assumes "disk_quiet F" "check_file H F e = None"
  shows "check_file H (remove_files ps F) e \<in> {None, Some Missing}"
proof (cases "r_file_path e")
  case (Some p)
  show ?thesis
  proof (cases "p \<in> ps \<and> fs_remove_error F p = None")
    case True
    with Some assms(1) show ?thesis
      by (simp add: check_file_def fs_metadata_len_def disk_quiet_def remove_files_def)
  next
    case False
    then have "check_file H (remove_files ps F) e = check_file H F e"
      by (intro check_file_cong) (use assms(1) Some in \<open>auto simp: remove_files_def disk_quiet_def\<close>)
    with assms(2) show ?thesis by simp
  qed
qed (simp add: check_file_def)

lemma retention_until_sound:
  assumes "names_apart I" "media_sound H L I {} s"
  shows "let t = retention_until H slug policy k s in
    db_inv (host_codec H) (ls_db t) \<and>
    (\<exists>i. \<forall>sl j e. view (host_codec H) (ls_db t) sl j = Some e \<longrightarrow> r_state e = Cached \<longrightarrow>
       check_file H (ls_fs t) e = None \<or> sl = slug \<and> j = i \<and> check_file H (ls_fs t) e = Some Missing)"
proof -
  let ?X = "host_codec H" and ?v = "view (host_codec H) (ls_db s)"
  note inv = soundD [OF assms(2)]
  obtain records where rec: "storage_episodes ?X slug (ls_db s) = Inr records"
    using storage_episodes_total [OF inv(1)] by blast
  note cached = doomed_cached(2) [OF inv(1) rec, where policy = policy]
  define t where "t = retention_until H slug policy k s"
  from retention_until_effect [OF inv(1) rec, of policy k] obtain ids extra i where
    sub: "ids \<subseteq> set (doomed_ids policy records)" "extra \<subseteq> set (doomed_ids policy records)" "extra \<subseteq> {i}"
    and t: "db_inv ?X (ls_db t)" "show_rows (ls_db t) = show_rows (ls_db s)"
    "view ?X (ls_db t) = prune_view slug (ls_fs s) ids ?v"
    "ls_fs t = remove_files (paths_of ?v slug (ids \<union> extra)) (ls_fs s)"
    unfolding t_def Let_def by blast
  let ?F = "remove_files (paths_of ?v slug ids) (ls_fs s)"
  let ?s1 = "s\<lparr>ls_db := ls_db t, ls_fs := ?F\<rparr>"
  have s1: "media_sound H L I {} ?s1"
    using sub(1) cached by (intro sound_prune_view [OF assms, of ids slug]) (auto simp: t)
  have F: "ls_fs t = remove_files (paths_of ?v slug extra) ?F"
    unfolding t(4) remove_files_Un by (rule arg_cong [of _ _ "\<lambda>ps. remove_files ps _"]) (auto simp: paths_of_def)
  have quiet: "disk_quiet ?F" using inv(2) by simp
  have "check_file H (ls_fs t) e = None \<or> sl = slug \<and> j = i \<and> check_file H (ls_fs t) e = Some Missing"
    if e: "view ?X (ls_db t) sl j = Some e" "r_state e = Cached" for sl j e
  proof -
    have ok: "check_file H ?F e = None"
      using soundD(4) [OF s1, of sl j e] e by (simp add: record_sound_def)
    show ?thesis
    proof (cases "sl = slug \<and> j = i")
      case True
      with check_removed [OF quiet ok] show ?thesis by (auto simp: F)
    next
      case False
      have "p \<notin> paths_of ?v slug extra" if p: "r_file_path e = Some p" for p
      proof
        assume "p \<in> paths_of ?v slug extra"
        with sub(3) obtain e0 where e0: "i \<in> extra" "?v slug i = Some e0" "r_file_path e0 = Some p"
          by (auto simp: paths_of_def)
        with sub(2) cached [of i] have "r_state e0 = Cached" by auto
        with inv(4) [OF e0(2)] e0(3) obtain source where "p = media_path (host_url H) L slug i source" "i \<in> I"
          by (auto simp: record_sound_def)
        with sound_places_apart [OF s1 assms(1) _ view_valid_slug [OF inv(1) e0(2)], of i sl j e] e p False
        show False by auto
      qed
      then have "check_file H (ls_fs t) e = check_file H ?F e"
        unfolding F by (intro check_file_cong) (use quiet in simp_all, simp_all add: remove_files_def)
      with ok show ?thesis by simp
    qed
  qed
  with t(1) show ?thesis unfolding t_def [symmetric] Let_def by blast
qed

section \<open>Properties of a killed retention pass\<close>

text \<open>
  C21: A kill during retention is made good by the next pass.  A file is deleted before its
  record is marked, so after a kill at any point one cached episode of the show, at most, is
  without its file, which is all a verification finds; the next retention pass ends in exactly
  the records and files that the one that was killed would have left.
\<close>

theorem killed_retention_resumes:
  assumes "host_ok H" "replies_bounded H" "names_apart I" "\<forall>c \<in> set before. call_ok I (lib_data_dir L) c"
    "ls_db s0 = empty_db" "disk_quiet (ls_fs s0)" "s = fold (perform_call H) before s0"
    "apply_retention H slug policy s = (Inr n, s')"
  shows "let t = retention_until H slug policy k s in
    (\<exists>i. \<forall>sl. \<exists>rep u. verify H L sl False t = (Inr rep, t\<lparr>ls_tick := u\<rparr>) \<and>
       (\<forall>out \<in> set (vr_problems rep). sl = slug \<and> vo_id out = i \<and> vo_problem out = Missing)) \<and>
    (\<exists>n' t'. apply_retention H slug policy t = (Inr n', t') \<and>
       view (host_codec H) (ls_db t') = view (host_codec H) (ls_db s') \<and> ls_fs t' = ls_fs s')"
proof -
  have s: "media_sound H L I {} s"
    using sound_calls [OF assms(1-4) sound_empty [OF assms(5,6)]] assms(7) by simp
  define t where "t = retention_until H slug policy k s"
  from retention_until_sound [OF assms(3) s, of slug policy k] obtain i where
    t: "db_inv (host_codec H) (ls_db t)" and i: "\<And>sl j e. view (host_codec H) (ls_db t) sl j = Some e \<Longrightarrow> r_state e = Cached \<Longrightarrow>
      check_file H (ls_fs t) e = None \<or> sl = slug \<and> j = i \<and> check_file H (ls_fs t) e = Some Missing"
    unfolding t_def Let_def by blast
  have "\<exists>rep u. verify H L sl False t = (Inr rep, t\<lparr>ls_tick := u\<rparr>) \<and>
      (\<forall>out \<in> set (vr_problems rep). sl = slug \<and> vo_id out = i \<and> vo_problem out = Missing)" for sl
  proof -
    obtain rep u where v: "verify H L sl False t = (Inr rep, t\<lparr>ls_tick := u\<rparr>)"
      "\<And>out. out \<in> set (vr_problems rep) \<Longrightarrow>
         \<exists>e p. view (host_codec H) (ls_db t) sl (r_id e) = Some e \<and> r_state e = Cached \<and>
           check_file H (ls_fs t) e = Some p \<and> out = \<lparr>vo_id = r_id e, vo_problem = p, vo_fixed = False\<rparr>"
      using verify_plain [OF assms(1) t, where slug = sl and L = L] by blast
    have "sl = slug \<and> vo_id out = i \<and> vo_problem out = Missing" if "out \<in> set (vr_problems rep)" for out
      using v(2) [OF that] i by fastforce
    with v(1) show ?thesis by blast
  qed
  with retention_resumes [OF soundD(1) [OF s] assms(8), of t k] show ?thesis
    unfolding t_def [symmetric] Let_def by blast
qed

theorem killed_retention_resumes_witness:
  "\<exists>s n s'. s = perform_call demo_host (CallSync (catalogue_library [''161'', ''162'']) demo_slug)
      \<lparr>ls_db = empty_db, ls_fs = demo_fs, ls_events = [], ls_tick = 0\<rparr> \<and>
    apply_retention demo_host demo_slug \<lparr>ret_keep_last = Some 0, ret_max_gb = None\<rparr> s = (Inr n, s') \<and>
    (\<exists>n' t'. apply_retention demo_host demo_slug \<lparr>ret_keep_last = Some 0, ret_max_gb = None\<rparr>
         (retention_until demo_host demo_slug \<lparr>ret_keep_last = Some 0, ret_max_gb = None\<rparr> 1 s) = (Inr n', t') \<and>
       view demo_codec (ls_db t') = view demo_codec (ls_db s') \<and> ls_fs t' = ls_fs s')"
proof -
  let ?L = "catalogue_library [''161'', ''162'']" and ?policy = "\<lparr>ret_keep_last = Some 0, ret_max_gb = None\<rparr>"
  let ?s0 = "\<lparr>ls_db = empty_db, ls_fs = demo_fs, ls_events = [], ls_tick = 0\<rparr>"
  let ?s = "fold (perform_call demo_host) [CallSync ?L demo_slug] ?s0"
  have calls: "\<forall>c \<in> set [CallSync ?L demo_slug]. call_ok (EpisodeId ` set [''161'', ''162'']) (lib_data_dir ?L) c"
    using catalogue_usable [of "[''161'', ''162'']"] demo_slug_valid by (simp add: catalogue_library_def demo_library_def)
  have "media_sound demo_host ?L (EpisodeId ` set [''161'', ''162'']) {} ?s"
    by (rule sound_calls [OF demo_host_ok demo_replies_bounded demo_names_apart calls sound_empty])
      (simp_all add: demo_disk_quiet)
  note inv = soundD(1) [OF this]
  obtain records where "storage_episodes (host_codec demo_host) demo_slug (ls_db ?s) = Inr records"
    using storage_episodes_total [OF inv] by blast
  from apply_retention_effect [OF inv this, of ?policy] obtain n s' where
    run: "apply_retention demo_host demo_slug ?policy ?s = (Inr n, s')" by blast
  from killed_retention_resumes [OF demo_host_ok demo_replies_bounded demo_names_apart calls _ _ refl run, where k = 1]
    demo_disk_quiet
  obtain n' t' where "apply_retention demo_host demo_slug ?policy (retention_until demo_host demo_slug ?policy 1 ?s) = (Inr n', t')"
    "view demo_codec (ls_db t') = view demo_codec (ls_db s')" "ls_fs t' = ls_fs s'"
    by (auto simp: Let_def)
  with run show ?thesis by (intro exI [of _ ?s] exI [of _ n] exI [of _ s']) simp
qed

end
