(* ===== verification/Transfers.thy ===== *)
theory Transfers
  imports Prelude
begin

text \<open>
  The limits on concurrent downloads: the permits of a \<open>Downloader\<close> (\<open>core/src/download.rs\<close>), the
  width of a sync's \<open>buffer_unordered\<close>, and which downloaders the libraries of successive reloads
  share (\<open>splicefeed/src/lib.rs\<close>).  Only the numbers matter here; what a download does is in
  theory \<open>Interleaving\<close>.
\<close>

section \<open>State\<close>

text \<open>A downloader with its semaphore; \<open>Clone\<close> shares it, so a library has the index of its downloader.\<close>

record downloader =
  dn_limit :: nat
  dn_free :: nat

definition new_downloader :: "nat \<Rightarrow> downloader" where
  "new_downloader concurrency = \<lparr>dn_limit = concurrency, dn_free = concurrency\<rparr>"

text \<open>
  A download that was polled at least once: on its way to \<open>fetch\<close> or waiting for the permit, or
  holding it (also while it waits to retry).
\<close>

datatype slot = Preparing | Transferring

text \<open>The downloads of one sync: those not polled yet, and those in the buffer.\<close>

record batch =
  ba_downloader :: nat
  ba_width :: nat
  ba_queue :: nat
  ba_slots :: "slot list"

record pool =
  po_downloaders :: "downloader list"
  po_published :: nat
  po_batches :: "batch list"

definition open_pool :: "nat \<Rightarrow> pool" where
  "open_pool concurrency = \<lparr>po_downloaders = [new_downloader concurrency], po_published = 0, po_batches = []\<rparr>"

text \<open>\<open>Library::reload\<close> keeps the downloader unless the limit changed.\<close>

definition reload_pool :: "nat \<Rightarrow> pool \<Rightarrow> pool" where
  "reload_pool concurrency p =
     (if concurrency = dn_limit (po_downloaders p ! po_published p) then p
      else p\<lparr>po_downloaders := po_downloaders p @ [new_downloader concurrency],
             po_published := length (po_downloaders p)\<rparr>)"

text \<open>
  A sync starts its downloads, \<open>n\<close> of them, with the library it was given, which need not be the
  published one.  The width is that library's \<open>download_concurrency\<close>.
\<close>

definition start_batch :: "nat \<Rightarrow> nat \<Rightarrow> pool \<Rightarrow> pool" where
  "start_batch k n p =
     p\<lparr>po_batches := po_batches p @
        [\<lparr>ba_downloader = k, ba_width = dn_limit (po_downloaders p ! k), ba_queue = n, ba_slots = []\<rparr>]\<rparr>"

definition set_batch :: "nat \<Rightarrow> batch \<Rightarrow> pool \<Rightarrow> pool" where
  "set_batch i b p = p\<lparr>po_batches := (po_batches p)[i := b]\<rparr>"

definition set_free :: "nat \<Rightarrow> nat \<Rightarrow> pool \<Rightarrow> pool" where
  "set_free k n p = p\<lparr>po_downloaders := (po_downloaders p)[k := (po_downloaders p ! k)\<lparr>dn_free := n\<rparr>]\<rparr>"

definition without :: "nat \<Rightarrow> 'a list \<Rightarrow> 'a list" where
  "without j xs = take j xs @ drop (Suc j) xs"

section \<open>Steps\<close>

text \<open>
  What the downloads do: the buffer takes another one while it has room; a download that was
  refused before its transfer ends; \<open>acquire\<close> takes a permit, which is dropped when \<open>fetch\<close>
  returns.
\<close>

inductive download_step :: "pool \<Rightarrow> pool \<Rightarrow> bool" where
  Poll: "i < length (po_batches p) \<Longrightarrow> b = po_batches p ! i \<Longrightarrow> ba_queue b = Suc n \<Longrightarrow>
    length (ba_slots b) < ba_width b \<Longrightarrow>
    download_step p (set_batch i (b\<lparr>ba_queue := n, ba_slots := ba_slots b @ [Preparing]\<rparr>) p)"
| Refuse: "i < length (po_batches p) \<Longrightarrow> b = po_batches p ! i \<Longrightarrow> j < length (ba_slots b) \<Longrightarrow>
    ba_slots b ! j = Preparing \<Longrightarrow>
    download_step p (set_batch i (b\<lparr>ba_slots := without j (ba_slots b)\<rparr>) p)"
| Acquire: "i < length (po_batches p) \<Longrightarrow> b = po_batches p ! i \<Longrightarrow> j < length (ba_slots b) \<Longrightarrow>
    ba_slots b ! j = Preparing \<Longrightarrow> k = ba_downloader b \<Longrightarrow> dn_free (po_downloaders p ! k) = Suc n \<Longrightarrow>
    download_step p (set_batch i (b\<lparr>ba_slots := (ba_slots b)[j := Transferring]\<rparr>) (set_free k n p))"
| Release: "i < length (po_batches p) \<Longrightarrow> b = po_batches p ! i \<Longrightarrow> j < length (ba_slots b) \<Longrightarrow>
    ba_slots b ! j = Transferring \<Longrightarrow> k = ba_downloader b \<Longrightarrow>
    download_step p (set_batch i (b\<lparr>ba_slots := without j (ba_slots b)\<rparr>)
      (set_free k (Suc (dn_free (po_downloaders p ! k))) p))"

text \<open>All steps: also reloads and new syncs, with any library that was ever published.\<close>

inductive pool_step :: "pool \<Rightarrow> pool \<Rightarrow> bool" where
  Download: "download_step p p' \<Longrightarrow> pool_step p p'"
| Reload: "0 < concurrency \<Longrightarrow> pool_step p (reload_pool concurrency p)"
| Start: "k < length (po_downloaders p) \<Longrightarrow> pool_step p (start_batch k n p)"

inductive_cases download_step_cases: "download_step p p'"
inductive_cases pool_step_cases: "pool_step p p'"

section \<open>The invariant\<close>

definition in_transfer :: "slot list \<Rightarrow> nat" where
  "in_transfer ss = length (filter (\<lambda>s. s = Transferring) ss)"

definition transfers :: "nat \<Rightarrow> pool \<Rightarrow> nat" where
  "transfers k p = sum_list (map (\<lambda>b. if ba_downloader b = k then in_transfer (ba_slots b) else 0) (po_batches p))"

definition batch_ok :: "downloader list \<Rightarrow> batch \<Rightarrow> bool" where
  "batch_ok ds b \<longleftrightarrow> ba_downloader b < length ds \<and> ba_width b = dn_limit (ds ! ba_downloader b) \<and>
     length (ba_slots b) \<le> ba_width b"

definition pool_inv :: "pool \<Rightarrow> bool" where
  "pool_inv p \<longleftrightarrow>
     po_published p < length (po_downloaders p) \<and>
     (\<forall>k < length (po_downloaders p). 0 < dn_limit (po_downloaders p ! k) \<and>
        dn_free (po_downloaders p ! k) + transfers k p = dn_limit (po_downloaders p ! k)) \<and>
     (\<forall>b \<in> set (po_batches p). batch_ok (po_downloaders p) b)"

lemma in_transfer_simps [simp]:
  "in_transfer [] = 0" "in_transfer (ss @ ts) = in_transfer ss + in_transfer ts"
  "in_transfer (s # ss) = (if s = Transferring then Suc (in_transfer ss) else in_transfer ss)"
  by (simp_all add: in_transfer_def)

lemma at_slot: "j < length ss \<Longrightarrow> ss = take j ss @ ss ! j # drop (Suc j) ss"
  by (simp add: id_take_nth_drop)

lemma in_transfer_without:
  assumes "j < length ss"
  shows "in_transfer ss = in_transfer (without j ss) + (if ss ! j = Transferring then 1 else 0)"
  by (subst at_slot [OF assms]) (simp add: without_def)

lemma in_transfer_update:
  assumes "j < length ss" "ss ! j = Preparing"
  shows "in_transfer (ss[j := Transferring]) = Suc (in_transfer ss)"
  using in_transfer_without [OF assms(1)] assms
  by (simp add: upd_conv_take_nth_drop without_def)

lemma length_without [simp]: "j < length xs \<Longrightarrow> length (without j xs) = length xs - 1"
  by (auto simp: without_def)

lemma sum_list_set: "i < length xs \<Longrightarrow> sum_list (map f (xs[i := x])) + f (xs ! i) = sum_list (map f xs) + (f x :: nat)"
  by (induction xs arbitrary: i) (auto split: nat.split)

lemma transfers_set_batch:
  assumes "i < length (po_batches p)" "ba_downloader b = ba_downloader (po_batches p ! i)"
  shows "transfers k (set_batch i b p) + (if ba_downloader b = k then in_transfer (ba_slots (po_batches p ! i)) else 0) =
    transfers k p + (if ba_downloader b = k then in_transfer (ba_slots b) else 0)"
  using sum_list_set [OF assms(1), of "\<lambda>b. if ba_downloader b = k then in_transfer (ba_slots b) else 0" b] assms(2)
  by (simp add: transfers_def set_batch_def split: if_splits)

lemma transfers_set_free [simp]: "transfers k (set_free l n p) = transfers k p"
  by (simp add: transfers_def set_free_def)

lemma set_batch_simps [simp]:
  "po_downloaders (set_batch i b p) = po_downloaders p" "po_published (set_batch i b p) = po_published p"
  "po_batches (set_batch i b p) = (po_batches p)[i := b]"
  by (simp_all add: set_batch_def)

lemma set_free_simps [simp]:
  "po_batches (set_free k n p) = po_batches p" "po_published (set_free k n p) = po_published p"
  "length (po_downloaders (set_free k n p)) = length (po_downloaders p)"
  by (simp_all add: set_free_def)

lemma set_free_limit [simp]: "l < length (po_downloaders p) \<Longrightarrow>
    dn_limit (po_downloaders (set_free k n p) ! l) = dn_limit (po_downloaders p ! l)"
  by (cases "k = l") (simp_all add: set_free_def)

lemma set_free_free [simp]: "l < length (po_downloaders p) \<Longrightarrow>
    dn_free (po_downloaders (set_free k n p) ! l) = (if l = k then n else dn_free (po_downloaders p ! l))"
  by (cases "k = l") (simp_all add: set_free_def)

lemma pool_inv_batch:
  assumes "pool_inv p" "i < length (po_batches p)"
  shows "batch_ok (po_downloaders p) (po_batches p ! i)"
  using assms by (simp add: pool_inv_def)

lemma batch_ok_set_free [simp]:
  "batch_ok (po_downloaders (set_free k n p)) b = batch_ok (po_downloaders p) b"
  by (auto simp: batch_ok_def)

text \<open>Changing one batch and, accordingly, the permits of its downloader keeps the invariant.\<close>

lemma set_batch_inv:
  assumes "pool_inv p" "i < length (po_batches p)" "batch_ok (po_downloaders p) b"
    "ba_downloader b = ba_downloader (po_batches p ! i)" "in_transfer (ba_slots b) = in_transfer (ba_slots (po_batches p ! i))"
  shows "pool_inv (set_batch i b p)"
proof -
  have "transfers k (set_batch i b p) = transfers k p" for k
    using transfers_set_batch [OF assms(2,4), of k] assms(5) by (simp split: if_splits)
  with assms(1,3) show ?thesis
    by (auto simp: pool_inv_def dest!: subsetD [OF set_update_subset_insert])
qed

lemma set_both_inv:
  assumes "pool_inv p" "i < length (po_batches p)" "batch_ok (po_downloaders p) b"
    "ba_downloader b = ba_downloader (po_batches p ! i)" "k = ba_downloader b"
    "n + in_transfer (ba_slots b) = dn_free (po_downloaders p ! k) + in_transfer (ba_slots (po_batches p ! i))"
  shows "pool_inv (set_batch i b (set_free k n p))"
proof -
  have i: "i < length (po_batches (set_free k n p))" "ba_downloader b = ba_downloader (po_batches (set_free k n p) ! i)"
    using assms(2,4) by simp_all
  note t = transfers_set_batch [OF i]
  have "dn_free (po_downloaders (set_free k n p) ! l) + transfers l (set_batch i b (set_free k n p)) =
      dn_free (po_downloaders p ! l) + transfers l p" if "l < length (po_downloaders p)" for l
    using t [of l] assms(5,6) that by (auto split: if_splits)
  with assms(1,3) show ?thesis
    by (auto simp: pool_inv_def dest!: subsetD [OF set_update_subset_insert])
qed

lemma download_step_inv:
  assumes "download_step p p'" "pool_inv p"
  shows "pool_inv p'"
  using assms(1)
proof cases
  case (Poll i b n)
  with assms(2) pool_inv_batch [OF assms(2), of i] show ?thesis
    by (auto simp: batch_ok_def intro!: set_batch_inv)
next
  case (Refuse i b j)
  with assms(2) pool_inv_batch [OF assms(2), of i] in_transfer_without [of j "ba_slots b"] show ?thesis
    by (auto simp: batch_ok_def intro!: set_batch_inv)
next
  case (Acquire i b j k n)
  with assms(2) pool_inv_batch [OF assms(2), of i] in_transfer_update [of j "ba_slots b"] show ?thesis
    by (auto simp: batch_ok_def intro!: set_both_inv)
next
  case (Release i b j k)
  with assms(2) pool_inv_batch [OF assms(2), of i] in_transfer_without [of j "ba_slots b"] show ?thesis
    by (auto simp: batch_ok_def intro!: set_both_inv)
qed

lemma transfers_reload [simp]: "transfers k (reload_pool n p) = transfers k p"
  by (simp add: transfers_def reload_pool_def)

lemma transfers_start [simp]: "transfers k (start_batch l n p) = transfers k p"
  by (simp add: transfers_def start_batch_def)

lemma transfers_unused: "\<forall>b \<in> set (po_batches p). ba_downloader b \<noteq> k \<Longrightarrow> transfers k p = 0"
  by (simp add: transfers_def sum_list_eq_0_iff)

lemma transfers_other [simp]: "transfers k (p\<lparr>po_downloaders := ds, po_published := l\<rparr>) = transfers k p"
  by (simp add: transfers_def)

lemma reload_inv:
  assumes "pool_inv p" "0 < n"
  shows "pool_inv (reload_pool n p)"
proof (cases "n = dn_limit (po_downloaders p ! po_published p)")
  case False
  let ?k = "length (po_downloaders p)"
  have "\<forall>b \<in> set (po_batches p). ba_downloader b < ?k" using assms(1) by (auto simp: pool_inv_def batch_ok_def)
  then have "transfers ?k p = 0" by (intro transfers_unused) auto
  with assms False show ?thesis
    by (auto simp: pool_inv_def reload_pool_def batch_ok_def new_downloader_def nth_append less_Suc_eq)
qed (use assms in \<open>simp add: reload_pool_def\<close>)

lemma start_batch_inv: "pool_inv p \<Longrightarrow> k < length (po_downloaders p) \<Longrightarrow> pool_inv (start_batch k n p)"
  by (auto simp: pool_inv_def) (auto simp: start_batch_def batch_ok_def)

lemma pool_step_inv: "pool_step p p' \<Longrightarrow> pool_inv p \<Longrightarrow> pool_inv p'"
  by (erule pool_step_cases) (auto intro: download_step_inv reload_inv start_batch_inv)

lemma open_inv: "0 < n \<Longrightarrow> pool_inv (open_pool n)"
  by (simp add: pool_inv_def open_pool_def new_downloader_def transfers_def)

lemma pool_runs_inv: "pool_step\<^sup>*\<^sup>* (open_pool n) p \<Longrightarrow> 0 < n \<Longrightarrow> pool_inv p"
  by (induction rule: rtranclp_induct) (auto intro: open_inv pool_step_inv)

section \<open>All downloads end\<close>

fun slot_weight :: "slot \<Rightarrow> nat" where
  "slot_weight Preparing = 2"
| "slot_weight Transferring = 1"

definition batch_weight :: "batch \<Rightarrow> nat" where
  "batch_weight b = 3 * ba_queue b + sum_list (map slot_weight (ba_slots b))"

definition weight :: "pool \<Rightarrow> nat" where
  "weight p = sum_list (map batch_weight (po_batches p))"

lemma weight_set_free [simp]: "weight (set_free k n p) = weight p"
  by (simp add: weight_def)

lemma weight_set_batch:
  "i < length (po_batches p) \<Longrightarrow> batch_weight b < batch_weight (po_batches p ! i) \<Longrightarrow> weight (set_batch i b p) < weight p"
  using sum_list_set [of i "po_batches p" batch_weight b] by (simp add: weight_def)

lemma weight_without:
  assumes "j < length ss"
  shows "sum_list (map slot_weight (without j ss)) < sum_list (map slot_weight ss)"
proof -
  have "0 < slot_weight (ss ! j)" by (cases "ss ! j") simp_all
  then show ?thesis using assms by (subst (2) at_slot [OF assms]) (simp add: without_def)
qed

lemma download_step_weight:
  assumes "download_step p p'"
  shows "weight p' < weight p"
  using assms
proof cases
  case (Poll i b n)
  then show ?thesis by (auto intro!: weight_set_batch simp: batch_weight_def)
next
  case (Refuse i b j)
  then show ?thesis by (auto intro!: weight_set_batch simp: batch_weight_def weight_without)
next
  case (Acquire i b j k n)
  with sum_list_set [of j "ba_slots b" slot_weight Transferring]
  have "batch_weight (b\<lparr>ba_slots := (ba_slots b)[j := Transferring]\<rparr>) < batch_weight (po_batches p ! i)"
    by (simp add: batch_weight_def)
  with weight_set_batch [of i "set_free k n p"] Acquire(1,2) show ?thesis by simp
next
  case (Release i b j k)
  then have "batch_weight (b\<lparr>ba_slots := without j (ba_slots b)\<rparr>) < batch_weight (po_batches p ! i)"
    using weight_without [of j "ba_slots b"] by (simp add: batch_weight_def)
  with weight_set_batch [of i "set_free k (Suc (dn_free (po_downloaders p ! k))) p"] Release(1,2)
  show ?thesis by simp
qed

interpretation downloading: settling_system download_step pool_inv "measure weight"
  by unfold_locales (auto intro: download_step_inv download_step_weight)

text \<open>A batch with something left can always move: into the buffer, to a permit, or out.\<close>

lemma rest_is_empty:
  assumes "pool_inv p" "downloading.at_rest p" "b \<in> set (po_batches p)"
  shows "ba_queue b = 0 \<and> ba_slots b = []"
proof -
  from assms(3) obtain i where i: "i < length (po_batches p)" "b = po_batches p ! i" by (auto simp: in_set_conv_nth)
  have none: "\<not> download_step p q" for q using assms(2) by (simp add: downloading.at_rest_def)
  have slots: "ba_slots b = []"
  proof (rule ccontr)
    assume "ba_slots b \<noteq> []"
    then have j: "0 < length (ba_slots b)" by simp
    show False
    proof (cases "ba_slots b ! 0")
      case Preparing
      with none Refuse [OF i j] show False by blast
    next
      case Transferring
      with none Release [OF i j _ refl] show False by blast
    qed
  qed
  have "batch_ok (po_downloaders p) b" using assms(1,3) by (simp add: pool_inv_def)
  then have "0 < ba_width b" using assms(1) by (auto simp: pool_inv_def batch_ok_def)
  with slots none Poll [OF i] show ?thesis by (cases "ba_queue b") auto
qed

section \<open>Properties\<close>

text \<open>Transfers in progress, over all syncs.\<close>

definition all_transfers :: "pool \<Rightarrow> nat" where
  "all_transfers p = sum_list (map (\<lambda>b. in_transfer (ba_slots b)) (po_batches p))"

lemma transfers_sum:
  assumes "\<forall>b \<in> set bs. ba_downloader b < n"
  shows "(\<Sum>k<n. sum_list (map (\<lambda>b. if ba_downloader b = k then in_transfer (ba_slots b) else 0) bs)) =
    sum_list (map (\<lambda>b. in_transfer (ba_slots b)) bs)"
  using assms by (induction bs) (simp_all add: sum.distrib)

lemma all_transfers_le:
  assumes "pool_inv p"
  shows "all_transfers p \<le> (\<Sum>k<length (po_downloaders p). dn_limit (po_downloaders p ! k))"
proof -
  have "\<forall>b \<in> set (po_batches p). ba_downloader b < length (po_downloaders p)"
    using assms by (simp add: pool_inv_def batch_ok_def)
  from transfers_sum [OF this] have "all_transfers p = (\<Sum>k<length (po_downloaders p). transfers k p)"
    by (simp add: all_transfers_def transfers_def)
  also have "\<dots> \<le> (\<Sum>k<length (po_downloaders p). dn_limit (po_downloaders p ! k))"
    using assms by (intro sum_mono) (auto simp: pool_inv_def dest!: spec)
  finally show ?thesis .
qed

lemma first_limit:
  assumes "pool_step\<^sup>*\<^sup>* (open_pool n) p"
  shows "po_downloaders p \<noteq> [] \<and> dn_limit (po_downloaders p ! 0) = n"
  using assms
proof (induction rule: rtranclp_induct)
  case (step p q)
  have keep: "dn_limit (po_downloaders (set_free k m p) ! 0) = dn_limit (po_downloaders p ! 0)" for k m
    using step.IH by simp
  have "po_downloaders (set_free k m p) \<noteq> []" for k m using step.IH by (simp add: set_free_def)
  with step keep show ?case
    by (auto elim!: pool_step_cases download_step_cases simp: reload_pool_def start_batch_def nth_append split: if_splits)
qed (simp add: open_pool_def new_downloader_def)



section \<open>Witnesses\<close>

text \<open>Two downloads of one sync with one permit, the first of them under way.\<close>

definition busy_pool :: pool where
  "busy_pool = \<lparr>po_downloaders = [\<lparr>dn_limit = 1, dn_free = 0\<rparr>], po_published = 0,
     po_batches = [\<lparr>ba_downloader = 0, ba_width = 1, ba_queue = 1, ba_slots = [Transferring]\<rparr>]\<rparr>"

lemma busy_pool_reached: "pool_step\<^sup>*\<^sup>* (open_pool 1) busy_pool"
proof -
  let ?p1 = "start_batch 0 2 (open_pool 1)"
  let ?p2 = "set_batch 0 \<lparr>ba_downloader = 0, ba_width = 1, ba_queue = 1, ba_slots = [Preparing]\<rparr> ?p1"
  have "pool_step (open_pool 1) ?p1" by (rule Start) (simp add: open_pool_def)
  moreover have "pool_step ?p1 ?p2"
    using Download [OF Poll [of 0 ?p1 "po_batches ?p1 ! 0" 1]]
    by (simp add: start_batch_def open_pool_def new_downloader_def)
  moreover have "pool_step ?p2 busy_pool"
    using Download [OF Acquire [of 0 ?p2 "po_batches ?p2 ! 0" 0 0 0]]
    by (simp add: start_batch_def open_pool_def new_downloader_def set_batch_def set_free_def busy_pool_def)
  ultimately show ?thesis by (meson converse_rtranclp_into_rtranclp rtranclp.rtrancl_refl)
qed



end
