(* ===== verification/Report.thy ===== *)
theory Report
  imports Library_Retention
begin

text \<open>
  \<open>crates/daemon/src/report.rs\<close>: the snapshot of the library that the \<open>status\<close> command, the
  \<open>/debug\<close> route and the terminal interface share.  It is read from storage alone.
\<close>

record episode_status =
  es_id :: episode_id
  es_description :: "string option"
  es_state :: episode_state
  es_bytes :: "u64 option"
  es_mime :: "audio_mime option"
  es_duration_secs :: "u32 option"
  es_blake3 :: "string option"
  es_file_path :: "path option"
  es_downloaded_at :: "timestamp option"
  es_bytes_done :: "u64 option"
  es_bytes_total :: "u64 option"
  es_progress_at :: "timestamp option"

text \<open>\<open>ShowStatus\<close>; the control socket has a type of the same name.\<close>

record show_report =
  sh_slug :: show_slug
  sh_title :: string
  sh_provider :: string
  sh_last_poll_at :: "timestamp option"
  sh_last_poll_ok :: "bool option"
  sh_last_error :: "string option"
  sh_cached_bytes :: u64
  sh_episodes :: "episode_status list"

record library_report =
  st_shows :: "show_report list"
  st_configured_never_synced :: "show_slug list"
  st_total_files :: nat
  st_total_bytes :: u64
  st_download_concurrency :: nat
  st_config_source :: "path option"
  st_state_db :: path
  st_data_dir :: path

definition is_cached :: "episode_state \<Rightarrow> bool" where
  "is_cached st \<longleftrightarrow> (case st of Cached \<Rightarrow> True | _ \<Rightarrow> False)"

text \<open>\<open>filter_map(|episode| episode.bytes).sum()\<close> over the cached episodes.\<close>

definition cached_bytes_of :: "episode_record list \<Rightarrow> u64" where
  "cached_bytes_of episodes = sum_list (List.map_filter r_bytes (filter (\<lambda>ep. is_cached (r_state ep)) episodes))"

definition episode_status_of :: "codec \<Rightarrow> episode_record \<Rightarrow> episode_status" where
  "episode_status_of X ep =
     \<lparr>es_id = r_id ep, es_description = r_description ep, es_state = r_state ep, es_bytes = r_bytes ep,
      es_mime = r_mime ep, es_duration_secs = r_duration_secs ep,
      es_blake3 = map_option (hash_to_hex X) (r_blake3 ep), es_file_path = r_file_path ep,
      es_downloaded_at = r_downloaded_at ep, es_bytes_done = r_bytes_done ep,
      es_bytes_total = r_bytes_total ep, es_progress_at = r_progress_at ep\<rparr>"

definition show_report_of :: "codec \<Rightarrow> show_record \<Rightarrow> db \<Rightarrow> 'u library_error + show_report" where
  "show_report_of X sr d =
     bind_res (map_err LibStorage (storage_episodes X (rs_slug sr) d)) (\<lambda>episodes.
     Inr \<lparr>sh_slug = rs_slug sr, sh_title = rs_title sr, sh_provider = rs_provider sr,
          sh_last_poll_at = rs_last_poll_at sr, sh_last_poll_ok = rs_last_poll_ok sr,
          sh_last_error = rs_last_error sr, sh_cached_bytes = cached_bytes_of episodes,
          sh_episodes = map (episode_status_of X) episodes\<rparr>)"

definition status_report :: "codec \<Rightarrow> 'u library \<Rightarrow> db \<Rightarrow> 'u library_error + library_report" where
  "status_report X L d =
     bind_res (map_err LibStorage (storage_shows X d)) (\<lambda>shows_read.
     bind_res (collect_res (map (\<lambda>sr. show_report_of X sr d) shows_read)) (\<lambda>reports.
     Inr \<lparr>st_shows = reports,
          st_configured_never_synced =
            filter (\<lambda>slug. \<not> list_ex (\<lambda>sr. rs_slug sr = slug) shows_read) (map sc_slug (cfg_shows (lib_config L))),
          st_total_files = length (filter (\<lambda>ep. is_cached (es_state ep)) (concat (map sh_episodes reports))),
          st_total_bytes = sum_list (map sh_cached_bytes reports),
          st_download_concurrency = cfg_download_concurrency (lib_config L),
          st_config_source = cfg_source (lib_config L),
          st_state_db = path_join (lib_data_dir L) ''splicefeed.db'',
          st_data_dir = lib_data_dir L\<rparr>))"

section \<open>Facts\<close>

lemma is_cached_iff [simp]: "is_cached st \<longleftrightarrow> st = Cached"
  by (cases st) (simp_all add: is_cached_def)

lemma show_report_total:
  assumes "db_inv X d"
  shows "\<exists>r episodes. (show_report_of X sr d :: 'u library_error + show_report) = Inr r \<and>
    storage_episodes X (rs_slug sr) d = Inr episodes \<and> sh_slug r = rs_slug sr \<and>
    sh_cached_bytes r = cached_bytes_of episodes \<and> sh_episodes r = map (episode_status_of X) episodes"
proof -
  obtain episodes where "storage_episodes X (rs_slug sr) d = Inr episodes"
    using storage_episodes_total [OF assms] by blast
  then show ?thesis by (simp add: show_report_of_def)
qed

lemma status_report_total:
  assumes "db_inv X d"
  shows "\<exists>rep. (status_report X L d :: 'u library_error + library_report) = Inr rep"
proof -
  obtain rs where "storage_shows X d = Inr rs" using storage_shows_total [OF assms] by blast
  moreover obtain reports :: "show_report list" where
    "collect_res (map (\<lambda>sr. show_report_of X sr d :: 'u library_error + show_report) rs) = Inr reports"
    using collect_res_total [of "map (\<lambda>sr. show_report_of X sr d :: 'u library_error + show_report) rs"]
      show_report_total [OF assms] by fastforce
  ultimately show ?thesis by (simp add: status_report_def)
qed

text \<open>Grouping rows by a key and adding up the groups adds up the rows.\<close>

lemma sum_list_groups:
  fixes g :: "'a \<Rightarrow> 'b::comm_monoid_add"
  assumes "distinct ks" "f ` set rows \<subseteq> set ks"
  shows "sum_list (map (\<lambda>k. sum_list (map g (filter (\<lambda>r. f r = k) rows))) ks) = sum_list (map g rows)"
  using assms(2)
proof (induction rows)
  case (Cons r rows)
  have "sum_list (map (\<lambda>k. sum_list (map g (filter (\<lambda>x. f x = k) (r # rows)))) ks) =
      sum_list (map (\<lambda>k. (if f r = k then g r else 0) + sum_list (map g (filter (\<lambda>x. f x = k) rows))) ks)"
    by (rule arg_cong [of _ _ sum_list]) auto
  also have "\<dots> = sum_list (map (\<lambda>k. if f r = k then g r else 0) ks) + sum_list (map g rows)"
    using Cons by (simp add: sum_list_addf)
  also have "sum_list (map (\<lambda>k. if f r = k then g r else 0) ks) = g r"
    using Cons.prems by (simp add: sum_list_distinct_conv_sum_set [OF assms(1)])
  finally show ?case by simp
qed simp

lemma sum_list_mset_cong:
  fixes g :: "'a \<Rightarrow> 'b::comm_monoid_add"
  shows "mset xs = mset ys \<Longrightarrow> sum_list (map g xs) = sum_list (map g ys)"
  by (metis mset_map sum_mset_sum_list)

lemma length_sum_list: "length xs = sum_list (map (\<lambda>x. 1) xs)"
  by (induction xs) simp_all

lemma sum_list_filter: "sum_list (map g (filter P xs)) = sum_list (map (\<lambda>x. if P x then g x else 0) xs)"
  for g :: "'a \<Rightarrow> 'b::monoid_add"
  by (induction xs) auto

lemma unat_sum_list: "unat (sum_list ws :: 'a::len word) = sum_list (map unat ws) mod 2 ^ LENGTH('a)"
  by (induction ws) (simp_all add: unat_word_ariths mod_add_right_eq)

text \<open>One stored row as the report sees it: whether it is cached and how much it weighs.\<close>

definition row_cached :: "episode_row \<Rightarrow> bool" where
  "row_cached r \<longleftrightarrow> e_state r = ''cached''"

definition row_bytes :: "episode_row \<Rightarrow> u64" where
  "row_bytes r = (case e_bytes r of None \<Rightarrow> 0 | Some b \<Rightarrow> u64_of_i64 b)"

lemma row_cached_decode: "decode_episode X r = Inr e \<Longrightarrow> r_state e = Cached \<longleftrightarrow> row_cached r"
  using decode_episode_state [of X r e]
  by (auto simp: row_cached_def row_state_def decode_state_def map_res_Inr_iff
      split: if_splits option.splits sum.splits)

lemma row_bytes_decode: "decode_episode X r = Inr e \<Longrightarrow> row_bytes r = unwrap_or 0 (r_bytes e)"
  by (auto simp: decode_episode_def bind_res_Inr_iff row_bytes_def split: option.splits)

lemma cached_bytes_sum:
  "cached_bytes_of es = sum_list (map (\<lambda>e. if r_state e = Cached then unwrap_or 0 (r_bytes e) else 0) es)"
  by (induction es) (auto simp: cached_bytes_of_def List.map_filter_simps split: option.split)

lemma listed_rows_sum:
  fixes g :: "bool \<Rightarrow> u64 \<Rightarrow> 'b::comm_monoid_add"
  assumes "db_inv X d" "storage_episodes X slug d = Inr es"
  shows "sum_list (map (\<lambda>e. g (r_state e = Cached) (unwrap_or 0 (r_bytes e))) es) =
    sum_list (map (\<lambda>r. g (row_cached r) (row_bytes r)) (filter (\<lambda>r. e_show_slug r = slug_str slug) (episode_rows d)))"
proof -
  have "list_all2 (\<lambda>r e. decode_episode X r = Inr e) (show_episode_rows slug d) es"
    using listed_rows_decode [OF assms] by (auto simp: list_all2_conv_all_nth)
  then have "map (\<lambda>e. g (r_state e = Cached) (unwrap_or 0 (r_bytes e))) es =
      map (\<lambda>r. g (row_cached r) (row_bytes r)) (show_episode_rows slug d)"
  proof (induction rule: list_all2_induct)
    case (Cons r rs e es)
    from Cons.IH row_cached_decode [OF Cons.hyps(1)] row_bytes_decode [OF Cons.hyps(1)] show ?case by simp
  qed simp
  moreover have same: "mset (show_episode_rows slug d) = mset (filter (\<lambda>r. e_show_slug r = slug_str slug) (episode_rows d))"
    by (simp add: show_episode_rows_def)
  ultimately show ?thesis by (simp only: sum_list_mset_cong [OF same])
qed

section \<open>Properties\<close>

lemma listed_shows:
  assumes "db_inv X d" "storage_shows X d = Inr rs"
  shows "map (\<lambda>sr. slug_str (rs_slug sr)) rs = sort (map s_slug (show_rows d))"
proof -
  have "list_all2 (\<lambda>r sr. decode_show X r = Inr sr) (sort_key s_slug (show_rows d)) rs"
    using assms(2) by (simp add: storage_shows_def collect_res_Inr_iff list_all2_map1)
  then have "map (\<lambda>sr. slug_str (rs_slug sr)) rs = map s_slug (sort_key s_slug (show_rows d))"
  proof (induction rule: list_all2_induct)
    case (Cons r rows sr rs)
    from Cons.hyps(1) have "slug_str (rs_slug sr) = s_slug r"
      by (auto simp: decode_show_def bind_res_Inr_iff parse_col_Inr_iff parse_show_slug_Inr_iff)
    with Cons.IH show ?case by simp
  qed simp
  also have "\<dots> = sort (map s_slug (show_rows d))"
    by (rule properties_for_sort [symmetric]) simp_all
  finally show ?thesis .
qed

lemma collect_reports:
  assumes "db_inv X d"
    "collect_res (map (\<lambda>sr. show_report_of X sr d :: 'u library_error + show_report) rs) = Inr reports"
  shows "list_all2 (\<lambda>sr r. sh_slug r = rs_slug sr \<and>
    (\<exists>es. storage_episodes X (rs_slug sr) d = Inr es \<and> sh_cached_bytes r = cached_bytes_of es \<and>
      sh_episodes r = map (episode_status_of X) es)) rs reports"
proof -
  have "list_all2 (\<lambda>sr r. (show_report_of X sr d :: 'u library_error + show_report) = Inr r) rs reports"
    using assms(2) by (simp add: collect_res_Inr_iff list_all2_map1)
  then show ?thesis
    by (rule list_all2_mono) (auto simp: show_report_of_def bind_res_Inr_iff)
qed

text \<open>Adding up over the shows of a report adds up over the stored rows.\<close>

lemma reports_sum:
  fixes g :: "bool \<Rightarrow> u64 \<Rightarrow> 'b::comm_monoid_add"
  assumes "db_inv X d" "storage_shows X d = Inr rs"
    "list_all2 (\<lambda>sr r. \<exists>es. storage_episodes X (rs_slug sr) d = Inr es \<and>
       h r = sum_list (map (\<lambda>e. g (r_state e = Cached) (unwrap_or 0 (r_bytes e))) es)) rs reports"
  shows "sum_list (map h reports) = sum_list (map (\<lambda>r. g (row_cached r) (row_bytes r)) (episode_rows d))"
proof -
  let ?group = "\<lambda>k. sum_list (map (\<lambda>r. g (row_cached r) (row_bytes r)) (filter (\<lambda>r. e_show_slug r = k) (episode_rows d)))"
  have "map h reports = map ?group (map (\<lambda>sr. slug_str (rs_slug sr)) rs)"
    using assms(3)
  proof (induction rule: list_all2_induct)
    case (Cons sr rs r reports)
    from Cons.hyps(1) listed_rows_sum [OF assms(1), of "rs_slug sr" _ g] Cons.IH show ?case by auto
  qed simp
  also have "\<dots> = map ?group (sort (map s_slug (show_rows d)))"
    by (simp only: listed_shows [OF assms(1,2)])
  finally show ?thesis
    using sum_list_groups [of "sort (map s_slug (show_rows d))" e_show_slug "episode_rows d"
        "\<lambda>r. g (row_cached r) (row_bytes r)"] assms(1)
    by (simp add: db_inv_def image_subset_iff)
qed

text \<open>
  The status report accounts for the whole database.  It can be assembled from every
  database that has the invariant; its shows are the stored shows ordered by slug; each show
  lists all of its episodes in feed order with their states; the totals are those of the
  cached rows of the whole table, in bytes modulo \<open>2 ^ 64\<close>; and the shows called never synced
  are the configured ones without a row.
\<close>

theorem status_report_accounts:
  fixes L :: "'u library"
  assumes "db_inv X d"
  shows "\<exists>rep. status_report X L d = Inr rep \<and>
    map (\<lambda>r. slug_str (sh_slug r)) (st_shows rep) = sort (map s_slug (show_rows d)) \<and>
    (\<forall>r \<in> set (st_shows rep). \<exists>es. storage_episodes X (sh_slug r) d = Inr es \<and>
       map (\<lambda>e. (es_id e, es_state e)) (sh_episodes r) = map (\<lambda>e. (r_id e, r_state e)) es) \<and>
    st_total_files rep = length (filter row_cached (episode_rows d)) \<and>
    unat (st_total_bytes rep) = sum_list (map (\<lambda>r. unat (row_bytes r)) (filter row_cached (episode_rows d))) mod 2 ^ 64 \<and>
    set (st_configured_never_synced rep) =
      {slug \<in> sc_slug ` set (cfg_shows (lib_config L)). slug_str slug \<notin> s_slug ` set (show_rows d)}"
proof -
  obtain rs where rs: "storage_shows X d = Inr rs" using storage_shows_total [OF assms] by blast
  obtain rep where rep: "status_report X L d = Inr rep" using status_report_total [OF assms] by blast
  then obtain reports where reports:
    "collect_res (map (\<lambda>sr. show_report_of X sr d :: 'u library_error + show_report) rs) = Inr reports"
    "st_shows rep = reports"
    "st_configured_never_synced rep =
      filter (\<lambda>slug. \<not> list_ex (\<lambda>sr. rs_slug sr = slug) rs) (map sc_slug (cfg_shows (lib_config L)))"
    "st_total_files rep = length (filter (\<lambda>ep. is_cached (es_state ep)) (concat (map sh_episodes reports)))"
    "st_total_bytes rep = sum_list (map sh_cached_bytes reports)"
    using rs by (auto simp: status_report_def bind_res_Inr_iff)
  note each = collect_reports [OF assms reports(1)]
  have slugs: "map sh_slug reports = map rs_slug rs"
    using each by (induction rule: list_all2_induct) auto
  have order: "map (\<lambda>r. slug_str (sh_slug r)) reports = sort (map s_slug (show_rows d))"
    using arg_cong [OF slugs, of "map slug_str"] listed_shows [OF assms rs] by (simp add: comp_def)
  have episodes: "\<forall>r \<in> set reports. \<exists>es. storage_episodes X (sh_slug r) d = Inr es \<and>
      map (\<lambda>e. (es_id e, es_state e)) (sh_episodes r) = map (\<lambda>e. (r_id e, r_state e)) es"
    using each by (induction rule: list_all2_induct) (auto simp: episode_status_of_def)
  have bytes: "st_total_bytes rep = sum_list (map row_bytes (filter row_cached (episode_rows d)))"
    unfolding reports(5) sum_list_filter
    by (rule reports_sum [OF assms rs, where g = "\<lambda>c b. if c then b else 0"], rule list_all2_mono [OF each])
      (auto simp: cached_bytes_sum)
  have "st_total_files rep = sum_list (map (\<lambda>r. length (filter (\<lambda>ep. is_cached (es_state ep)) (sh_episodes r))) reports)"
    unfolding reports(4) by (simp add: filter_concat length_concat comp_def)
  also have "\<dots> = sum_list (map (\<lambda>r. if row_cached r then 1 else 0) (episode_rows d))"
    by (rule reports_sum [OF assms rs, where g = "\<lambda>c b. if c then 1 else 0"], rule list_all2_mono [OF each])
      (auto simp: length_sum_list filter_map episode_status_of_def comp_def simp flip: sum_list_filter)
  also have "\<dots> = length (filter row_cached (episode_rows d))"
    unfolding length_sum_list [of "filter row_cached (episode_rows d)"] sum_list_filter ..
  finally have files: "st_total_files rep = length (filter row_cached (episode_rows d))" .
  have "set (map (\<lambda>sr. slug_str (rs_slug sr)) rs) = s_slug ` set (show_rows d)"
    by (simp only: listed_shows [OF assms rs] set_sort set_map)
  then have "list_ex (\<lambda>sr. rs_slug sr = slug) rs \<longleftrightarrow> slug_str slug \<in> s_slug ` set (show_rows d)" for slug
    by (simp add: list_ex_iff image_iff flip: slug_str_inj) (metis (no_types, lifting) image_iff)
  with rep order episodes files show ?thesis
    by (intro exI [of _ rep]) (auto simp: reports(2,3) bytes unat_sum_list comp_def)
qed

theorem status_report_accounts_witness:
  "\<exists>rep. status_report demo_codec demo_library demo_db = Inr rep \<and>
    st_total_files rep = length (filter row_cached (episode_rows demo_db)) \<and>
    length (filter row_cached (episode_rows demo_db)) = 1"
proof -
  have "length (filter row_cached (episode_rows demo_db)) = 1" by (simp add: demo_db_def row_cached_def)
  with status_report_accounts [OF demo_db_inv, of demo_library] show ?thesis by metis
qed

end
