(* ===== verification/Reload.thy ===== *)
theory Reload
  imports Library_Retention
begin

text \<open>
  \<open>crates/daemon/src/ops.rs\<close> and \<open>crates/daemon/src/reload.rs\<close>: polling every configured show
  once, and the reaction to SIGHUP.  The served library lives in a watch channel; \<open>load_file\<close>
  is \<open>Config::load\<close> on the file as it is at that moment and \<open>build\<close> is what
  \<open>Library::reload\<close> takes from outside.
\<close>

section \<open>Polling every show once\<close>

definition join :: "string \<Rightarrow> string list \<Rightarrow> string" where
  "join sep ss = (case ss of [] \<Rightarrow> [] | x # xs \<Rightarrow> x @ concat (map (\<lambda>y. sep @ y) xs))"

fun sync_each :: "'u host \<Rightarrow> 'u library \<Rightarrow> 'u show_config list \<Rightarrow> show_slug list \<Rightarrow> lib_state
    \<Rightarrow> show_slug list \<times> lib_state" where
  "sync_each H L [] failed s = (failed, s)"
| "sync_each H L (sc # rest) failed s =
     (case sync H L (sc_slug sc) s of
        (Inr report, s) \<Rightarrow> sync_each H L rest failed s
      | (Inl err, s) \<Rightarrow> sync_each H L rest (failed @ [sc_slug sc]) s)"

definition sync_all_once :: "'u host \<Rightarrow> 'u library \<Rightarrow> lib_state \<Rightarrow> (string + unit) \<times> lib_state" where
  "sync_all_once H L s =
     (case sync_each H L (cfg_shows (lib_config L)) [] s of
        (failed, s) \<Rightarrow>
          (if failed \<noteq> [] then Inl (''sync failed for '' @ join '', '' (map slug_str failed)) else Inr (), s))"

section \<open>The reload guard\<close>

text \<open>The text of a path that \<open>data_dir()\<close> or \<open>control_socket_path()\<close> returned.\<close>

definition shown_path :: "path option \<Rightarrow> string" where
  "shown_path p = unwrap_or [] p"

definition restart_required :: "string \<Rightarrow> string \<Rightarrow> string \<Rightarrow> string" where
  "restart_required key old new =
     ''`'' @ key @ ''` changed ('' @ old @ '' -> '' @ new @ ''): restart required; reload aborted''"

definition guard :: "env \<Rightarrow> 'u config \<Rightarrow> 'u config \<Rightarrow> string + unit" where
  "guard E old new =
     (if cfg_bind old \<noteq> cfg_bind new then Inl (restart_required ''bind'' (cfg_bind old) (cfg_bind new))
      else if config_data_dir old \<noteq> config_data_dir new
        then Inl (restart_required ''data_dir'' (shown_path (config_data_dir old)) (shown_path (config_data_dir new)))
      else if control_socket_path E old \<noteq> control_socket_path E new
        then Inl (restart_required ''control_socket'' (shown_path (control_socket_path E old))
               (shown_path (control_socket_path E new)))
      else Inr ())"

section \<open>Reloading\<close>

record 'u watch_chan =
  wt_value :: "'u library"
  wt_version :: nat
  wt_receivers :: nat

datatype 'u reload_error =
    ReloadConfig config_error
  | ReloadRefused string
  | ReloadLibrary "'u library_error"
  | DataDirUnset \<comment> \<open>the \<open>unreachable!\<close> of \<open>data_dir()\<close>\<close>
  | NoReceivers

text \<open>\<open>watch::Sender::send\<close> refuses a value nobody would see.\<close>

definition watch_send :: "'u library \<Rightarrow> 'u watch_chan \<Rightarrow> ('u reload_error + unit) \<times> 'u watch_chan" where
  "watch_send L w =
     (if wt_receivers w = 0 then (Inl NoReceivers, w)
      else (Inr (), w\<lparr>wt_value := L, wt_version := Suc (wt_version w)\<rparr>))"

definition apply_reload :: "env \<Rightarrow> 'u backend \<Rightarrow> config_error + 'u config \<Rightarrow> 'u watch_chan
    \<Rightarrow> ('u reload_error + 'u library) \<times> 'u watch_chan" where
  "apply_reload E build loaded_file w =
     (let old = wt_value w in
      case bind_res (map_err ReloadConfig loaded_file) (\<lambda>c.
           bind_res (map_err ReloadRefused (guard E (lib_config old) c)) (\<lambda>_.
           bind_res (ok_or DataDirUnset (config_data_dir c)) (\<lambda>dir.
           map_err ReloadLibrary (reload_library build dir old c)))) of
        Inl e \<Rightarrow> (Inl e, w)
      | Inr L \<Rightarrow>
          (case watch_send L w of
             (Inl e, w) \<Rightarrow> (Inl e, w)
           | (Inr _, w) \<Rightarrow> (Inr L, w)))"

text \<open>One SIGHUP: reload, then poll every show with the new library.\<close>

definition on_hangup :: "'u host \<Rightarrow> env \<Rightarrow> 'u backend \<Rightarrow> config_error + 'u config
    \<Rightarrow> 'u watch_chan \<times> lib_state \<Rightarrow> 'u watch_chan \<times> lib_state" where
  "on_hangup H E build loaded_file ws =
     (case ws of (w, s) \<Rightarrow>
        (case apply_reload E build loaded_file w of
           (Inr L, w) \<Rightarrow> (w, snd (sync_all_once H L s))
         | (Inl e, w) \<Rightarrow> (w, s)))"

text \<open>The signal loop, over what the configuration file read as at each signal.\<close>

fun on_sighup :: "'u host \<Rightarrow> env \<Rightarrow> 'u backend \<Rightarrow> (config_error + 'u config) list
    \<Rightarrow> 'u watch_chan \<times> lib_state \<Rightarrow> 'u watch_chan \<times> lib_state" where
  "on_sighup H E build [] ws = ws"
| "on_sighup H E build (f # fs) ws = on_sighup H E build fs (on_hangup H E build f ws)"

text \<open>
  What a reload logs of the two configurations: how many slugs there are now, and which were
  added and removed, each once and in the order of a \<open>BTreeSet\<close>.
\<close>

definition slug_set :: "'u config \<Rightarrow> string list" where
  "slug_set c = remdups (sort (map (\<lambda>sc. slug_str (sc_slug sc)) (cfg_shows c)))"

definition log_diff :: "'u config \<Rightarrow> 'u config \<Rightarrow> nat \<times> string list \<times> string list" where
  "log_diff old new =
     (let old_shows = slug_set old; new_shows = slug_set new
      in (length new_shows, filter (\<lambda>n. n \<notin> set old_shows) new_shows, filter (\<lambda>n. n \<notin> set new_shows) old_shows))"

lemma set_slug_set: "set (slug_set c) = (\<lambda>sc. slug_str (sc_slug sc)) ` set (cfg_shows c)"
  by (auto simp: slug_set_def)

text \<open>The old shows without the removed ones, and the added ones, are the new shows.\<close>

lemma log_diff_exact:
  assumes "log_diff old new = (n, added, removed)"
  shows "set (slug_set new) = set (slug_set old) - set removed \<union> set added" "set added \<inter> set (slug_set old) = {}"
    "set removed \<subseteq> set (slug_set old)" "n = card (set (slug_set new))" "distinct added" "distinct removed"
    "sorted added" "sorted removed"
proof -
  have "length (slug_set new) = card (set (slug_set new))"
    by (simp add: slug_set_def distinct_card [OF distinct_remdups, symmetric] del: set_remdups)
  with assms show "n = card (set (slug_set new))" by (simp add: log_diff_def Let_def)
  have "sorted (slug_set c)" for c :: "'a config" by (simp add: slug_set_def sorted_remdups)
  with assms show "sorted added" "sorted removed" by (auto simp: log_diff_def Let_def sorted_wrt_filter)
qed (use assms in \<open>auto simp: log_diff_def Let_def slug_set_def\<close>)

section \<open>Facts about polling every show\<close>

definition sync_state :: "'u host \<Rightarrow> 'u library \<Rightarrow> 'u show_config list \<Rightarrow> lib_state \<Rightarrow> lib_state" where
  "sync_state H L scs s = fold (\<lambda>sc s. snd (sync H L (sc_slug sc) s)) scs s"

definition sync_failed :: "'u host \<Rightarrow> 'u library \<Rightarrow> show_slug \<Rightarrow> lib_state \<Rightarrow> bool" where
  "sync_failed H L slug s \<longleftrightarrow> (\<exists>e. fst (sync H L slug s) = Inl e)"

lemma sync_state_simps [simp]:
  "sync_state H L [] s = s"
  "sync_state H L (sc # scs) s = sync_state H L scs (snd (sync H L (sc_slug sc) s))"
  by (simp_all add: sync_state_def)

lemma sync_each_eq:
  "sync_each H L scs failed s =
     (failed @ map (\<lambda>i. sc_slug (scs ! i))
        (filter (\<lambda>i. sync_failed H L (sc_slug (scs ! i)) (sync_state H L (take i scs) s)) [0..<length scs]),
      sync_state H L scs s)"
proof (induction H L scs failed s rule: sync_each.induct)
  case (2 H L sc rest failed s)
  have upt: "[0..<Suc (length rest)] = 0 # map Suc [0..<length rest]"
    by (simp add: map_Suc_upt upt_conv_Cons del: upt_Suc)
  obtain r s1 where r: "sync H L (sc_slug sc) s = (r, s1)" by fastforce
  show ?case
  proof (cases r)
    case (Inl e)
    with 2(1) [of r s1 e] r show ?thesis
      by (simp add: upt filter_map comp_def sync_failed_def del: upt_Suc)
  next
    case (Inr rep)
    with 2(2) [of r s1 rep] r show ?thesis
      by (simp add: upt filter_map comp_def sync_failed_def del: upt_Suc)
  qed
qed simp

text \<open>Polling every show is a history of operations on the configured shows.\<close>

lemma sync_state_kept:
  fixes L :: "'u library"
  assumes "host_ok H" "library_ok L" "\<forall>sc \<in> set scs. valid_slug (sc_slug sc)" "db_inv (host_codec H) (ls_db s)"
  shows "db_inv (host_codec H) (ls_db (sync_state H L scs s)) \<and>
    (\<forall>show i. show \<notin> sc_slug ` set scs \<longrightarrow>
       view (host_codec H) (ls_db (sync_state H L scs s)) show i = view (host_codec H) (ls_db s) show i)"
  using assms(3,4)
proof (induction scs arbitrary: s)
  case (Cons sc scs)
  let ?s = "snd (sync H L (sc_slug sc) s)"
  have codec: "codec_ok (host_codec H)" using assms(1) by (simp add: host_ok_def)
  note step = sync_reaches [OF assms(1,2), of "sc_slug sc" s]
  have "db_inv (host_codec H) (ls_db ?s)"
    using reaches_inv [OF step codec Cons.prems(2)] Cons.prems(1) by simp
  with Cons.IH [of ?s] Cons.prems reaches_other [OF step codec Cons.prems(2)] show ?case by simp
qed simp

lemma sync_all_once_state [simp]: "snd (sync_all_once H L s) = sync_state H L (cfg_shows (lib_config L)) s"
  by (simp add: sync_all_once_def sync_each_eq)

section \<open>Facts about reloading\<close>

lemma guard_Inr_iff:
  "guard E old new = Inr () \<longleftrightarrow>
     cfg_bind old = cfg_bind new \<and> config_data_dir old = config_data_dir new \<and>
     control_socket_path E old = control_socket_path E new"
  by (simp add: guard_def)

lemma reload_library_Inr:
  "reload_library build dir L c = Inr L' \<Longrightarrow> lib_config L' = c \<and> lib_data_dir L' = dir"
  by (auto simp: reload_library_def bind_res_Inr_iff)

lemma apply_reload_Inl: "apply_reload E build f w = (Inl e, w') \<Longrightarrow> w' = w"
  by (auto simp: apply_reload_def watch_send_def Let_def split: sum.splits if_splits)

lemma apply_reload_Inr:
  assumes "apply_reload E build f w = (Inr L, w')"
  shows "\<exists>c dir. f = Inr c \<and> guard E (lib_config (wt_value w)) c = Inr () \<and> config_data_dir c = Some dir \<and>
    reload_library build dir (wt_value w) c = Inr L \<and> wt_value w' = L \<and> wt_version w' = Suc (wt_version w) \<and>
    wt_receivers w' = wt_receivers w"
  using assms
  by (auto simp: apply_reload_def watch_send_def Let_def bind_res_Inr_iff split: sum.splits if_splits)

text \<open>What every library the daemon serves satisfies.\<close>

definition served_ok :: "'u library \<Rightarrow> bool" where
  "served_ok L \<longleftrightarrow> loaded (lib_config L) \<and> config_data_dir (lib_config L) = Some (lib_data_dir L) \<and> library_ok L \<and>
     (\<forall>sc \<in> set (cfg_shows (lib_config L)). valid_slug (sc_slug sc))"

text \<open>The settings bound at startup.\<close>

definition bound_settings :: "env \<Rightarrow> 'u config \<Rightarrow> socket_addr \<times> path option \<times> path option" where
  "bound_settings E c = (cfg_bind c, config_data_dir c, control_socket_path E c)"

definition builds_ok :: "'u backend \<Rightarrow> bool" where
  "builds_ok build \<longleftrightarrow> (\<forall>c dir ps n pv. bk_registry build c dir = Inr ps \<longrightarrow> ps n = Some pv \<longrightarrow> provider_ok pv)"

definition file_ok :: "config_error + 'u config \<Rightarrow> bool" where
  "file_ok f \<longleftrightarrow> (\<forall>c. f = Inr c \<longrightarrow> loaded c \<and> (\<forall>sc \<in> set (cfg_shows c). valid_slug (sc_slug sc)))"

lemma apply_reload_served:
  assumes "served_ok (wt_value w)" "builds_ok build" "file_ok f" "apply_reload E build f w = (Inr L, w')"
  shows "served_ok L \<and> bound_settings E (lib_config L) = bound_settings E (lib_config (wt_value w))"
proof -
  obtain c dir where r: "f = Inr c" "guard E (lib_config (wt_value w)) c = Inr ()" "config_data_dir c = Some dir"
    "reload_library build dir (wt_value w) c = Inr L" using apply_reload_Inr [OF assms(4)] by blast
  have "library_ok L"
    using r(4) assms(2) unfolding library_ok_def builds_ok_def by (auto simp: reload_library_def bind_res_Inr_iff)
  with r reload_library_Inr [OF r(4)] assms(3) show ?thesis
    by (auto simp: served_ok_def bound_settings_def guard_Inr_iff file_ok_def)
qed

text \<open>What a list of SIGHUPs leaves: by induction on the signals.\<close>

lemma on_hangup_cases:
  obtains (failed) "on_hangup H E build f (w, s) = (w, s)"
  | (reloaded) L w' where "apply_reload E build f w = (Inr L, w')" "wt_value w' = L"
      "on_hangup H E build f (w, s) = (w', sync_state H L (cfg_shows (lib_config L)) s)"
proof -
  obtain r w' where r: "apply_reload E build f w = (r, w')" by fastforce
  show ?thesis
  proof (cases r)
    case (Inl e)
    with r apply_reload_Inl [of E build f w e w'] show ?thesis by (intro failed) (simp add: on_hangup_def)
  next
    case (Inr L)
    with r have r': "apply_reload E build f w = (Inr L, w')" by simp
    from apply_reload_Inr [OF r'] have "wt_value w' = L" by blast
    with r' show ?thesis by (rule reloaded) (simp add: on_hangup_def r')
  qed
qed

lemma on_hangup_keeps:
  fixes w :: "'u watch_chan"
  assumes "host_ok H" "builds_ok build" "file_ok f" "served_ok (wt_value w)" "db_inv (host_codec H) (ls_db s)"
    "on_hangup H E build f (w, s) = (w', s')"
  shows "served_ok (wt_value w') \<and> db_inv (host_codec H) (ls_db s') \<and>
    bound_settings E (lib_config (wt_value w')) = bound_settings E (lib_config (wt_value w)) \<and>
    (w' = w \<and> s' = s \<or>
     wt_version w' = Suc (wt_version w) \<and> f = Inr (lib_config (wt_value w')) \<and>
     s' = sync_state H (wt_value w') (cfg_shows (lib_config (wt_value w'))) s)"
proof (cases rule: on_hangup_cases [of H E build f w s])
  case failed
  with assms(4-6) show ?thesis by simp
next
  case (reloaded L w1)
  from reloaded(3) assms(6) have eqs: "w' = w1" "s' = sync_state H L (cfg_shows (lib_config L)) s" by simp_all
  have kept: "served_ok L" "bound_settings E (lib_config L) = bound_settings E (lib_config (wt_value w))"
    using apply_reload_served [OF assms(4,2,3) reloaded(1)] by simp_all
  then have "db_inv (host_codec H) (ls_db s')"
    using sync_state_kept [OF assms(1) _ _ assms(5), of L "cfg_shows (lib_config L)"] by (simp add: eqs served_ok_def)
  moreover from apply_reload_Inr [OF reloaded(1)] reload_library_Inr
  have "f = Inr (lib_config L)" "wt_version w1 = Suc (wt_version w)" by fastforce+
  ultimately show ?thesis using kept reloaded(2) by (simp add: eqs)
qed

section \<open>Properties\<close>

text \<open>
  Polling every show once really polls every show: each configured show is synced exactly
  once, in the order of the configuration and on the state the previous sync left, whether that
  one failed or not.  The result is an error exactly when a sync failed, and names exactly the
  shows whose own turn failed, in order.  Shows outside the configuration keep their records.
\<close>

theorem sync_all_polls_every_show:
  fixes L :: "'u library"
  defines "scs \<equiv> cfg_shows (lib_config L)"
  assumes "host_ok H" "library_ok L" "\<forall>sc \<in> set scs. valid_slug (sc_slug sc)" "db_inv (host_codec H) (ls_db s)"
  shows "snd (sync_all_once H L s) = fold (\<lambda>sc s. snd (sync H L (sc_slug sc) s)) scs s \<and>
    (fst (sync_all_once H L s) = Inr () \<longleftrightarrow>
       (\<forall>i < length scs. \<not> sync_failed H L (sc_slug (scs ! i)) (sync_state H L (take i scs) s))) \<and>
    (\<forall>msg. fst (sync_all_once H L s) = Inl msg \<longrightarrow>
       msg = ''sync failed for '' @ join '', ''
         (map (\<lambda>i. slug_str (sc_slug (scs ! i)))
           (filter (\<lambda>i. sync_failed H L (sc_slug (scs ! i)) (sync_state H L (take i scs) s)) [0..<length scs]))) \<and>
    db_inv (host_codec H) (ls_db (snd (sync_all_once H L s))) \<and>
    (\<forall>show i. show \<notin> sc_slug ` set scs \<longrightarrow>
       view (host_codec H) (ls_db (snd (sync_all_once H L s))) show i = view (host_codec H) (ls_db s) show i)"
  using sync_state_kept [OF assms(2-5)]
  by (auto simp: sync_all_once_def sync_each_eq scs_def sync_state_def [symmetric] filter_empty_conv comp_def)

text \<open>The demo library of the theory above, with the key that its provider needs, and its configuration file.\<close>

definition keyed_library :: "tuple_url library" where
  "keyed_library = demo_library\<lparr>lib_config := (lib_config demo_library)
     \<lparr>cfg_auth_difm := Some \<lparr>auth_listen_key = None, auth_api_key = Some (ApiKey ''k''), auth_base_url = None\<rparr>\<rparr>\<rparr>"

text \<open>The same file with another download concurrency.\<close>

definition edited_config :: "tuple_url config" where
  "edited_config = (lib_config keyed_library)\<lparr>cfg_download_concurrency := 3\<rparr>"

definition keyed_chan :: "tuple_url watch_chan" where
  "keyed_chan = \<lparr>wt_value = keyed_library, wt_version = 0, wt_receivers = 2\<rparr>"

abbreviation keyed_build :: "tuple_url backend" where
  "keyed_build \<equiv> \<lparr>bk_registry = (\<lambda>c dir. Inr (lib_providers keyed_library)), bk_storage = (\<lambda>dir. Inr ()), bk_client = Inr ()\<rparr>"

abbreviation reload_env :: env where
  "reload_env \<equiv> \<lparr>env_config = None, env_listen_key = None, env_api_key = None, env_runtime_dir = Some ''/run/user/1''\<rparr>"

lemma keyed_served: "served_ok (wt_value keyed_chan)"
  using demo_library_ok
  by (simp add: served_ok_def keyed_chan_def keyed_library_def loaded_def validate_def difm_api_key_def
      config_data_dir_def library_ok_def demo_slug_valid demo_library_def)

lemma edited_file_ok: "file_ok (Inr edited_config)"
  by (simp add: file_ok_def edited_config_def keyed_library_def demo_library_def loaded_def validate_def
      difm_api_key_def demo_slug_valid)

lemma keyed_build_ok: "builds_ok keyed_build"
  using demo_library_ok by (simp add: builds_ok_def keyed_library_def library_ok_def)

lemma edited_applied: "\<exists>L w. apply_reload reload_env keyed_build (Inr edited_config) keyed_chan = (Inr L, w)"
  by (simp add: apply_reload_def guard_def edited_config_def keyed_chan_def keyed_library_def demo_library_def
      control_socket_path_def config_data_dir_def reload_library_def watch_send_def path_absolute_def)

theorem sync_all_polls_every_show_witness:
  "db_inv (host_codec demo_host) (ls_db (snd (sync_all_once demo_host demo_library demo_state)))"
proof -
  have "\<forall>sc \<in> set (cfg_shows (lib_config demo_library)). valid_slug (sc_slug sc)"
    by (simp add: demo_library_def demo_slug_valid)
  from sync_all_polls_every_show [OF demo_host_ok demo_library_ok this demo_state_inv] show ?thesis by blast
qed

text \<open>
  C25: SIGHUP cannot break a serving daemon.  Whatever the configuration file holds at each
  signal (unreadable, invalid, or with a setting that needs a restart), the daemon keeps
  serving a library with a valid configuration, with the address, data directory and control
  socket it was started with, and a sound database.  Each signal either changes nothing at all,
  or publishes exactly the configuration the file held and polls every show of it.
\<close>

theorem sighups_keep_serving:
  fixes w :: "'u watch_chan"
  assumes "host_ok H" "builds_ok build" "\<forall>f \<in> set fs. file_ok f" "served_ok (wt_value w)"
    "db_inv (host_codec H) (ls_db s)" "on_sighup H E build fs (w, s) = (w', s')"
  shows "served_ok (wt_value w') \<and> db_inv (host_codec H) (ls_db s') \<and>
    bound_settings E (lib_config (wt_value w')) = bound_settings E (lib_config (wt_value w)) \<and>
    wt_version w \<le> wt_version w' \<and> wt_version w' \<le> wt_version w + length fs \<and>
    (wt_version w' = wt_version w \<longrightarrow> w' = w \<and> s' = s) \<and>
    (wt_version w' \<noteq> wt_version w \<longrightarrow> Inr (lib_config (wt_value w')) \<in> set fs) \<and>
    (\<forall>f. fs = [f] \<longrightarrow> w' \<noteq> w \<longrightarrow> f = Inr (lib_config (wt_value w')) \<and>
       s' = snd (sync_all_once H (wt_value w') s))"
  using assms(3-6)
proof (induction fs arbitrary: w s)
  case (Cons f fs)
  obtain w1 s1 where one: "on_hangup H E build f (w, s) = (w1, s1)" by fastforce
  have f: "file_ok f" "\<forall>f \<in> set fs. file_ok f" using Cons.prems(1) by simp_all
  note k = on_hangup_keeps [OF assms(1,2) f(1) Cons.prems(2,3) one]
  have rest: "on_sighup H E build fs (w1, s1) = (w', s')" using Cons.prems(4) one by simp
  note IH = Cons.IH [OF f(2) _ _ rest]
  from k show ?case
  proof (elim conjE disjE)
    assume "w1 = w" "s1 = s" "served_ok (wt_value w1)"
    with IH Cons.prems(3) rest show ?thesis by (cases fs) auto
  next
    assume h: "served_ok (wt_value w1)" "db_inv (host_codec H) (ls_db s1)" "wt_version w1 = Suc (wt_version w)"
      "bound_settings E (lib_config (wt_value w1)) = bound_settings E (lib_config (wt_value w))"
      "f = Inr (lib_config (wt_value w1))"
      "s1 = sync_state H (wt_value w1) (cfg_shows (lib_config (wt_value w1))) s"
    with IH [OF h(1,2)] rest show ?thesis by (cases fs) auto
  qed
qed simp

theorem sighups_keep_serving_witness:
  "(case on_sighup demo_host reload_env keyed_build [Inl (NotFound ''/c''), Inr edited_config] (keyed_chan, demo_state) of
      (w, s) \<Rightarrow> served_ok (wt_value w) \<and> wt_version w \<le> 2 \<and> bound_settings reload_env (lib_config (wt_value w)) =
        (default_bind, Some ''/data'', Some ''/run/user/1/splicefeed.sock''))"
proof -
  obtain w s where run: "on_sighup demo_host reload_env keyed_build [Inl (NotFound ''/c''), Inr edited_config]
      (keyed_chan, demo_state) = (w, s)" by fastforce
  have "\<forall>f \<in> set [Inl (NotFound ''/c''), Inr edited_config]. file_ok f"
    using edited_file_ok by (simp add: file_ok_def)
  from sighups_keep_serving [OF demo_host_ok keyed_build_ok this keyed_served demo_state_inv run]
  have "served_ok (wt_value w)" "wt_version w \<le> wt_version keyed_chan + 2"
    "bound_settings reload_env (lib_config (wt_value w)) = bound_settings reload_env (lib_config (wt_value keyed_chan))"
    by simp_all
  moreover have "bound_settings reload_env (lib_config (wt_value keyed_chan)) =
      (default_bind, Some ''/data'', Some ''/run/user/1/splicefeed.sock'')"
    by (simp add: bound_settings_def keyed_chan_def keyed_library_def demo_library_def config_data_dir_def
        control_socket_path_def path_absolute_def path_join_def starts_with_def)
  moreover have "wt_version keyed_chan = 0" by (simp add: keyed_chan_def)
  ultimately show ?thesis by (simp add: run del: on_sighup.simps)
qed

end
