(* ===== verification/Scheduler.thy ===== *)
theory Scheduler
  imports Reload
begin

text \<open>
  \<open>crates/daemon/src/scheduler.rs\<close> and the tasks \<open>run\<close> spawns beside it in \<open>main.rs\<close>: one poll loop
  per show behind a one-permit semaphore, the manager that replaces the loops after a reload,
  the initial sync and the SIGHUP loop.  A step of the daemon is one thing one task does between
  two points where it waits; the order of the steps is the interleaving the runtime chose.  A
  sync in progress acts on the database by single storage operations on its show, which is how
  \<open>sync_reaches\<close> describes a whole sync.
\<close>

section \<open>State\<close>

text \<open>
  Where a poll loop waits: for its timer or a new library, for the permit, for its sync; or it
  has left its loop.
\<close>

datatype phase = Sleeping | Waiting | Syncing | Stopped

text \<open>
  The manager waits for a new library (or the end of the channel), then, knowing which of the
  two it saw, for its loops.
\<close>

datatype manager = Watching | Draining bool | Returned

text \<open>
  \<open>dm_seen\<close> is the version of the library \<open>dm_current\<close> that the present loops run with.  A round
  over all shows is the list of those still to sync, the first of them being synced now.
\<close>

record 'u daemon =
  dm_chan :: "'u watch_chan"
  dm_closed :: bool
  dm_seen :: nat
  dm_current :: "'u library"
  dm_loops :: "(show_slug \<times> phase) list"
  dm_permits :: nat
  dm_manager :: manager
  dm_initial :: "show_slug list"
  dm_hangup :: "show_slug list"
  dm_db :: db

definition show_slugs :: "'u library \<Rightarrow> show_slug list" where
  "show_slugs L = map sc_slug (cfg_shows (lib_config L))"

text \<open>The top of the manager's loop: \<open>borrow_and_update\<close>, a fresh semaphore, one loop per show.\<close>

definition start_generation :: "'u daemon \<Rightarrow> 'u daemon" where
  "start_generation w =
     w\<lparr>dm_seen := wt_version (dm_chan w), dm_current := wt_value (dm_chan w), dm_permits := 1,
       dm_loops := map (\<lambda>slug. (slug, Sleeping)) (show_slugs (wt_value (dm_chan w))), dm_manager := Watching\<rparr>"

text \<open>The daemon just after \<open>run\<close> spawned its tasks.\<close>

definition boot :: "'u library \<Rightarrow> nat \<Rightarrow> db \<Rightarrow> 'u daemon" where
  "boot L receivers d =
     start_generation
       \<lparr>dm_chan = \<lparr>wt_value = L, wt_version = 0, wt_receivers = receivers\<rparr>, dm_closed = False, dm_seen = 0,
        dm_current = L, dm_loops = [], dm_permits = 1, dm_manager = Watching, dm_initial = show_slugs L,
        dm_hangup = [], dm_db = d\<rparr>"

text \<open>\<open>changed()\<close> of a receiver that has seen the generation's version returns.\<close>

definition changed :: "'u daemon \<Rightarrow> bool" where
  "changed w \<longleftrightarrow> wt_version (dm_chan w) \<noteq> dm_seen w \<or> dm_closed w"

definition set_phase :: "nat \<Rightarrow> phase \<Rightarrow> 'u daemon \<Rightarrow> 'u daemon" where
  "set_phase i p w = w\<lparr>dm_loops := (dm_loops w)[i := (fst (dm_loops w ! i), p)]\<rparr>"

definition in_phase :: "nat \<Rightarrow> phase \<Rightarrow> 'u daemon \<Rightarrow> bool" where
  "in_phase i p w \<longleftrightarrow> i < length (dm_loops w) \<and> snd (dm_loops w ! i) = p"

definition all_stopped :: "'u daemon \<Rightarrow> bool" where
  "all_stopped w \<longleftrightarrow> list_all (\<lambda>(slug, p). p = Stopped) (dm_loops w)"

text \<open>The shows that are being synced, with multiplicity.\<close>

definition syncing :: "'u daemon \<Rightarrow> show_slug list" where
  "syncing w = take 1 (dm_initial w) @ take 1 (dm_hangup w) @
     map fst (filter (\<lambda>(slug, p). p = Syncing) (dm_loops w))"

section \<open>Steps\<close>

text \<open>What the scheduler does on its own, without a timer firing.\<close>

inductive settle :: "'u daemon \<Rightarrow> 'u daemon \<Rightarrow> bool" where
  Acquire: "in_phase i Waiting w \<Longrightarrow> dm_permits w = Suc n \<Longrightarrow>
    settle w (set_phase i Syncing (w\<lparr>dm_permits := n\<rparr>))"
| Finish: "in_phase i Syncing w \<Longrightarrow> settle w (set_phase i Sleeping (w\<lparr>dm_permits := Suc (dm_permits w)\<rparr>))"
| Stop: "in_phase i Sleeping w \<Longrightarrow> changed w \<Longrightarrow> settle w (set_phase i Stopped w)"
| Notice: "dm_manager w = Watching \<Longrightarrow> changed w \<Longrightarrow>
    settle w (w\<lparr>dm_manager := Draining (wt_version (dm_chan w) = dm_seen w)\<rparr>)"
| Restart: "dm_manager w = Draining False \<Longrightarrow> all_stopped w \<Longrightarrow> settle w (start_generation w)"
| Return: "dm_manager w = Draining True \<Longrightarrow> all_stopped w \<Longrightarrow> settle w (w\<lparr>dm_manager := Returned\<rparr>)"

text \<open>
  Every step of the daemon: also timers, the two rounds over all shows, a storage operation of a
  sync in progress, a SIGHUP whose reload succeeds (a refused one changes nothing), and the end
  of the signal loop, which drops the channel's only sender.
\<close>

inductive daemon_step :: "env \<Rightarrow> 'u backend \<Rightarrow> codec \<Rightarrow> 'u daemon \<Rightarrow> 'u daemon \<Rightarrow> bool"
  for E build X where
  Scheduler: "settle w w' \<Longrightarrow> daemon_step E build X w w'"
| Wake: "in_phase i Sleeping w \<Longrightarrow> daemon_step E build X w (set_phase i Waiting w)"
| InitialNext: "dm_initial w = slug # rest \<Longrightarrow> daemon_step E build X w (w\<lparr>dm_initial := rest\<rparr>)"
| HangupNext: "dm_hangup w = slug # rest \<Longrightarrow> daemon_step E build X w (w\<lparr>dm_hangup := rest\<rparr>)"
| Work: "op_show p = slug \<Longrightarrow> slug \<in> set (syncing w) \<Longrightarrow> admissible (p :: 'u storage_op) \<Longrightarrow>
    daemon_step E build X w (w\<lparr>dm_db := perform X p (dm_db w)\<rparr>)"
| Hangup: "\<not> dm_closed w \<Longrightarrow> dm_hangup w = [] \<Longrightarrow> file_ok f \<Longrightarrow> apply_reload E build f (dm_chan w) = (Inr L, chan) \<Longrightarrow>
    daemon_step E build X w (w\<lparr>dm_chan := chan, dm_hangup := show_slugs L\<rparr>)"
| SignalsEnd: "dm_hangup w = [] \<Longrightarrow> daemon_step E build X w (w\<lparr>dm_closed := True\<rparr>)"

inductive_cases settle_cases: "settle w w'"
inductive_cases daemon_step_cases: "daemon_step E build X w w'"

definition runs :: "env \<Rightarrow> 'u backend \<Rightarrow> codec \<Rightarrow> 'u library \<Rightarrow> nat \<Rightarrow> db \<Rightarrow> 'u daemon \<Rightarrow> bool" where
  "runs E build X L receivers d w \<longleftrightarrow> (daemon_step E build X)\<^sup>*\<^sup>* (boot L receivers d) w"

text \<open>A whole sync of a show that is being synced is a sequence of such steps.\<close>

lemma work_steps:
  fixes w :: "'u daemon"
  assumes "slug \<in> set (syncing w)" "list_all (\<lambda>p :: 'u storage_op. admissible p \<and> within slug ids p) ps"
  shows "(daemon_step E build X)\<^sup>*\<^sup>* w (w\<lparr>dm_db := run_ops X ps (dm_db w)\<rparr>)"
  using assms
proof (induction ps arbitrary: w)
  case (Cons p ps)
  let ?w = "w\<lparr>dm_db := perform X p (dm_db w)\<rparr>"
  have "daemon_step E build X w ?w" using Cons.prems by (intro Work [of p slug]) (simp_all add: within_def)
  moreover have "(daemon_step E build X)\<^sup>*\<^sup>* ?w (?w\<lparr>dm_db := run_ops X ps (dm_db ?w)\<rparr>)"
    using Cons.prems by (intro Cons.IH) (simp_all add: syncing_def)
  ultimately show ?case by (simp add: run_ops_def)
qed (simp add: run_ops_def)

lemma sync_is_work:
  fixes w :: "'u daemon"
  assumes "host_ok H" "library_ok L" "valid_slug slug" "slug \<in> set (syncing w)" "ls_db s = dm_db w"
  shows "(daemon_step E build (host_codec H))\<^sup>*\<^sup>* w (w\<lparr>dm_db := ls_db (snd (sync H (L :: 'u library) slug s))\<rparr>)"
proof -
  from sync_reaches [OF assms(1-3), of s] obtain ps :: "'u storage_op list" where
    "list_all (\<lambda>p. admissible p \<and> within slug UNIV p) ps" "ls_db (snd (sync H L slug s)) = run_ops (host_codec H) ps (dm_db w)"
    by (auto simp: reaches_def assms(5))
  with work_steps [OF assms(4)] show ?thesis by simp
qed

section \<open>The invariant\<close>

definition count_phase :: "phase \<Rightarrow> 'u daemon \<Rightarrow> nat" where
  "count_phase p w = length (filter (\<lambda>(slug, q). q = p) (dm_loops w))"

definition manager_ok :: "'u daemon \<Rightarrow> bool" where
  "manager_ok w \<longleftrightarrow>
     (case dm_manager w of
        Watching \<Rightarrow> True
      | Draining closed \<Rightarrow> (if closed then dm_closed w else wt_version (dm_chan w) \<noteq> dm_seen w)
      | Returned \<Rightarrow> dm_closed w \<and> all_stopped w)"

definition daemon_inv :: "codec \<Rightarrow> 'u daemon \<Rightarrow> bool" where
  "daemon_inv X w \<longleftrightarrow>
     dm_permits w + count_phase Syncing w = 1 \<and>
     map fst (dm_loops w) = show_slugs (dm_current w) \<and>
     dm_seen w \<le> wt_version (dm_chan w) \<and>
     (wt_version (dm_chan w) = dm_seen w \<longrightarrow> dm_current w = wt_value (dm_chan w)) \<and>
     (count_phase Stopped w \<noteq> 0 \<longrightarrow> changed w) \<and>
     manager_ok w \<and> served_ok (dm_current w) \<and> served_ok (wt_value (dm_chan w)) \<and>
     db_inv X (dm_db w)"

lemma count_update:
  assumes "in_phase i p w" "p \<noteq> q"
  shows "count_phase p w = Suc (count_phase p (set_phase i q w))"
    "count_phase q (set_phase i q w) = Suc (count_phase q w)"
    "r \<noteq> p \<Longrightarrow> r \<noteq> q \<Longrightarrow> count_phase r (set_phase i q w) = count_phase r w"
proof -
  have i: "i < length (dm_loops w)" "snd (dm_loops w ! i) = p" using assms(1) by (simp_all add: in_phase_def)
  have split: "dm_loops w = take i (dm_loops w) @ dm_loops w ! i # drop (Suc i) (dm_loops w)"
    using i(1) by (simp add: id_take_nth_drop)
  have "dm_loops (set_phase i q w) =
      take i (dm_loops w) @ (fst (dm_loops w ! i), q) # drop (Suc i) (dm_loops w)"
    using i(1) by (simp add: set_phase_def upd_conv_take_nth_drop)
  then have new: "count_phase r (set_phase i q w) = length (filter (\<lambda>(s, x). x = r) (take i (dm_loops w))) +
      (if q = r then 1 else 0) + length (filter (\<lambda>(s, x). x = r) (drop (Suc i) (dm_loops w)))" for r
    by (simp add: count_phase_def)
  have old: "count_phase r w = length (filter (\<lambda>(s, x). x = r) (take i (dm_loops w))) +
      (if p = r then 1 else 0) + length (filter (\<lambda>(s, x). x = r) (drop (Suc i) (dm_loops w)))" for r
    unfolding count_phase_def by (subst split) (simp add: i(2) split_beta)
  show "count_phase p w = Suc (count_phase p (set_phase i q w))"
    "count_phase q (set_phase i q w) = Suc (count_phase q w)"
    "r \<noteq> p \<Longrightarrow> r \<noteq> q \<Longrightarrow> count_phase r (set_phase i q w) = count_phase r w"
    using assms(2) by (simp_all add: new old)
qed

lemma set_phase_simps [simp]:
  "dm_chan (set_phase i p w) = dm_chan w" "dm_closed (set_phase i p w) = dm_closed w"
  "dm_seen (set_phase i p w) = dm_seen w" "dm_current (set_phase i p w) = dm_current w"
  "dm_permits (set_phase i p w) = dm_permits w" "dm_manager (set_phase i p w) = dm_manager w"
  "dm_initial (set_phase i p w) = dm_initial w" "dm_hangup (set_phase i p w) = dm_hangup w"
  "dm_db (set_phase i p w) = dm_db w" "changed (set_phase i p w) = changed w"
  by (simp_all add: set_phase_def changed_def)

lemma set_phase_slugs [simp]: "map fst (dm_loops (set_phase i p w)) = map fst (dm_loops w)"
  by (cases "i < length (dm_loops w)")
    (simp_all add: set_phase_def map_update list_update_beyond, metis list_update_id nth_map)

lemma stopped_count: "all_stopped w \<Longrightarrow> p \<noteq> Stopped \<Longrightarrow> count_phase p w = 0"
  by (auto simp: all_stopped_def count_phase_def list_all_iff filter_empty_conv)

lemma manager_ok_set_phase:
  assumes "in_phase i p w" "p \<noteq> Stopped" "manager_ok w"
  shows "manager_ok (set_phase i q w)"
proof -
  have "\<not> all_stopped w" using assms(1,2) by (fastforce simp: in_phase_def all_stopped_def list_all_length)
  with assms(3) show ?thesis by (simp add: manager_ok_def split: manager.splits)
qed

lemma permits_irrelevant [simp]:
  "count_phase p (w\<lparr>dm_permits := n\<rparr>) = count_phase p w" "manager_ok (w\<lparr>dm_permits := n\<rparr>) = manager_ok w"
  "in_phase i p (w\<lparr>dm_permits := n\<rparr>) = in_phase i p w" "changed (w\<lparr>dm_permits := n\<rparr>) = changed w"
  "set_phase i p (w\<lparr>dm_permits := n\<rparr>) = (set_phase i p w)\<lparr>dm_permits := n\<rparr>"
  by (simp_all add: count_phase_def manager_ok_def in_phase_def changed_def all_stopped_def set_phase_def
      split: manager.splits)

lemma same_permits [simp]: "(set_phase i p w)\<lparr>dm_permits := dm_permits w\<rparr> = set_phase i p w"
  by (simp add: set_phase_def)

text \<open>Moving one loop to another phase.\<close>

lemma move_inv:
  assumes "in_phase i p w" "p \<noteq> q" "p \<noteq> Stopped" "daemon_inv X w" "q = Stopped \<Longrightarrow> changed w"
    "n + count_phase Syncing (set_phase i q w) = 1"
  shows "daemon_inv X ((set_phase i q w)\<lparr>dm_permits := n\<rparr>)"
proof -
  have "count_phase Stopped (set_phase i q w) \<noteq> 0 \<Longrightarrow> changed w"
    using count_update(3) [OF assms(1,2), of Stopped] assms(3-5) by (cases "q = Stopped") (simp_all add: daemon_inv_def)
  with assms(4,6) manager_ok_set_phase [OF assms(1,3)] show ?thesis by (simp add: daemon_inv_def)
qed

lemma count_start [simp]:
  "count_phase p (start_generation w) = (if p = Sleeping then length (show_slugs (wt_value (dm_chan w))) else 0)"
  by (simp add: count_phase_def start_generation_def filter_map comp_def)

lemma start_inv:
  "served_ok (wt_value (dm_chan w)) \<Longrightarrow> db_inv X (dm_db w) \<Longrightarrow> daemon_inv X (start_generation w)"
  by (simp add: daemon_inv_def manager_ok_def) (simp add: start_generation_def comp_def)

lemma settle_inv:
  assumes "settle w w'" "daemon_inv X w"
  shows "daemon_inv X w'"
  using assms
proof cases
  case (Acquire i n)
  from assms(2) have "dm_permits w + count_phase Syncing w = 1" by (simp add: daemon_inv_def)
  with Acquire count_update(2) [OF Acquire(2), of Syncing] move_inv [OF Acquire(2) _ _ assms(2), of Syncing n]
  show ?thesis by simp
next
  case (Finish i)
  from assms(2) have "dm_permits w + count_phase Syncing w = 1" by (simp add: daemon_inv_def)
  with Finish count_update(1) [OF Finish(2), of Sleeping]
    move_inv [OF Finish(2) _ _ assms(2), of Sleeping "Suc (dm_permits w)"]
  show ?thesis by simp
next
  case (Stop i)
  from assms(2) have "dm_permits w + count_phase Syncing w = 1" by (simp add: daemon_inv_def)
  with Stop count_update(3) [OF Stop(2), of Stopped Syncing]
    move_inv [OF Stop(2) _ _ assms(2), of Stopped "dm_permits w"]
  show ?thesis by simp
next
  case Notice
  with assms(2) show ?thesis
    by (auto simp: daemon_inv_def manager_ok_def changed_def count_phase_def)
next
  case Restart
  with assms(2) show ?thesis by (intro start_inv [of w X, folded Restart(1)]) (simp_all add: daemon_inv_def)
next
  case Return
  with assms(2) show ?thesis
    by (auto simp: daemon_inv_def manager_ok_def changed_def count_phase_def all_stopped_def)
qed

lemma daemon_step_inv:
  fixes w :: "'u daemon"
  assumes "daemon_step E build X w w'" "builds_ok build" "codec_ok X" "daemon_inv X w"
  shows "daemon_inv X w'"
  using assms(1)
proof cases
  case Scheduler
  with assms(4) settle_inv show ?thesis by blast
next
  case (Wake i)
  with assms(4) count_update(3) [OF Wake(2), of Waiting Syncing] move_inv [OF Wake(2) _ _ assms(4), of Waiting "dm_permits w"]
  show ?thesis by (simp add: daemon_inv_def [of X w])
next
  case InitialNext
  with assms(4) show ?thesis
    by (simp add: daemon_inv_def manager_ok_def count_phase_def changed_def all_stopped_def split: manager.splits)
next
  case HangupNext
  with assms(4) show ?thesis
    by (simp add: daemon_inv_def manager_ok_def count_phase_def changed_def all_stopped_def split: manager.splits)
next
  case (Work p slug)
  with assms(3,4) perform_inv [of X "dm_db w" p] show ?thesis
    by (simp add: daemon_inv_def manager_ok_def count_phase_def changed_def all_stopped_def split: manager.splits)
next
  case (Hangup f L chan)
  from apply_reload_Inr [OF Hangup(5)]
  have chan: "wt_value chan = L" "wt_version chan = Suc (wt_version (dm_chan w))" by auto
  have "served_ok L" using apply_reload_served [OF _ assms(2) Hangup(4,5)] assms(4) by (simp add: daemon_inv_def)
  with Hangup assms(4) chan show ?thesis
    by (auto simp: daemon_inv_def manager_ok_def count_phase_def changed_def all_stopped_def split: manager.splits)
next
  case SignalsEnd
  with assms(4) show ?thesis
    by (auto simp: daemon_inv_def manager_ok_def count_phase_def changed_def all_stopped_def split: manager.splits)
qed

lemma runs_inv:
  assumes "runs E build X L receivers d w" "builds_ok build" "codec_ok X" "served_ok L" "db_inv X d"
  shows "daemon_inv X w"
  using assms(1) unfolding runs_def
proof (induction rule: rtranclp_induct)
  case base
  from assms(4,5) show ?case unfolding boot_def by (intro start_inv) simp_all
next
  case (step w w')
  from step.hyps(2) assms(2,3) step.IH show ?case by (rule daemon_step_inv)
qed

section \<open>Termination\<close>

definition phase_weight :: "phase \<Rightarrow> nat" where
  "phase_weight p = (case p of Waiting \<Rightarrow> 3 | Syncing \<Rightarrow> 2 | Sleeping \<Rightarrow> 1 | Stopped \<Rightarrow> 0)"

definition loops_weight :: "'u daemon \<Rightarrow> nat" where
  "loops_weight w = sum_list (map (\<lambda>(slug, p). phase_weight p) (dm_loops w))"

definition manager_weight :: "'u daemon \<Rightarrow> nat" where
  "manager_weight w = (case dm_manager w of Watching \<Rightarrow> 2 | Draining _ \<Rightarrow> 1 | Returned \<Rightarrow> 0)"

definition pending :: "'u daemon \<Rightarrow> nat" where
  "pending w = of_bool (wt_version (dm_chan w) \<noteq> dm_seen w)"

definition settle_order :: "('u daemon \<times> 'u daemon) set" where
  "settle_order = measures [pending, manager_weight, loops_weight]"

lemma loops_weight_set_phase:
  assumes "in_phase i p w" "phase_weight q < phase_weight p"
  shows "loops_weight (set_phase i q w) < loops_weight w"
proof -
  have i: "i < length (dm_loops w)" "snd (dm_loops w ! i) = p" using assms(1) by (simp_all add: in_phase_def)
  have split: "dm_loops w = take i (dm_loops w) @ dm_loops w ! i # drop (Suc i) (dm_loops w)"
    using i(1) by (simp add: id_take_nth_drop)
  have "dm_loops (set_phase i q w) = take i (dm_loops w) @ (fst (dm_loops w ! i), q) # drop (Suc i) (dm_loops w)"
    using i(1) by (simp add: set_phase_def upd_conv_take_nth_drop)
  moreover have "loops_weight w = sum_list (map (\<lambda>(slug, p). phase_weight p) (take i (dm_loops w))) + phase_weight p +
      sum_list (map (\<lambda>(slug, p). phase_weight p) (drop (Suc i) (dm_loops w)))"
    unfolding loops_weight_def by (subst split) (simp add: i(2) split_beta)
  ultimately show ?thesis using assms(2) by (simp add: loops_weight_def)
qed

lemma weights_simps [simp]:
  "loops_weight (w\<lparr>dm_permits := n\<rparr>) = loops_weight w"
  "manager_weight (w\<lparr>dm_permits := n\<rparr>) = manager_weight w" "manager_weight (set_phase i p w) = manager_weight w"
  "pending (w\<lparr>dm_permits := n\<rparr>) = pending w" "pending (set_phase i p w) = pending w"
  by (simp_all add: loops_weight_def manager_weight_def pending_def)

lemma settle_decreases:
  assumes "settle w w'" "daemon_inv X w"
  shows "(w', w) \<in> settle_order"
  using assms(1)
proof cases
  case (Acquire i n)
  with loops_weight_set_phase [OF Acquire(2), of Syncing] show ?thesis
    by (simp add: settle_order_def phase_weight_def)
next
  case (Finish i)
  with loops_weight_set_phase [OF Finish(2), of Sleeping] show ?thesis
    by (simp add: settle_order_def phase_weight_def)
next
  case (Stop i)
  with loops_weight_set_phase [OF Stop(2), of Stopped] show ?thesis
    by (simp add: settle_order_def phase_weight_def)
next
  case Notice
  then show ?thesis by (simp add: settle_order_def pending_def manager_weight_def)
next
  case Restart
  with assms(2) have "pending w = 1" "pending w' = 0"
    by (simp_all add: daemon_inv_def manager_ok_def pending_def start_generation_def)
  then show ?thesis by (simp add: settle_order_def)
next
  case Return
  then show ?thesis by (simp add: settle_order_def pending_def manager_weight_def)
qed

lemma wf_settle_order: "wf settle_order"
  by (simp add: settle_order_def)

text \<open>Where the scheduler can do nothing more on its own.\<close>

definition settled :: "'u daemon \<Rightarrow> bool" where
  "settled w \<longleftrightarrow> (\<forall>w'. \<not> settle w w')"

definition in_effect :: "'u daemon \<Rightarrow> bool" where
  "in_effect w \<longleftrightarrow> dm_manager w = Watching \<and> dm_seen w = wt_version (dm_chan w) \<and> dm_current w = wt_value (dm_chan w) \<and>
     dm_loops w = map (\<lambda>slug. (slug, Sleeping)) (show_slugs (wt_value (dm_chan w)))"

lemma phase_reached: "count_phase p w \<noteq> 0 \<Longrightarrow> \<exists>i. in_phase i p w"
  unfolding count_phase_def in_phase_def length_0_conv filter_empty_conv
  by (force simp: in_set_conv_nth split_beta)

lemma phase_count: "in_phase i p w \<Longrightarrow> count_phase p w \<noteq> 0"
  unfolding count_phase_def in_phase_def length_0_conv filter_empty_conv by (auto simp: split_beta dest: nth_mem)

lemma phases_absent: "(\<And>i. \<not> in_phase i p w) \<Longrightarrow> count_phase p w = 0"
  using phase_reached by blast

lemma settled_means:
  assumes "settled w" "daemon_inv X w"
  shows "if dm_closed w then dm_manager w = Returned \<and> all_stopped w else in_effect w"
proof -
  have no: "\<not> settle w w'" for w' using assms(1) by (simp add: settled_def)
  have syncing: "\<not> in_phase i Syncing w" for i using no settle.Finish by blast
  then have permit: "dm_permits w = Suc 0"
    using phases_absent [of Syncing w] assms(2) by (simp add: daemon_inv_def)
  have waiting: "\<not> in_phase i Waiting w" for i using no settle.Acquire permit by blast
  have sleeping: "\<not> changed w" if "in_phase i Sleeping w" for i using no settle.Stop that by blast
  have stopped: "all_stopped w" if "changed w"
  proof -
    have "snd (dm_loops w ! i) = Stopped" if "i < length (dm_loops w)" for i
      using syncing [of i] waiting [of i] sleeping [of i] \<open>changed w\<close> that
      by (cases "snd (dm_loops w ! i)") (simp_all add: in_phase_def)
    then show ?thesis by (auto simp: all_stopped_def list_all_length split_beta)
  qed
  show ?thesis
  proof (cases "changed w")
    case True
    have "dm_manager w = Returned"
    proof (cases "dm_manager w")
      case Watching
      with no settle.Notice [OF _ True] show ?thesis by blast
    next
      case (Draining closed)
      with no settle.Restart [OF _ stopped [OF True]] settle.Return [OF _ stopped [OF True]] show ?thesis
        by (cases closed) auto
    qed
    with assms(2) show ?thesis by (simp add: daemon_inv_def manager_ok_def)
  next
    case False
    then have same: "wt_version (dm_chan w) = dm_seen w" "\<not> dm_closed w" by (simp_all add: changed_def)
    have "snd (dm_loops w ! i) = Sleeping" if "i < length (dm_loops w)" for i
    proof -
      have "\<not> in_phase i Stopped w"
        using assms(2) False phase_count [of i Stopped w] by (auto simp: daemon_inv_def)
      then show ?thesis using syncing [of i] waiting [of i] that
        by (cases "snd (dm_loops w ! i)") (simp_all add: in_phase_def)
    qed
    then have "dm_loops w = map (\<lambda>slug. (slug, Sleeping)) (map fst (dm_loops w))"
      by (intro nth_equalityI) (simp_all add: prod_eq_iff)
    with same assms(2) show ?thesis
      by (auto simp: in_effect_def daemon_inv_def manager_ok_def split: manager.splits if_splits)
  qed
qed

section \<open>Runs of the scheduler\<close>

lemma settle_chan: "settle w w' \<Longrightarrow> dm_chan w' = dm_chan w \<and> dm_closed w' = dm_closed w \<and> dm_db w' = dm_db w"
  by (erule settle.cases) (simp_all add: start_generation_def)

text \<open>The scheduler comes to rest.\<close>

interpretation scheduler: settling_system settle "daemon_inv X" settle_order for X
  by unfold_locales (auto intro: wf_settle_order settle_inv settle_decreases)

lemma at_rest_settled: "scheduler.at_rest w \<longleftrightarrow> settled w"
  by (simp add: scheduler.at_rest_def settled_def)

lemma settles_keeps:
  assumes "settle\<^sup>*\<^sup>* w w'" "daemon_inv X w"
  shows "daemon_inv X w' \<and> dm_chan w' = dm_chan w \<and> dm_closed w' = dm_closed w \<and> dm_db w' = dm_db w"
  using assms(1)
proof (induction rule: rtranclp_induct)
  case (step u v)
  with settle_chan [OF step.hyps(2)] settle_inv [OF step.hyps(2)] show ?case by simp
qed (simp add: assms(2))

lemma syncing_length: "length (syncing w) \<le> 2 + count_phase Syncing w"
  by (simp add: syncing_def count_phase_def)

section \<open>Properties\<close>


text \<open>
  A reload never aborts a scheduled poll.  Whatever step the daemon takes, a loop that is
  syncing stays where it is, with the library it was started with, until its own sync ends and
  hands back the permit; the loops are replaced only after every one of them has left its loop.
\<close>

lemma reload_never_aborts_poll:
  assumes "daemon_step E build X w w'"
  shows "(in_phase i Syncing w \<longrightarrow>
      in_phase i Syncing w' \<and> dm_current w' = dm_current w \<and> dm_seen w' = dm_seen w \<or>
      w' = set_phase i Sleeping (w\<lparr>dm_permits := Suc (dm_permits w)\<rparr>)) \<and>
    (dm_seen w' \<noteq> dm_seen w \<or> length (dm_loops w') \<noteq> length (dm_loops w) \<longrightarrow>
      all_stopped w \<and> w' = start_generation w)"
  using assms
proof cases
  case Scheduler
  then show ?thesis
    by (cases rule: settle.cases)
      (auto simp: in_phase_def set_phase_def nth_list_update all_stopped_def list_all_length split_beta)
qed (auto simp: in_phase_def set_phase_def nth_list_update)

text \<open>
  Left to itself the scheduler comes to rest.  From every reachable state, without further
  timers, each sequence of its own steps (taking the permit, ending a sync, leaving a loop,
  noticing a change, restarting, returning) is finite.
\<close>

theorem scheduler_settles:
  assumes "runs E build X L receivers d w" "builds_ok build" "codec_ok X" "served_ok L" "db_inv X d"
  shows "(\<exists>w'. settle\<^sup>*\<^sup>* w w' \<and> settled w') \<and> \<not> (\<exists>f. f 0 = w \<and> (\<forall>n. settle (f n) (f (Suc n))))"
proof -
  note inv = runs_inv [OF assms]
  from scheduler.comes_to_rest [OF inv] scheduler.no_endless_run [of X] inv show ?thesis
    unfolding at_rest_settled by blast
qed

text \<open>
  C24: A reload takes effect, and shutdown ends the scheduler.  From every reachable state, each
  way the scheduler can come to rest leaves it watching with one sleeping loop for each show of
  the library published last, or, once the channel is closed, returned with every loop ended.
\<close>

theorem reload_takes_effect:
  assumes "runs E build X L receivers d w" "builds_ok build" "codec_ok X" "served_ok L" "db_inv X d"
    "settle\<^sup>*\<^sup>* w w'" "settled w'"
  shows "if dm_closed w then dm_manager w' = Returned \<and> all_stopped w'
    else dm_manager w' = Watching \<and> dm_current w' = wt_value (dm_chan w) \<and>
      dm_loops w' = map (\<lambda>slug. (slug, Sleeping)) (show_slugs (wt_value (dm_chan w)))"
proof -
  note k = settles_keeps [OF assms(6) runs_inv [OF assms(1-5)]]
  with settled_means [OF assms(7), of X] show ?thesis by (auto simp: in_effect_def split: if_splits)
qed

section \<open>A concrete run\<close>

definition demo_daemon :: "tuple_url daemon" where
  "demo_daemon = boot keyed_library 2 demo_db"

text \<open>The poll loop of the only show has its permit, and then a SIGHUP is answered.\<close>

definition polling_daemon :: "tuple_url daemon" where
  "polling_daemon = (set_phase 0 Syncing (set_phase 0 Waiting demo_daemon))\<lparr>dm_permits := 0\<rparr>"

definition reloaded_chan :: "tuple_url watch_chan" where
  "reloaded_chan = snd (apply_reload reload_env keyed_build (Inr edited_config) keyed_chan)"

definition reloaded_daemon :: "tuple_url daemon" where
  "reloaded_daemon = polling_daemon\<lparr>dm_chan := reloaded_chan, dm_hangup := [demo_slug]\<rparr>"

lemma demo_daemon_simps:
  "dm_loops demo_daemon = [(demo_slug, Sleeping)]" "dm_permits demo_daemon = 1" "dm_chan demo_daemon = keyed_chan"
  "dm_initial demo_daemon = [demo_slug]" "dm_hangup demo_daemon = []" "dm_closed demo_daemon = False"
  "dm_seen demo_daemon = 0"
  by (simp_all add: demo_daemon_def boot_def start_generation_def show_slugs_def keyed_library_def keyed_chan_def
      demo_library_def)

lemma edited_reload:
  "\<exists>L. apply_reload reload_env keyed_build (Inr edited_config) keyed_chan = (Inr L, reloaded_chan) \<and> show_slugs L = [demo_slug]"
proof -
  obtain L w where r: "apply_reload reload_env keyed_build (Inr edited_config) keyed_chan = (Inr L, w)"
    using edited_applied by blast
  from apply_reload_Inr [OF r] reload_library_Inr have "lib_config L = edited_config" by fastforce
  then have "show_slugs L = [demo_slug]"
    by (simp add: show_slugs_def edited_config_def keyed_library_def demo_library_def)
  with r show ?thesis by (simp add: reloaded_chan_def)
qed

lemma polling_run: "runs reload_env keyed_build demo_codec keyed_library 2 demo_db polling_daemon"
proof -
  let ?step = "daemon_step reload_env keyed_build demo_codec" and ?woken = "set_phase 0 Waiting demo_daemon"
  have "?step demo_daemon ?woken" by (rule Wake) (simp add: in_phase_def demo_daemon_simps)
  moreover have "settle ?woken (set_phase 0 Syncing (?woken\<lparr>dm_permits := 0\<rparr>))"
    by (rule Acquire) (simp_all add: in_phase_def set_phase_def demo_daemon_simps)
  then have "?step ?woken polling_daemon" unfolding polling_daemon_def by (intro Scheduler) simp
  ultimately show ?thesis unfolding runs_def demo_daemon_def [symmetric] by simp
qed

lemma reloaded_run: "runs reload_env keyed_build demo_codec keyed_library 2 demo_db reloaded_daemon"
proof -
  obtain L where L: "apply_reload reload_env keyed_build (Inr edited_config) keyed_chan = (Inr L, reloaded_chan)"
    "show_slugs L = [demo_slug]" using edited_reload by blast
  have "daemon_step reload_env keyed_build demo_codec polling_daemon
      (polling_daemon\<lparr>dm_chan := reloaded_chan, dm_hangup := show_slugs L\<rparr>)"
    by (rule Hangup [where f = "Inr edited_config"])
      (simp_all add: polling_daemon_def demo_daemon_simps edited_file_ok L(1))
  with polling_run L(2) show ?thesis by (simp add: runs_def reloaded_daemon_def)
qed

lemma keyed_library_served: "served_ok keyed_library"
  using keyed_served by (simp add: keyed_chan_def)

lemmas demo_run = keyed_build_ok demo_codec_ok keyed_library_served demo_db_inv


theorem scheduler_settles_witness: "\<exists>w'. settle\<^sup>*\<^sup>* reloaded_daemon w' \<and> settled w'"
  using scheduler_settles [OF reloaded_run demo_run] by blast

theorem reload_takes_effect_witness:
  "\<exists>w'. settle\<^sup>*\<^sup>* reloaded_daemon w' \<and> dm_manager w' = Watching \<and> dm_loops w' = [(demo_slug, Sleeping)]"
proof -
  obtain w' where w': "settle\<^sup>*\<^sup>* reloaded_daemon w'" "settled w'"
    using scheduler.comes_to_rest [OF runs_inv [OF reloaded_run demo_run]] unfolding at_rest_settled by blast
  obtain L where L: "apply_reload reload_env keyed_build (Inr edited_config) keyed_chan = (Inr L, reloaded_chan)"
    "show_slugs L = [demo_slug]" using edited_reload by blast
  have "\<not> dm_closed reloaded_daemon" by (simp add: reloaded_daemon_def polling_daemon_def demo_daemon_simps)
  moreover have "show_slugs (wt_value (dm_chan reloaded_daemon)) = [demo_slug]"
    using apply_reload_Inr [OF L(1)] L(2) by (auto simp: reloaded_daemon_def)
  ultimately show ?thesis using reload_takes_effect [OF reloaded_run demo_run w'] w'(1) by auto
qed

text \<open>
  Only the scheduler's own polls are serialized.  The initial round and the round after a
  SIGHUP do not take the permit: a run of three steps reaches a state in which one and the same
  show is synced by the scheduler, by the initial round and by the SIGHUP round at once.
\<close>

lemma rounds_overlap_polls:
  "\<exists>w. runs reload_env keyed_build demo_codec keyed_library 2 demo_db w \<and>
     syncing w = [demo_slug, demo_slug, demo_slug]"
proof -
  have "syncing reloaded_daemon = [demo_slug, demo_slug, demo_slug]"
    by (simp add: syncing_def reloaded_daemon_def polling_daemon_def set_phase_def demo_daemon_simps)
  with reloaded_run show ?thesis by blast
qed

end
