(* ===== verification/Control.thy ===== *)
theory Control
  imports Report Reload Telemetry Float64
begin

text \<open>
  \<open>crates/daemon/src/control.rs\<close>: the control socket.  A connection is a list of the lines its
  client sends, each with the moment at which the daemon answers it: the library published then,
  the database, the data directory and the clock.  JSON belongs to \<open>serde_json\<close>: \<open>parse\<close> reads a
  request or says what is wrong with the line.
\<close>

section \<open>Snapshots\<close>

text \<open>An entry of the data directory: the size its metadata reports, or what \<open>read_dir\<close> lists.\<close>

datatype dir_node = Leaf "u64 option" | SubDir "dir_node list"

text \<open>\<open>walk\<close> of a directory with these entries; an unreadable directory has none.\<close>

fun node_bytes :: "dir_node \<Rightarrow> u64" where
  "node_bytes (Leaf len) = unwrap_or 0 len"
| "node_bytes (SubDir entries) = sum_list (map node_bytes entries)"

definition walk :: "dir_node list \<Rightarrow> u64" where
  "walk entries = sum_list (map node_bytes entries)"

type_synonym instant = nat \<comment> \<open>nanoseconds\<close>

type_synonym rates = "string \<rightharpoonup> u64 \<times> instant"

record 'u moment_of =
  at_library :: "'u library"
  at_db :: db
  at_data :: "dir_node list"
  at_now :: "show_slug \<Rightarrow> episode_id \<Rightarrow> instant"
  at_uptime :: duration
  at_requests :: u64

text \<open>\<open>Duration::as_secs_f64\<close>.\<close>

definition as_secs_f64 :: "duration \<Rightarrow> f64" where
  "as_secs_f64 t =
     f64_add (f64_of_nat (t div 1000000000)) (f64_div (f64_of_nat (t mod 1000000000)) (f64_of_nat 1000000000))"

definition rate_key :: "show_slug \<Rightarrow> episode_id \<Rightarrow> string" where
  "rate_key slug i = slug_str slug @ ''/'' @ id_str i"

definition rate :: "instant \<Rightarrow> show_slug \<Rightarrow> episode_record \<Rightarrow> rates \<Rightarrow> u64 \<times> rates" where
  "rate now slug ep rates =
     (let key = rate_key slug (r_id ep); finished = unwrap_or 0 (r_bytes_done ep) in
      (case rates key of
         Some (before, at) \<Rightarrow>
           if before < finished \<and> at < now
           then f64_as_u64 (f64_div (f64_of_nat (unat (finished - before))) (as_secs_f64 (now - at)))
           else 0
       | None \<Rightarrow> 0,
       rates(key \<mapsto> (finished, now))))"

fun download_statuses :: "(episode_id \<Rightarrow> instant) \<Rightarrow> show_slug \<Rightarrow> episode_record list \<Rightarrow> rates
    \<Rightarrow> download_status list \<times> rates" where
  "download_statuses now slug [] rates = ([], rates)"
| "download_statuses now slug (ep # eps) rates =
     (if r_state ep = Downloading then
        (case rate (now (r_id ep)) slug ep rates of
           (speed, rates) \<Rightarrow>
             (case download_statuses now slug eps rates of
                (ds, rates) \<Rightarrow>
                  (\<lparr>ds_show = slug, ds_episode = r_id ep, ds_bytes_done = unwrap_or 0 (r_bytes_done ep),
                    ds_bytes_total = r_bytes_total ep, ds_bytes_per_sec = speed\<rparr> # ds, rates)))
      else download_statuses now slug eps rates)"

text \<open>\<open>as_second\<close> is \<open>jiff\<close>'s whole seconds since the epoch.\<close>

definition show_status_of :: "(timestamp \<Rightarrow> int) \<Rightarrow> show_record \<Rightarrow> episode_record list \<Rightarrow> show_status" where
  "show_status_of as_second sr episodes =
     (let cached = filter (\<lambda>ep. is_cached (r_state ep)) episodes in
      \<lparr>ss_slug = rs_slug sr, ss_provider = rs_provider sr, ss_last_poll_at = map_option as_second (rs_last_poll_at sr),
       ss_last_poll_ok = rs_last_poll_ok sr, ss_next_poll_at = None, ss_episodes_cached = of_nat (length cached),
       ss_cache_bytes = sum_list (List.map_filter r_bytes cached), ss_last_error = rs_last_error sr\<rparr>)"

fun snapshot_shows :: "codec \<Rightarrow> (timestamp \<Rightarrow> int) \<Rightarrow> (show_slug \<Rightarrow> episode_id \<Rightarrow> instant) \<Rightarrow> db \<Rightarrow> show_record list \<Rightarrow> rates
    \<Rightarrow> ('u library_error + show_status list \<times> download_status list) \<times> rates" where
  "snapshot_shows X as_second now d [] rates = (Inr ([], []), rates)"
| "snapshot_shows X as_second now d (sr # srs) rates =
     (case storage_episodes X (rs_slug sr) d of
        Inl err \<Rightarrow> (Inl (LibStorage err), rates)
      | Inr episodes \<Rightarrow>
          (case download_statuses (now (rs_slug sr)) (rs_slug sr) episodes rates of
             (ds, rates) \<Rightarrow>
               (case snapshot_shows X as_second now d srs rates of
                  (Inl err, rates) \<Rightarrow> (Inl err, rates)
                | (Inr (shows_rest, ds_rest), rates) \<Rightarrow>
                    (Inr (show_status_of as_second sr episodes # shows_rest, ds @ ds_rest), rates))))"

definition snapshot_of :: "codec \<Rightarrow> (timestamp \<Rightarrow> int) \<Rightarrow> 'u moment_of \<Rightarrow> rates \<Rightarrow> ('u library_error + snapshot) \<times> rates" where
  "snapshot_of X as_second mo rates =
     (case storage_shows X (at_db mo) of
        Inl err \<Rightarrow> (Inl (LibStorage err), rates)
      | Inr records \<Rightarrow>
          (case snapshot_shows X as_second (at_now mo) (at_db mo) records rates of
             (Inl err, rates) \<Rightarrow> (Inl err, rates)
           | (Inr (sts, active), rates) \<Rightarrow>
               (Inr \<lparr>sn_uptime_secs = of_nat (at_uptime mo div 1000000000), sn_shows = sts, sn_downloads = active,
                     sn_data_dir_bytes = walk (at_data mo), sn_http_requests = at_requests mo\<rparr>, rates)))"

section \<open>A connection\<close>

datatype message = MsgHello hello | MsgResponse response | MsgEvent known_event

text \<open>
  The client's end: what was sent, and after how many more messages a write fails.  Requests of
  a newer client do not parse: the request type has only the two kinds.
\<close>

record client =
  cl_sent :: "message list"
  cl_room :: "nat option"

definition send :: "message \<Rightarrow> client \<Rightarrow> (string + unit) \<times> client" where
  "send msg c =
     (case cl_room c of
        None \<Rightarrow> (Inr (), c\<lparr>cl_sent := cl_sent c @ [msg]\<rparr>)
      | Some 0 \<Rightarrow> (Inl ''broken pipe'', c)
      | Some (Suc n) \<Rightarrow> (Inr (), c\<lparr>cl_sent := cl_sent c @ [msg], cl_room := Some n\<rparr>))"

definition snapshot_response :: "('u library_error \<Rightarrow> string) \<Rightarrow> 'u library_error + snapshot \<Rightarrow> response" where
  "snapshot_response err_text r = (case r of Inr sn \<Rightarrow> RespSnapshot sn | Inl err \<Rightarrow> RespError (err_text err))"

text \<open>\<open>stream_events\<close>, over what the subscription delivers; at the end of the list it is still waiting.\<close>

fun stream_events :: "received list \<Rightarrow> client \<Rightarrow> (string + unit) \<times> client" where
  "stream_events [] c = (Inr (), c)"
| "stream_events (Delivered e # rs) c =
     (case send (MsgEvent e) c of
        (Inl err, c) \<Rightarrow> (Inl err, c)
      | (Inr _, c) \<Rightarrow> stream_events rs c)"
| "stream_events (Lagged missed # rs) c = stream_events rs c"
| "stream_events (ChannelClosed # rs) c = (Inr (), c)"

text \<open>\<open>line.trim().is_empty()\<close>: only Unicode white space, on the bytes of its UTF-8 form.\<close>

definition white_ascii :: "nat \<Rightarrow> bool" where
  "white_ascii b \<longleftrightarrow> b = 32 \<or> 9 \<le> b \<and> b \<le> 13"

definition white_three :: "nat \<Rightarrow> nat \<Rightarrow> nat \<Rightarrow> bool" where
  "white_three a b c \<longleftrightarrow>
     a = 225 \<and> b = 154 \<and> c = 128 \<or>
     a = 226 \<and> b = 128 \<and> (128 \<le> c \<and> c \<le> 138 \<or> c = 168 \<or> c = 169 \<or> c = 175) \<or>
     a = 226 \<and> b = 129 \<and> c = 159 \<or> a = 227 \<and> b = 128 \<and> c = 128"

fun blank_bytes :: "nat list \<Rightarrow> bool" where
  "blank_bytes [] = True"
| "blank_bytes [a] = white_ascii a"
| "blank_bytes [a, b] = (white_ascii a \<and> white_ascii b \<or> a = 194 \<and> (b = 133 \<or> b = 160))"
| "blank_bytes (a # b # c # rest) =
     (if white_ascii a then blank_bytes (b # c # rest)
      else if a = 194 \<and> (b = 133 \<or> b = 160) then blank_bytes (c # rest)
      else white_three a b c \<and> blank_bytes rest)"

definition blank :: "string \<Rightarrow> bool" where
  "blank line = blank_bytes (map char_code line)"

datatype line_read = Line string | ReadError string

fun talk_loop :: "codec \<Rightarrow> (timestamp \<Rightarrow> int) \<Rightarrow> ('u library_error \<Rightarrow> string) \<Rightarrow> (string \<Rightarrow> string + request)
    \<Rightarrow> received list \<Rightarrow> (line_read \<times> 'u moment_of) list \<Rightarrow> client \<times> rates \<Rightarrow> (string + unit) \<times> client \<times> rates" where
  "talk_loop X as_second err_text parse events [] (c, rates) = (Inr (), c, rates)"
| "talk_loop X as_second err_text parse events ((ReadError err, mo) # rest) (c, rates) = (Inl err, c, rates)"
| "talk_loop X as_second err_text parse events ((Line line, mo) # rest) (c, rates) =
     (if blank line then talk_loop X as_second err_text parse events rest (c, rates)
      else
        (case parse line of
           Inr RequestSnapshot \<Rightarrow>
             (case snapshot_of X as_second mo rates of
                (r, rates) \<Rightarrow>
                  (case send (MsgResponse (snapshot_response err_text r)) c of
                     (Inl err, c) \<Rightarrow> (Inl err, c, rates)
                   | (Inr _, c) \<Rightarrow> talk_loop X as_second err_text parse events rest (c, rates)))
         | Inr RequestSubscribe \<Rightarrow>
             (case snapshot_of X as_second mo rates of
                (r, rates) \<Rightarrow>
                  (case send (MsgResponse (snapshot_response err_text r)) c of
                     (Inl err, c) \<Rightarrow> (Inl err, c, rates)
                   | (Inr _, c) \<Rightarrow> (case stream_events events c of (r, c) \<Rightarrow> (r, c, rates))))
         | Inl err \<Rightarrow>
             (case send (MsgResponse (RespError (''unparseable request: '' @ err))) c of
                (Inl err, c) \<Rightarrow> (Inl err, c, rates)
              | (Inr _, c) \<Rightarrow> talk_loop X as_second err_text parse events rest (c, rates))))"

text \<open>\<open>version\<close> is the crate's version.\<close>

definition talk :: "codec \<Rightarrow> (timestamp \<Rightarrow> int) \<Rightarrow> ('u library_error \<Rightarrow> string) \<Rightarrow> (string \<Rightarrow> string + request) \<Rightarrow> string
    \<Rightarrow> received list \<Rightarrow> (line_read \<times> 'u moment_of) list \<Rightarrow> client \<times> rates \<Rightarrow> (string + unit) \<times> client \<times> rates" where
  "talk X as_second err_text parse version events inputs cr =
     (case send (MsgHello \<lparr>he_protocol_version = protocol_version, he_daemon_version = version\<rparr>) (fst cr) of
        (Inl err, c) \<Rightarrow> (Inl err, c, snd cr)
      | (Inr _, c) \<Rightarrow> talk_loop X as_second err_text parse events inputs (c, snd cr))"

section \<open>Facts about snapshots\<close>

definition shown_download :: "download_status \<Rightarrow> show_slug \<times> episode_id \<times> u64 \<times> u64 option" where
  "shown_download ds = (ds_show ds, ds_episode ds, ds_bytes_done ds, ds_bytes_total ds)"

definition seen_keys :: "download_status list \<Rightarrow> string set" where
  "seen_keys ds = (\<lambda>d. rate_key (ds_show d) (ds_episode d)) ` set ds"

lemma seen_keys_simps [simp]:
  "seen_keys [] = {}" "seen_keys (d # ds) = insert (rate_key (ds_show d) (ds_episode d)) (seen_keys ds)"
  "seen_keys (ds @ es) = seen_keys ds \<union> seen_keys es"
  by (auto simp: seen_keys_def)

lemma download_statuses_eq:
  "map shown_download (fst (download_statuses now slug eps rates)) =
     map (\<lambda>ep. (slug, r_id ep, unwrap_or 0 (r_bytes_done ep), r_bytes_total ep))
       (filter (\<lambda>ep. r_state ep = Downloading) eps)"
proof (induction eps arbitrary: rates)
  case (Cons ep eps)
  obtain speed rates1 where "rate (now (r_id ep)) slug ep rates = (speed, rates1)" by fastforce
  with Cons.IH [of rates] Cons.IH [of rates1] show ?case by (simp add: shown_download_def split_beta)
qed simp

lemma download_statuses_dom:
  "dom (snd (download_statuses now slug eps rates)) = dom rates \<union> seen_keys (fst (download_statuses now slug eps rates))"
proof (induction eps arbitrary: rates)
  case (Cons ep eps)
  obtain speed rates1 where r: "rate (now (r_id ep)) slug ep rates = (speed, rates1)" by fastforce
  then have "dom rates1 = insert (rate_key slug (r_id ep)) (dom rates)" by (auto simp: rate_def Let_def)
  with Cons.IH [of rates] Cons.IH [of rates1] r show ?case by (simp add: split_beta Un_commute)
qed simp

text \<open>The same fields in an entry of the status report.\<close>

definition report_downloads :: "show_report \<Rightarrow> (show_slug \<times> episode_id \<times> u64 \<times> u64 option) list" where
  "report_downloads r =
     map (\<lambda>e. (sh_slug r, es_id e, unwrap_or 0 (es_bytes_done e), es_bytes_total e))
       (filter (\<lambda>e. es_state e = Downloading) (sh_episodes r))"

definition agrees :: "show_status \<Rightarrow> show_report \<Rightarrow> bool" where
  "agrees s r \<longleftrightarrow> ss_slug s = sh_slug r \<and> ss_provider s = sh_provider r \<and> ss_last_poll_ok s = sh_last_poll_ok r \<and>
     ss_last_error s = sh_last_error r \<and> ss_cache_bytes s = sh_cached_bytes r \<and>
     ss_episodes_cached s = of_nat (length (filter (\<lambda>e. es_state e = Cached) (sh_episodes r)))"

lemma show_status_agrees:
  assumes "(show_report_of X sr d :: 'u library_error + show_report) = Inr r" "storage_episodes X (rs_slug sr) d = Inr eps"
  shows "agrees (show_status_of as_second sr eps) r"
  using assms
  by (auto simp: show_report_of_def show_status_of_def Let_def agrees_def cached_bytes_of_def episode_status_of_def
      filter_map comp_def)

lemma report_downloads_eq:
  assumes "(show_report_of X sr d :: 'u library_error + show_report) = Inr r" "storage_episodes X (rs_slug sr) d = Inr eps"
  shows "report_downloads r = map (\<lambda>ep. (rs_slug sr, r_id ep, unwrap_or 0 (r_bytes_done ep), r_bytes_total ep))
    (filter (\<lambda>ep. r_state ep = Downloading) eps)"
  using assms by (auto simp: show_report_of_def report_downloads_def episode_status_of_def filter_map comp_def)

lemma snapshot_shows_eq:
  assumes "db_inv X d"
    "list_all2 (\<lambda>sr r. (show_report_of X sr d :: 'u library_error + show_report) = Inr r) srs reports"
  shows "\<exists>sts ds rates'. snapshot_shows X as_second now d srs rates = (Inr (sts, ds) :: 'u library_error + _, rates') \<and>
    list_all2 agrees sts reports \<and> map shown_download ds = concat (map report_downloads reports) \<and>
    dom rates' = dom rates \<union> seen_keys ds"
  using assms(2)
proof (induction arbitrary: rates rule: list_all2_induct)
  case (Cons sr srs r reports)
  obtain eps where eps: "storage_episodes X (rs_slug sr) d = Inr eps" using storage_episodes_total [OF assms(1)] by blast
  obtain ds rates1 where ds: "download_statuses (now (rs_slug sr)) (rs_slug sr) eps rates = (ds, rates1)" by fastforce
  obtain sts' ds' rates' where IH:
    "snapshot_shows X as_second now d srs rates1 = (Inr (sts', ds') :: 'u library_error + _, rates')"
    "list_all2 agrees sts' reports" "map shown_download ds' = concat (map report_downloads reports)"
    "dom rates' = dom rates1 \<union> seen_keys ds'"
    using Cons.IH [of rates1] by blast
  have "dom rates' = dom rates \<union> seen_keys (ds @ ds')"
    using download_statuses_dom [of "now (rs_slug sr)" "rs_slug sr" eps rates] by (simp add: ds IH(4) Un_assoc)
  moreover have "map shown_download (ds @ ds') = concat (map report_downloads (r # reports))"
    using download_statuses_eq [of "now (rs_slug sr)" "rs_slug sr" eps rates]
    by (simp add: ds IH(3) report_downloads_eq [OF Cons.hyps(1) eps])
  moreover have "snapshot_shows X as_second now d (sr # srs) rates =
      (Inr (show_status_of as_second sr eps # sts', ds @ ds') :: 'u library_error + _, rates')"
    by (simp add: eps ds IH(1))
  moreover have "list_all2 agrees (show_status_of as_second sr eps # sts') (r # reports)"
    using IH(2) show_status_agrees [OF Cons.hyps(1) eps] by simp
  ultimately show ?case by blast
qed simp

lemma snapshot_total:
  fixes mo :: "'u moment_of"
  assumes "db_inv X (at_db mo)"
  shows "\<exists>sn rep rates'. snapshot_of X as_second mo rates = (Inr sn, rates') \<and>
    status_report X (at_library mo) (at_db mo) = Inr rep \<and> list_all2 agrees (sn_shows sn) (st_shows rep) \<and>
    map shown_download (sn_downloads sn) = concat (map report_downloads (st_shows rep)) \<and>
    dom rates' = dom rates \<union> seen_keys (sn_downloads sn)"
proof -
  obtain records where records: "storage_shows X (at_db mo) = Inr records" using storage_shows_total [OF assms] by blast
  obtain rep where rep: "status_report X (at_library mo) (at_db mo) = Inr rep" using status_report_total [OF assms] by blast
  then have "collect_res (map (\<lambda>sr. show_report_of X sr (at_db mo) :: 'u library_error + show_report) records) =
      Inr (st_shows rep)"
    using records by (auto simp: status_report_def bind_res_Inr_iff)
  then have "list_all2 (\<lambda>sr r. (show_report_of X sr (at_db mo) :: 'u library_error + show_report) = Inr r) records (st_shows rep)"
    by (simp add: collect_res_Inr_iff list_all2_map1)
  from snapshot_shows_eq [OF assms this] obtain sts ds rates' where r:
    "snapshot_shows X as_second (at_now mo) (at_db mo) records rates = (Inr (sts, ds) :: 'u library_error + _, rates')"
    "list_all2 agrees sts (st_shows rep)" "map shown_download ds = concat (map report_downloads (st_shows rep))"
    "dom rates' = dom rates \<union> seen_keys ds"
    by metis
  show ?thesis using rep r by (simp add: snapshot_of_def records)
qed

section \<open>Facts about connections\<close>

text \<open>A client that keeps reading receives everything.\<close>

lemma send_open: "cl_room c = None \<Longrightarrow> send msg c = (Inr (), c\<lparr>cl_sent := cl_sent c @ [msg]\<rparr>)"
  by (simp add: send_def)

lemma stream_events_open:
  "cl_room c = None \<Longrightarrow>
     stream_events rs c = (Inr (), c\<lparr>cl_sent := cl_sent c @ map MsgEvent (delivered_events rs)\<rparr>)"
  by (induction rs arbitrary: c rule: delivered_events.induct) (simp_all add: send_open)

definition asks :: "(string \<Rightarrow> string + request) \<Rightarrow> string \<Rightarrow> bool" where
  "asks parse line \<longleftrightarrow> \<not> blank line \<and> parse line = Inr RequestSubscribe"

definition answered :: "line_read \<times> 'u moment_of \<Rightarrow> bool" where
  "answered lm = (case fst lm of Line line \<Rightarrow> \<not> blank line | ReadError _ \<Rightarrow> False)"

lemma talk_loop_answers:
  fixes rest :: "(line_read \<times> 'u moment_of) list"
  assumes "cl_room c = None" "\<forall>(l, mo) \<in> set pre. \<exists>line. l = Line line \<and> \<not> asks parse line"
  shows "\<exists>answers rates'. talk_loop X as_second err_text parse events (pre @ rest) (c, rates) =
      talk_loop X as_second err_text parse events rest (c\<lparr>cl_sent := cl_sent c @ map MsgResponse answers\<rparr>, rates') \<and>
    length answers = length (filter answered pre)"
  using assms
proof (induction pre arbitrary: c rates)
  case Nil
  show ?case by (intro exI [of _ "[]"]) auto
next
  case (Cons lm pre)
  obtain line mo where lm: "lm = (Line line, mo)" "\<not> asks parse line" using Cons.prems(2) by auto
  have pre: "\<forall>(l, mo) \<in> set pre. \<exists>line. l = Line line \<and> \<not> asks parse line" using Cons.prems(2) by simp
  note one = Cons.IH [OF _ pre]
  show ?case
  proof (cases "blank line")
    case True
    then have "\<not> answered lm" by (simp add: answered_def lm)
    with True one [of c rates] Cons.prems(1) lm(1) show ?thesis by simp
  next
    case False
    obtain answer rates1 where step: "talk_loop X as_second err_text parse events ((lm # pre) @ rest) (c, rates) =
        talk_loop X as_second err_text parse events (pre @ rest) (c\<lparr>cl_sent := cl_sent c @ [MsgResponse answer]\<rparr>, rates1)"
    proof (cases "parse line")
      case (Inl err)
      then show ?thesis using that False Cons.prems(1) lm by (simp add: send_open)
    next
      case (Inr req)
      with False lm have req: "req = RequestSnapshot" by (cases req) (simp_all add: asks_def)
      obtain r rates2 where "snapshot_of X as_second mo rates = (r, rates2)" by fastforce
      with Inr req show ?thesis using that False Cons.prems(1) lm by (simp add: send_open)
    qed
    obtain answers rates' where "talk_loop X as_second err_text parse events (pre @ rest)
        (c\<lparr>cl_sent := cl_sent c @ [MsgResponse answer]\<rparr>, rates1) =
        talk_loop X as_second err_text parse events rest
          (c\<lparr>cl_sent := cl_sent c @ [MsgResponse answer]\<rparr>
            \<lparr>cl_sent := cl_sent (c\<lparr>cl_sent := cl_sent c @ [MsgResponse answer]\<rparr>) @ map MsgResponse answers\<rparr>, rates')"
      "length answers = length (filter answered pre)"
      using one [of "c\<lparr>cl_sent := cl_sent c @ [MsgResponse answer]\<rparr>" rates1] Cons.prems(1) by auto
    moreover have "answered lm" using False by (simp add: answered_def lm)
    ultimately show ?thesis unfolding step
      by (intro exI [of _ "answer # answers"] exI [of _ rates']) simp
  qed
qed

text \<open>What a subscriber receives: the greeting, one answer per request, the snapshot, the events.\<close>

lemma talk_subscribe:
  fixes mo :: "'u moment_of"
  assumes "cl_room c = None" "\<forall>(l, mo) \<in> set pre. \<exists>line. l = Line line \<and> \<not> asks parse line"
    "asks parse line" "db_inv X (at_db mo)"
  shows "\<exists>answers sn rates'. talk X as_second err_text parse version events (pre @ (Line line, mo) # post) (c, rates) =
      (Inr (), c\<lparr>cl_sent := cl_sent c @
          MsgHello \<lparr>he_protocol_version = protocol_version, he_daemon_version = version\<rparr> #
          map MsgResponse (answers @ [RespSnapshot sn]) @ map MsgEvent (delivered_events events)\<rparr>, rates') \<and>
    length answers = length (filter answered pre)"
proof -
  let ?hello = "MsgHello \<lparr>he_protocol_version = protocol_version, he_daemon_version = version\<rparr>"
  let ?c = "c\<lparr>cl_sent := cl_sent c @ [?hello]\<rparr>"
  obtain answers rates1 where loop: "talk_loop X as_second err_text parse events (pre @ (Line line, mo) # post) (?c, rates) =
      talk_loop X as_second err_text parse events ((Line line, mo) # post)
        (?c\<lparr>cl_sent := cl_sent ?c @ map MsgResponse answers\<rparr>, rates1)"
    "length answers = length (filter answered pre)"
    using talk_loop_answers [OF _ assms(2), of ?c X as_second err_text events "(Line line, mo) # post" rates] assms(1)
    by auto
  obtain sn rates2 where "snapshot_of X as_second mo rates1 = (Inr sn, rates2)"
    using snapshot_total [OF assms(4), of as_second rates1] by blast
  with assms(1,3) loop show ?thesis
    by (intro exI [of _ answers] exI [of _ sn] exI [of _ rates2])
      (simp add: talk_def send_open asks_def snapshot_response_def stream_events_open)
qed

section \<open>Properties\<close>

text \<open>
  C29: The control socket and the status report tell the same story.  From a database with the
  invariant both can be assembled, and the socket's snapshot lists the same shows in the same
  order with the same provider, poll health, number of cached episodes and bytes, and as active
  downloads exactly the downloading episodes of the report with the same progress.  The rate
  table gains a key for each of them and never loses one.
\<close>

theorem snapshot_agrees_with_status:
  fixes mo :: "'u moment_of"
  assumes "db_inv X (at_db mo)"
  shows "\<exists>sn rep rates'. snapshot_of X as_second mo rates = (Inr sn, rates') \<and>
    status_report X (at_library mo) (at_db mo) = Inr rep \<and>
    list_all2 (\<lambda>s r. ss_slug s = sh_slug r \<and> ss_provider s = sh_provider r \<and>
        ss_last_poll_ok s = sh_last_poll_ok r \<and> ss_last_error s = sh_last_error r \<and>
        ss_cache_bytes s = sh_cached_bytes r \<and>
        ss_episodes_cached s = of_nat (length (filter (\<lambda>e. es_state e = Cached) (sh_episodes r))))
      (sn_shows sn) (st_shows rep) \<and>
    map shown_download (sn_downloads sn) = concat (map report_downloads (st_shows rep)) \<and>
    dom rates' = dom rates \<union> seen_keys (sn_downloads sn)"
  using snapshot_total [OF assms, of as_second rates] unfolding agrees_def [abs_def] .

text \<open>A moment of the demo daemon.\<close>

definition demo_moment :: "tuple_url moment_of" where
  "demo_moment = \<lparr>at_library = demo_library, at_db = demo_db, at_data = [Leaf (Some 3), SubDir [Leaf None, Leaf (Some 4)]],
     at_now = (\<lambda>s i. 2), at_uptime = 3500000000, at_requests = 7\<rparr>"

theorem snapshot_agrees_with_status_witness:
  "\<exists>sn rates'. snapshot_of demo_codec (\<lambda>t. t div 1000000000) demo_moment Map.empty = (Inr sn, rates') \<and>
     dom rates' = seen_keys (sn_downloads sn)"
proof -
  have "db_inv demo_codec (at_db demo_moment)" by (simp add: demo_moment_def demo_db_inv)
  from snapshot_agrees_with_status [OF this, of "\<lambda>t. t div 1000000000" Map.empty] show ?thesis by auto
qed

end
