(* ===== verification/Jitter.thy ===== *)
theory Jitter
  imports Complex_Main Control
begin

text \<open>
  The timer of a poll loop (\<open>crates/daemon/src/scheduler.rs\<close>): the interval multiplied by a random
  factor in IEEE doubles, as \<open>Duration::mul_f64\<close> computes it.  Rounding to nearest is monotone,
  so the result stays between the two products that bound it.
\<close>

section \<open>Definitions\<close>

text \<open>
  \<open>Duration::from_secs_f64\<close>: rounds to the nearest nanosecond, ties to even; \<open>None\<close> is its panic on
  what is negative, not finite, or not below \<open>2 ^ 64\<close> seconds.
\<close>

fun from_secs_f64 :: "f64 \<Rightarrow> duration option" where
  "from_secs_f64 NaN = None"
| "from_secs_f64 (Inf s) = None"
| "from_secs_f64 (Fin s m e) =
     (if s \<and> m \<noteq> 0 then None
      else if 18446744073709551616 \<le> scale m e then None
      else Some (nat (if 0 \<le> e then m * 1000000000 * 2 ^ nat e else round_shift (m * 1000000000) (nat (- e)))))"

definition mul_f64 :: "duration \<Rightarrow> f64 \<Rightarrow> duration option" where
  "mul_f64 t x = from_secs_f64 (f64_mul x (as_secs_f64 t))"

text \<open>The literals \<open>0.9\<close>, \<open>0.2\<close> and \<open>1.1\<close> are the doubles nearest to them, as quotients are.\<close>

definition tenths :: "nat \<Rightarrow> f64" where
  "tenths n = f64_div (f64_of_nat n) (f64_of_nat 10)"

text \<open>\<open>random\<close> is what \<open>fastrand::f64\<close> returned.\<close>

definition jittered :: "duration \<Rightarrow> f64 \<Rightarrow> duration option" where
  "jittered interval random = mul_f64 interval (f64_add (tenths 9) (f64_mul random (tenths 2)))"

section \<open>Rounding\<close>

definition rne :: "real \<Rightarrow> int" where
  "rne x = (let q = \<lfloor>x\<rfloor>; r = x - of_int q in
     if r < 1/2 then q else if 1/2 < r then q + 1 else if even q then q else q + 1)"

lemma rne_bounds: "\<lfloor>x\<rfloor> \<le> rne x \<and> rne x \<le> \<lfloor>x\<rfloor> + 1"
  by (simp add: rne_def Let_def)

lemma rne_of_int [simp]: "rne (of_int n) = n"
  by (simp add: rne_def)

lemma rne_mono: "x \<le> y \<Longrightarrow> rne x \<le> rne y"
proof -
  assume le: "x \<le> y"
  show ?thesis
  proof (cases "\<lfloor>x\<rfloor> = \<lfloor>y\<rfloor>")
    case True
    with le show ?thesis by (auto simp: rne_def Let_def)
  next
    case False
    with floor_mono [OF le] rne_bounds [of x] rne_bounds [of y] show ?thesis by linarith
  qed
qed

lemma round_shift_rne: "round_shift m k = rne (of_int m / 2 ^ k)"
proof -
  have q: "\<lfloor>of_int m / 2 ^ k :: real\<rfloor> = m div 2 ^ k"
    using floor_divide_of_int_eq [of m "2 ^ k", where ?'a = real] unfolding of_int_power of_int_numeral .
  have "(of_int m :: real) = of_int (m div 2 ^ k * 2 ^ k + m mod 2 ^ k)" by (simp only: div_mult_mod_eq)
  then have "(of_int m :: real) = of_int (m div 2 ^ k) * 2 ^ k + of_int (m mod 2 ^ k)"
    by (simp only: of_int_add of_int_mult of_int_power of_int_numeral)
  then have r: "of_int m / 2 ^ k - of_int (m div 2 ^ k) = (of_int (m mod 2 ^ k) / 2 ^ k :: real)"
    by (simp only: add_divide_distrib) simp
  have halves: "(of_int z / 2 ^ k < (1/2 :: real)) = (2 * z < 2 ^ k)" "((1/2 :: real) < of_int z / 2 ^ k) = (2 ^ k < 2 * z)" for z :: int
    using of_int_less_iff [of "2 * z" "2 ^ k", where 'a = real] of_int_less_iff [of "2 ^ k" "2 * z", where 'a = real]
    by (simp_all add: divide_less_eq less_divide_eq mult.commute)
  show ?thesis by (simp only: round_shift_def rne_def Let_def q r halves)
qed

lemma bit_len_pos: "0 < m \<Longrightarrow> 2 ^ nat (bit_len m - 1) \<le> m \<and> m < 2 ^ nat (bit_len m) \<and> 0 < bit_len m"
proof (induction m rule: bit_len.induct)
  case (1 n)
  show ?case
  proof (cases "n div 2 = 0")
    case True
    with 1 have "n = 1" by linarith
    then show ?thesis by (simp add: bit_len.simps)
  next
    case False
    with 1 have IH: "2 ^ nat (bit_len (n div 2) - 1) \<le> n div 2 \<and> n div 2 < 2 ^ nat (bit_len (n div 2)) \<and> 0 < bit_len (n div 2)"
      by linarith
    have b: "bit_len n = 1 + bit_len (n div 2)" using 1(2) by (subst bit_len.simps) simp
    have "nat (bit_len n) = Suc (nat (bit_len (n div 2)))" "nat (bit_len n - 1) = Suc (nat (bit_len (n div 2) - 1))"
      using IH b by linarith+
    with IH b show ?thesis by simp linarith
  qed
qed

text \<open>The real number a magnitude and an exponent stand for, and the grid it is rounded to.\<close>

definition val :: "int \<Rightarrow> int \<Rightarrow> real" where
  "val m e = of_int m * 2 powr of_int e"

definition grid :: "int \<Rightarrow> int \<Rightarrow> int" where
  "grid m e = max (bit_len m + e - 53) (- 1074)"

definition rounded :: "int \<Rightarrow> real \<Rightarrow> real" where
  "rounded g x = of_int (rne (x / 2 powr of_int g)) * 2 powr of_int g"

lemma val_shift: "val m e / 2 powr of_int (e + int k) = of_int m / 2 ^ k"
  by (simp add: val_def powr_add powr_realpow)

lemma val_grid:
  assumes "g \<le> e"
  shows "val m e / 2 powr of_int g = of_int (m * 2 ^ nat (e - g))"
proof -
  have "(2 :: real) powr of_int e = 2 ^ nat (e - g) * 2 powr of_int g"
    using assms by (simp add: powr_realpow [symmetric] powr_add [symmetric] flip: of_int_add)
  then show ?thesis by (simp add: val_def)
qed

lemma rounded_exact:
  assumes "g \<le> e"
  shows "rounded g (val m e) = val m e"
proof -
  have "rounded g (val m e) = val m e / 2 powr of_int g * 2 powr of_int g"
    by (simp only: rounded_def val_grid [OF assms] rne_of_int)
  then show ?thesis by simp
qed

lemma rounded_mono: "x \<le> y \<Longrightarrow> rounded g x \<le> rounded g y"
  unfolding rounded_def
  by (intro mult_right_mono) (simp_all add: rne_mono divide_right_mono)

text \<open>The magnitude and exponent that \<open>f64_round\<close> computes stand for the rounded value.\<close>

lemma round_value:
  assumes "0 < m" "k = nat (max (bit_len m - 53) (- 1074 - e))"
  shows "val (round_shift m k) (e + int k) = rounded (grid m e) (val m e)"
proof (cases "k = 0")
  case True
  then have "grid m e \<le> e" using assms(2) by (simp add: grid_def)
  with True show ?thesis by (simp add: rounded_exact)
next
  case False
  then have "grid m e = e + int k" using assms(2) by (auto simp: grid_def)
  then show ?thesis
    by (simp add: rounded_def round_shift_rne val_shift del: of_int_add) (simp add: val_def)
qed

lemma val_bounds:
  assumes "0 < m"
  shows "2 powr of_int (bit_len m + e - 1) \<le> val m e" "val m e < 2 powr of_int (bit_len m + e)"
proof -
  note b = bit_len_pos [OF assms]
  have "(2 :: real) ^ nat (bit_len m - 1) \<le> of_int m" "of_int m < (2 :: real) ^ nat (bit_len m)"
    using b of_int_le_iff [of "2 ^ nat (bit_len m - 1)" m, where ?'a = real]
      of_int_less_iff [of m "2 ^ nat (bit_len m)", where ?'a = real] by simp_all
  then have "2 powr of_int (bit_len m - 1) \<le> (of_int m :: real)" "(of_int m :: real) < 2 powr of_int (bit_len m)"
    using b by (simp_all add: powr_realpow [symmetric])
  moreover have "bit_len m + e - 1 = (bit_len m - 1) + e" by simp
  ultimately show "2 powr of_int (bit_len m + e - 1) \<le> val m e" "val m e < 2 powr of_int (bit_len m + e)"
    unfolding val_def by (simp_all only: of_int_add powr_add) (simp_all add: mult_right_mono)
qed

lemma rounded_power: "g \<le> e \<Longrightarrow> rounded g (2 powr of_int e) = 2 powr of_int e"
  using rounded_exact [of g e 1] by (simp add: val_def)

text \<open>Rounding to nearest is monotone, across binades too.\<close>

lemma round_mono:
  assumes "0 < m" "0 < n" "val m e \<le> val n f"
  shows "rounded (grid m e) (val m e) \<le> rounded (grid n f) (val n f)"
proof -
  have "2 powr of_int (bit_len m + e - 1) < (2 powr of_int (bit_len n + f) :: real)"
    using val_bounds(1) [OF assms(1), of e] val_bounds(2) [OF assms(2), of f] assms(3) by linarith
  then have le: "bit_len m + e \<le> bit_len n + f" by (simp flip: of_int_less_iff)
  show ?thesis
  proof (cases "grid m e = grid n f")
    case True
    with rounded_mono [OF assms(3)] show ?thesis by simp
  next
    case False
    let ?t = "bit_len n + f - 1"
    have g: "grid m e \<le> ?t" "grid n f \<le> ?t" "bit_len m + e \<le> ?t" using False le by (auto simp: grid_def)
    have "val m e \<le> 2 powr of_int ?t"
      using val_bounds(2) [OF assms(1), of e] powr_mono [of "of_int (bit_len m + e)" "of_int ?t" 2] g(3) by linarith
    then have "rounded (grid m e) (val m e) \<le> 2 powr of_int ?t"
      using rounded_mono [of "val m e" "2 powr of_int ?t" "grid m e"] rounded_power [OF g(1)] by simp
    also have "2 powr of_int ?t \<le> rounded (grid n f) (val n f)"
      using rounded_mono [OF val_bounds(1) [OF assms(2), of f], of "grid n f"] rounded_power [OF g(2)] by simp
    finally show ?thesis .
  qed
qed

section \<open>Doubles that are not negative\<close>

fun at_most :: "f64 \<Rightarrow> f64 \<Rightarrow> bool" where
  "at_most (Fin s m e) (Fin t n f) \<longleftrightarrow> \<not> s \<and> \<not> t \<and> 0 \<le> m \<and> 0 \<le> n \<and> val m e \<le> val n f"
| "at_most _ _ \<longleftrightarrow> False"

fun not_negative :: "f64 \<Rightarrow> bool" where
  "not_negative NaN = False"
| "not_negative (Inf s) = (\<not> s)"
| "not_negative (Fin s m e) = (\<not> s \<and> 0 \<le> m)"

lemma round_shift_nonneg: "0 \<le> m \<Longrightarrow> 0 \<le> round_shift m k"
  by (simp add: round_shift_def Let_def pos_imp_zdiv_nonneg_iff)

lemma val_0 [simp]: "val 0 e = 0"
  by (simp add: val_def)

lemma val_nonneg: "0 \<le> m \<Longrightarrow> 0 \<le> val m e"
  by (simp add: val_def)

lemma val_1 [simp]: "val 1 0 = 1"
  by (simp add: val_def)

lemma round_not_negative: "0 \<le> m \<Longrightarrow> not_negative (f64_round False m e)"
  by (simp add: f64_round_def Let_def round_shift_nonneg)

definition too_large :: real where
  "too_large = 2 powr 1024"

lemma too_large_pos [simp]: "0 < too_large"
  by (simp add: too_large_def)

lemma f64_round_Fin:
  assumes "0 \<le> m" "f64_round False m e = Fin s m' e'"
  shows "\<not> s \<and> 0 \<le> m' \<and> val m' e' = (if m = 0 then 0 else rounded (grid m e) (val m e)) \<and> val m' e' < too_large"
proof (cases "m = 0")
  case False
  with assms(1) have m: "0 < m" by simp
  let ?k = "nat (max (bit_len m - 53) (- 1074 - e))"
  from assms(2) False have r: "\<not> s" "m' = round_shift m ?k" "e' = e + int ?k" "bit_len m' + e' \<le> 1024"
    by (auto simp: f64_round_def Let_def split: if_splits)
  have m': "0 \<le> m'" by (simp add: r(2) round_shift_nonneg assms(1))
  have "val m' e' < too_large"
  proof (cases "m' = 0")
    case False
    with m' val_bounds(2) [of m' e'] have "val m' e' < 2 powr of_int (bit_len m' + e')" by simp
    also have "\<dots> \<le> too_large" unfolding too_large_def using r(4) by (intro powr_mono) simp_all
    finally show ?thesis .
  qed simp
  with r m' round_value [OF m refl] False show ?thesis by simp
qed (use assms(2) in \<open>auto simp: f64_round_def\<close>)

text \<open>A rounding that stays below the range gives a finite double.\<close>

lemma f64_round_finite:
  assumes "0 < m" "rounded (grid m e) (val m e) < too_large"
  shows "\<exists>m' e'. f64_round False m e = Fin False m' e'"
proof -
  let ?k = "nat (max (bit_len m - 53) (- 1074 - e))"
  let ?m = "round_shift m ?k" and ?e = "e + int ?k"
  have v: "val ?m ?e = rounded (grid m e) (val m e)" by (rule round_value [OF assms(1) refl])
  have "bit_len ?m + ?e \<le> 1024"
  proof (cases "?m = 0")
    case False
    with round_shift_nonneg [of m ?k] assms(1) have "0 < ?m" by simp
    from val_bounds(1) [OF this, of ?e] v assms(2) have "2 powr of_int (bit_len ?m + ?e - 1) < too_large" by (simp only:)
    then have "(of_int (bit_len ?m + ?e - 1) :: real) < 1024"
      unfolding too_large_def by (subst (asm) powr_less_cancel_iff) simp_all
    then show ?thesis by linarith
  next
    case True
    have "grid m e = - 1074"
    proof (rule ccontr)
      assume "grid m e \<noteq> - 1074"
      then have g: "grid m e \<le> bit_len m + e - 1" by (auto simp: grid_def)
      have "0 < (2 powr of_int (bit_len m + e - 1) :: real)" by simp
      also have "\<dots> = rounded (grid m e) (2 powr of_int (bit_len m + e - 1))" using rounded_power [OF g] by simp
      also have "\<dots> \<le> rounded (grid m e) (val m e)" by (intro rounded_mono val_bounds(1) assms(1))
      finally show False using v unfolding True by simp
    qed
    moreover have "?k \<noteq> 0" using True assms(1) by (intro notI) simp
    ultimately have "?e = - 1074" unfolding grid_def by linarith
    moreover have "bit_len 0 = 0" by (simp add: bit_len.simps)
    ultimately show ?thesis unfolding True by linarith
  qed
  with assms(1) show ?thesis by (simp add: f64_round_def Let_def)
qed

lemma f64_round_at_most:
  assumes "0 \<le> m" "0 \<le> n" "val m e \<le> val n f" "f64_round False n f = Fin s n' f'"
  shows "at_most (f64_round False m e) (f64_round False n f)"
proof (cases "m = 0")
  case True
  then have "f64_round False m e = Fin False 0 0" by (simp add: f64_round_def)
  moreover have "\<not> s" "0 \<le> n'" using f64_round_Fin [OF assms(2,4)] by simp_all
  ultimately show ?thesis by (simp add: assms(4) val_nonneg)
next
  case False
  with assms(1) have m: "0 < m" by simp
  have n: "0 < n"
  proof (rule ccontr)
    assume "\<not> 0 < n"
    with assms(2) have "val n f = 0" by simp
    moreover have "0 < val m e" using m by (simp add: val_def)
    ultimately show False using assms(3) by simp
  qed
  note N = f64_round_Fin [OF assms(2,4)]
  have "rounded (grid m e) (val m e) \<le> val n' f'" using round_mono [OF m n assms(3)] N n by simp
  moreover from this N have "rounded (grid m e) (val m e) < too_large" by simp
  then obtain m' e' where "f64_round False m e = Fin False m' e'" using f64_round_finite [OF m] by blast
  moreover from f64_round_Fin [OF assms(1) this] m have "0 \<le> m'" "val m' e' = rounded (grid m e) (val m e)" by simp_all
  ultimately show ?thesis using N by (simp add: assms(4))
qed

section \<open>Operations keep the order\<close>

lemma at_most_Fin: "at_most x y \<Longrightarrow> \<exists>m e n f. x = Fin False m e \<and> y = Fin False n f \<and> 0 \<le> m \<and> 0 \<le> n \<and> val m e \<le> val n f"
  by (cases "(x, y)" rule: at_most.cases) simp_all

lemma val_mult: "val (m * n) (e + f) = val m e * val n f"
  by (simp add: val_def powr_add)

lemma f64_mul_at_most:
  assumes "at_most x y" "0 \<le> p" "f64_mul y (Fin False p g) = Fin s r h"
  shows "at_most (f64_mul x (Fin False p g)) (f64_mul y (Fin False p g))"
proof -
  obtain m e n f where xy: "x = Fin False m e" "y = Fin False n f" "0 \<le> m" "0 \<le> n" "val m e \<le> val n f"
    using at_most_Fin [OF assms(1)] by blast
  have "val (m * p) (e + g) \<le> val (n * p) (f + g)"
    unfolding val_mult using xy(5) val_nonneg [OF assms(2)] by (rule mult_right_mono)
  with xy assms(2,3) f64_round_at_most [of "m * p" "n * p" "e + g" "f + g" s r h] show ?thesis by simp
qed

lemma val_align: "g \<le> e \<Longrightarrow> val (m * 2 ^ nat (e - g)) g = val m e"
  unfolding val_def [of "m * 2 ^ nat (e - g)"] val_grid [symmetric] by simp

lemma f64_add_value:
  assumes "0 < m" "0 \<le> n"
  shows "\<exists>v g. f64_add (Fin False m e) (Fin False n f) = f64_round False v g \<and> 0 \<le> v \<and> val v g = val m e + val n f"
proof -
  let ?g = "min e f"
  let ?v = "m * 2 ^ nat (e - ?g) + n * 2 ^ nat (f - ?g)"
  have "0 < ?v" using assms by (simp add: add_pos_nonneg)
  moreover have "val ?v ?g = val (m * 2 ^ nat (e - ?g)) ?g + val (n * 2 ^ nat (f - ?g)) ?g"
    by (simp add: val_def distrib_right)
  moreover have "f64_add (Fin False m e) (Fin False n f) = f64_round False ?v ?g"
    using calculation(1) by (simp add: Let_def)
  ultimately show ?thesis by (intro exI [of _ ?v] exI [of _ ?g]) (simp add: val_align)
qed

lemma f64_add_at_most:
  assumes "at_most x y" "0 < m" "f64_add (Fin False m e) y = Fin s r h"
  shows "at_most (f64_add (Fin False m e) x) (f64_add (Fin False m e) y)"
proof -
  obtain n f p g where xy: "x = Fin False n f" "y = Fin False p g" "0 \<le> n" "0 \<le> p" "val n f \<le> val p g"
    using at_most_Fin [OF assms(1)] by blast
  obtain v k where v: "f64_add (Fin False m e) x = f64_round False v k" "0 \<le> v" "val v k = val m e + val n f"
    unfolding xy(1) using f64_add_value [OF assms(2) xy(3)] by blast
  obtain w l where w: "f64_add (Fin False m e) y = f64_round False w l" "0 \<le> w" "val w l = val m e + val p g"
    unfolding xy(2) using f64_add_value [OF assms(2) xy(4)] by blast
  show ?thesis using f64_round_at_most [OF v(2) w(2), of k l s r h] assms(3) v w xy(5) by simp
qed

section \<open>Seconds\<close>

lemma scale_val: "0 \<le> m \<Longrightarrow> scale m e = \<lfloor>val m e\<rfloor>"
proof (cases "0 \<le> e")
  case True
  then have "val m e = of_int (m * 2 ^ nat e)" using val_grid [of 0 e m] by simp
  with True show ?thesis by (simp add: scale_def del: of_int_mult)
next
  case False
  then have "val m e = of_int m / 2 ^ nat (- e)" using val_shift [of m e "nat (- e)"] by simp
  then show ?thesis using False floor_divide_of_int_eq [of m "2 ^ nat (- e)", where ?'a = real]
    by (simp add: scale_def)
qed

lemma nanos_val:
  assumes "0 \<le> m"
  shows "(if 0 \<le> e then m * 1000000000 * 2 ^ nat e else round_shift (m * 1000000000) (nat (- e))) =
    rne (val m e * 1000000000)"
proof (cases "0 \<le> e")
  case True
  then have "val m e * 1000000000 = of_int (m * 1000000000 * 2 ^ nat e)" using val_grid [of 0 e m] by simp
  with True show ?thesis by (simp only: rne_of_int if_True)
next
  case False
  then have "val m e * 1000000000 = of_int (m * 1000000000) / 2 ^ nat (- e)"
    using val_shift [of "m * 1000000000" e "nat (- e)"] by (simp add: val_def)
  with False show ?thesis by (simp only: round_shift_rne if_False)
qed

lemma from_secs_mono:
  assumes "at_most x y" "from_secs_f64 y = Some b"
  shows "\<exists>a. from_secs_f64 x = Some a \<and> a \<le> b"
proof -
  obtain m e n f where xy: "x = Fin False m e" "y = Fin False n f" "0 \<le> m" "0 \<le> n" "val m e \<le> val n f"
    using at_most_Fin [OF assms(1)] by blast
  have b: "scale n f < 18446744073709551616" "b = nat (rne (val n f * 1000000000))"
    using assms(2) xy(2) by (auto simp: nanos_val [OF xy(4)] simp del: nat_mult_distrib split: if_splits)
  have "scale m e \<le> scale n f"
    unfolding scale_val [OF xy(3)] scale_val [OF xy(4)] by (rule floor_mono [OF xy(5)])
  with b(1) have "scale m e < 18446744073709551616" by linarith
  moreover have "nat (rne (val m e * 1000000000)) \<le> b" unfolding b(2) using xy(5) by (intro nat_mono rne_mono mult_right_mono) simp_all
  ultimately show ?thesis using xy(1) nanos_val [OF xy(3), of e] by (simp del: nat_mult_distrib)
qed

lemma of_nat_not_negative: "not_negative (f64_of_nat n)"
  by (simp add: f64_of_nat_def round_not_negative)

lemma sum_not_negative: "0 \<le> a \<Longrightarrow> 0 \<le> b \<Longrightarrow> \<not> a * 2 ^ i + b * 2 ^ j < (0 :: int)"
  by (simp add: not_less)

lemma as_secs_not_negative: "not_negative (as_secs_f64 t)"
proof -
  have billion: "f64_of_nat 1000000000 = Fin False 1000000000 0"
    unfolding f64_of_nat_def using f64_round_exact [of 1000000000 False] by simp
  have "not_negative (f64_div x (Fin False 1000000000 0))" if "not_negative x" for x
    using that by (cases x) (auto simp: Let_def intro!: round_not_negative add_nonneg_nonneg pos_imp_zdiv_nonneg_iff [THEN iffD2])
  moreover have "not_negative (f64_add x y)" if "not_negative x" "not_negative y" for x y
    using that by (cases x; cases y) (auto simp: Let_def sum_not_negative intro!: round_not_negative)
  ultimately show ?thesis by (simp add: as_secs_f64_def billion of_nat_not_negative del: f64_div.simps)
qed

lemma mul_f64_mono:
  assumes "at_most x y" "mul_f64 t y = Some b"
  shows "\<exists>a. mul_f64 t x = Some a \<and> a \<le> b"
proof -
  obtain m e n f where xy: "x = Fin False m e" "y = Fin False n f" using at_most_Fin [OF assms(1)] by blast
  obtain s r h where prod: "f64_mul y (as_secs_f64 t) = Fin s r h"
    using assms(2) by (cases "f64_mul y (as_secs_f64 t)") (simp_all add: mul_f64_def)
  have "as_secs_f64 t \<noteq> Inf q" "as_secs_f64 t \<noteq> NaN" for q using prod xy(2) by (auto split: if_splits)
  with as_secs_not_negative [of t] obtain p g where "as_secs_f64 t = Fin False p g" "0 \<le> p"
    by (cases "as_secs_f64 t") auto
  with f64_mul_at_most [OF assms(1), of p g s r h] prod from_secs_mono assms(2) show ?thesis
    by (simp add: mul_f64_def)
qed

section \<open>The literals\<close>

lemma tenths_9: "tenths 9 = Fin False 8106479329266893 (- 53)"
  by code_simp

lemma tenths_2: "tenths 2 = Fin False 7205759403792794 (- 55)"
  by code_simp

lemma tenths_11: "tenths 11 = Fin False 4953959590107546 (- 52)"
  by code_simp

lemma largest_factor: "f64_add (tenths 9) (tenths 2) = tenths 11"
  by code_simp

lemma smallest_factor: "f64_add (tenths 9) (Fin False 0 0) = tenths 9"
  by code_simp

lemma one_tenths_2: "f64_mul (Fin False 1 0) (tenths 2) = tenths 2"
  by code_simp

text \<open>The factor lies between \<open>0.9\<close> and \<open>1.1\<close>.\<close>

lemma factor_bounds:
  assumes "0 \<le> m" "val m e < 1"
  defines "x \<equiv> f64_add (tenths 9) (f64_mul (Fin False m e) (tenths 2))"
  shows "at_most (tenths 9) x" "at_most x (tenths 11)"
proof -
  have "at_most (Fin False m e) (Fin False 1 0)" using assms(1,2) by simp
  from f64_mul_at_most [OF this, of 7205759403792794 "- 55" False 7205759403792794 "- 55"] one_tenths_2
  have p: "at_most (f64_mul (Fin False m e) (tenths 2)) (tenths 2)" by (simp add: tenths_2 del: f64_mul.simps)
  then have z: "at_most (Fin False 0 0) (f64_mul (Fin False m e) (tenths 2))"
    using at_most_Fin [OF p] val_nonneg by auto
  show "at_most x (tenths 11)"
    using f64_add_at_most [OF p, of 8106479329266893 "- 53" False 4953959590107546 "- 52"] largest_factor tenths_11 unfolding x_def tenths_9
    by (simp del: f64_add.simps f64_mul.simps)
  then obtain s' r' h' where x: "x = Fin s' r' h'" using at_most_Fin by blast
  show "at_most (tenths 9) x"
    using f64_add_at_most [OF z, of 8106479329266893 "- 53" s' r' h'] x smallest_factor unfolding x_def tenths_9
    by (simp del: f64_add.simps f64_mul.simps)
qed

section \<open>Properties\<close>

text \<open>
  A poll loop sleeps its interval give or take a tenth.  For every random number from 0 up
  to 1, the jittered interval lies between the products of the interval with \<open>0.9\<close> and with
  \<open>1.1\<close>, to the nanosecond and through all roundings, whenever the larger product is a duration
  at all; in particular computing it does not panic.
\<close>

theorem jitter_within_a_tenth:
  assumes "0 \<le> m" "val m e < 1" "mul_f64 interval (tenths 11) = Some longest"
  shows "\<exists>shortest t. mul_f64 interval (tenths 9) = Some shortest \<and> jittered interval (Fin False m e) = Some t \<and>
    shortest \<le> t \<and> t \<le> longest"
proof -
  note f = factor_bounds [OF assms(1,2)]
  obtain t where t: "jittered interval (Fin False m e) = Some t" "t \<le> longest"
    unfolding jittered_def using mul_f64_mono [OF f(2) assms(3)] by blast
  with mul_f64_mono [OF f(1)] show ?thesis unfolding jittered_def by blast
qed

lemma half_hour: "as_secs_f64 1800000000000 = Fin False 1800 0"
proof -
  have "f64_of_nat 1800 = Fin False 1800 0" "f64_of_nat 0 = Fin False 0 0" "f64_of_nat 1000000000 = Fin False 1000000000 0"
    unfolding f64_of_nat_def by (simp_all add: f64_round_exact)
  moreover have "f64_div (Fin False 0 0) (Fin False 1000000000 0) = Fin False 0 0" by code_simp
  moreover have "f64_add (Fin False 1800 0) (Fin False 0 0) = Fin False 1800 0" by code_simp
  ultimately show ?thesis by (simp add: as_secs_f64_def del: f64_div.simps f64_add.simps)
qed

lemma half_hour_products:
  "mul_f64 1800000000000 (tenths 11) = Some 1980000000000" "mul_f64 1800000000000 (tenths 9) = Some 1620000000000"
proof -
  have "f64_mul (tenths 11) (Fin False 1800 0) = Fin False 8708132091985921 (- 42)"
    "f64_mul (tenths 9) (Fin False 1800 0) = Fin False 7124835347988480 (- 42)" by code_simp+
  then show "mul_f64 1800000000000 (tenths 11) = Some 1980000000000" "mul_f64 1800000000000 (tenths 9) = Some 1620000000000"
    unfolding mul_f64_def half_hour by (simp_all add: scale_def round_shift_def Let_def)
qed

theorem jitter_within_a_tenth_witness:
  "\<exists>t. jittered 1800000000000 (Fin False 1 (- 1)) = Some t \<and> 1620000000000 \<le> t \<and> t \<le> 1980000000000"
proof -
  have "val 1 (- 1) < 1" by (simp add: val_def powr_minus)
  with jitter_within_a_tenth [of 1 "- 1" 1800000000000 1980000000000] half_hour_products show ?thesis by auto
qed

text \<open>With the longest duration there is, a factor of one already panics, and with it the task of the loop.\<close>

lemma longest_interval_panics: "jittered 18446744073709551615999999999 (Fin False 1 (- 1)) = None"
proof -
  have "f64_add (tenths 9) (f64_mul (Fin False 1 (- 1)) (tenths 2)) = Fin False 4503599627370496 (- 52)" by code_simp
  moreover have "f64_of_nat 18446744073709551615 = Fin False 9007199254740992 11"
    "f64_of_nat 999999999 = Fin False 999999999 0" "f64_of_nat 1000000000 = Fin False 1000000000 0"
  proof -
    have "f64_round False 18446744073709551615 0 = Fin False 9007199254740992 11" by code_simp
    then show "f64_of_nat 18446744073709551615 = Fin False 9007199254740992 11" by (simp add: f64_of_nat_def)
  qed (simp_all add: f64_of_nat_def f64_round_exact)
  moreover have "f64_mul (Fin False 4503599627370496 (- 52)) (f64_add (Fin False 9007199254740992 11)
      (f64_div (Fin False 999999999 0) (Fin False 1000000000 0))) = Fin False 4503599627370496 12" by code_simp
  ultimately show ?thesis
    by (simp add: jittered_def mul_f64_def as_secs_f64_def scale_def del: f64_div.simps f64_add.simps f64_mul.simps)
qed

end
