(* ===== verification/Server.thy ===== *)
theory Server
  imports Report Reload Telemetry Feeds
begin

text \<open>
  \<open>crates/daemon/src/server.rs\<close>: the handlers of the HTTP server and the middleware around them.
  The router of \<open>axum\<close> and the file service of \<open>tower_http\<close> are outside: a request comes with the
  route it matched and its path parameter decoded, and \<open>serve_dir\<close> answers for a directory.
  Each handler reads the library that is published when the request arrives.
\<close>

datatype route =
    FeedRoute string
  | SubscriptionsRoute
  | HealthzRoute
  | DebugRoute
  | MetricsRoute
  | MediaRoute path
  | ArtworkRoute path
  | NoRoute

record show_health =
  hs_slug :: show_slug
  hs_last_poll_at :: "timestamp option"
  hs_last_poll_ok :: "bool option"
  hs_last_error :: "string option"

datatype body = NoBody | XmlBody xml | TextBody string | HealthBody string "show_health list" | Bytes string

record server_reply =
  sr_status_code :: nat
  sr_content_type :: "string option"
  sr_body :: body

definition status_only :: "nat \<Rightarrow> server_reply" where
  "status_only code = \<lparr>sr_status_code = code, sr_content_type = None, sr_body = NoBody\<rparr>"

definition ok_with :: "string \<Rightarrow> body \<Rightarrow> server_reply" where
  "ok_with content_type b = \<lparr>sr_status_code = 200, sr_content_type = Some content_type, sr_body = b\<rparr>"

text \<open>
  What the handlers use: the host, the published library with its \<open>external_base_url\<close>, \<open>rss\<close>'s
  date format, the JSON text of a report, the text of the metrics, and the file service.
\<close>

record 'u site =
  si_host :: "'u host"
  si_library :: "'u library"
  si_base :: 'u
  si_rfc2822 :: "timestamp \<Rightarrow> string"
  si_json :: "library_report \<Rightarrow> string option"
  si_scrape :: "'u metrics \<Rightarrow> string"
  si_serve_dir :: "path \<Rightarrow> path \<Rightarrow> server_reply"

definition feed_handler :: "'u site \<Rightarrow> string \<Rightarrow> db \<Rightarrow> server_reply" where
  "feed_handler S name d =
     (case strip_suffix ''.xml'' name of
        None \<Rightarrow> status_only 404
      | Some stem \<Rightarrow>
          (case parse_show_slug stem of
             Inl _ \<Rightarrow> status_only 404
           | Inr slug \<Rightarrow>
               (case write_feed (si_host S) (si_library S) (si_base S) slug d of
                  Inr fd \<Rightarrow> ok_with ''application/rss+xml; charset=utf-8''
                    (XmlBody (rss_write (host_url (si_host S)) (si_rfc2822 S) fd))
                | Inl (UnknownShow _) \<Rightarrow> status_only 404
                | Inl (NotSynced _) \<Rightarrow> status_only 404
                | Inl _ \<Rightarrow> status_only 500)))"

definition subscriptions :: "'u site \<Rightarrow> db \<Rightarrow> server_reply" where
  "subscriptions S d =
     (case write_opml (si_host S) (si_library S) (si_base S) d of
        Inr subs \<Rightarrow> ok_with ''text/x-opml; charset=utf-8''
          (XmlBody (opml_write (host_url (si_host S)) ''splicefeed'' subs))
      | Inl _ \<Rightarrow> status_only 500)"

definition show_health_of :: "show_record \<Rightarrow> show_health" where
  "show_health_of sr =
     \<lparr>hs_slug = rs_slug sr, hs_last_poll_at = rs_last_poll_at sr, hs_last_poll_ok = rs_last_poll_ok sr,
      hs_last_error = rs_last_error sr\<rparr>"

definition healthz :: "'u site \<Rightarrow> db \<Rightarrow> server_reply" where
  "healthz S d =
     (case storage_shows (host_codec (si_host S)) d of
        Inr records \<Rightarrow> ok_with ''application/json'' (HealthBody ''ok'' (map show_health_of records))
      | Inl _ \<Rightarrow> status_only 500)"

definition debug :: "'u site \<Rightarrow> db \<Rightarrow> server_reply" where
  "debug S d =
     (case status_report (host_codec (si_host S)) (si_library S) d of
        Inr report \<Rightarrow>
          (case si_json S report of
             Some text \<Rightarrow> ok_with ''application/json'' (TextBody text)
           | None \<Rightarrow> status_only 500)
      | Inl _ \<Rightarrow> status_only 500)"

text \<open>The two directory routes were bound to the data directory the router was built with.\<close>

definition handle :: "'u site \<Rightarrow> path \<Rightarrow> 'u metrics \<Rightarrow> db \<Rightarrow> route \<Rightarrow> server_reply" where
  "handle S data_dir m d r =
     (case r of
        FeedRoute name \<Rightarrow> feed_handler S name d
      | SubscriptionsRoute \<Rightarrow> subscriptions S d
      | HealthzRoute \<Rightarrow> healthz S d
      | DebugRoute \<Rightarrow> debug S d
      | MetricsRoute \<Rightarrow> ok_with ''text/plain; version=0.0.4'' (TextBody (si_scrape S m))
      | MediaRoute p \<Rightarrow> si_serve_dir S (path_join data_dir ''media'') p
      | ArtworkRoute p \<Rightarrow> si_serve_dir S (path_join data_dir ''artwork'') p
      | NoRoute \<Rightarrow> status_only 404)"

text \<open>What the requests change: the counter of the control socket and the metrics.\<close>

record 'u served =
  sd_http_requests :: u64
  sd_metrics :: "'u metrics"

definition request_attrs :: "string \<Rightarrow> nat \<Rightarrow> attrs" where
  "request_attrs method_name code =
     [(''http.request.method'', AttrStr method_name), (''http.response.status_code'', AttrInt (int code))]"

definition respond :: "'u site \<Rightarrow> path \<Rightarrow> string \<Rightarrow> route \<Rightarrow> db \<Rightarrow> 'u served \<Rightarrow> server_reply \<times> 'u served" where
  "respond S data_dir method_name r d sd =
     (let sd = sd\<lparr>sd_http_requests := sd_http_requests sd + 1\<rparr>;
          m = sd_metrics sd; response = handle S data_dir m d r
      in (response, sd\<lparr>sd_metrics := m\<lparr>mt_requests :=
            counter_add 1 (request_attrs method_name (sr_status_code response)) (mt_requests m)\<rparr>\<rparr>))"

section \<open>Facts\<close>

lemma storage_show_found:
  assumes "db_inv X d"
  shows "\<exists>found. storage_show X slug d = Inr found \<and> (found \<noteq> None \<longleftrightarrow> slug_str slug \<in> s_slug ` set (show_rows d))"
proof -
  obtain found where found: "storage_show X slug d = Inr found" using storage_show_total [OF assms] by blast
  have "List.find (is_show slug) (show_rows d) \<noteq> None \<longleftrightarrow> slug_str slug \<in> s_slug ` set (show_rows d)"
    by (force simp: find_None_iff is_show_def)
  with found show ?thesis
    by (auto simp: storage_show_def map_res_Inr_iff split: option.splits)
qed

lemma find_show_configured: "(\<exists>sc. find_show L slug = Inr sc) \<longleftrightarrow> slug \<in> sc_slug ` set (cfg_shows (lib_config L))"
proof -
  have "List.find (\<lambda>sc. sc_slug sc = slug) (cfg_shows (lib_config L)) \<noteq> None \<longleftrightarrow>
      slug \<in> sc_slug ` set (cfg_shows (lib_config L))"
    by (force simp: find_None_iff)
  then show ?thesis
    by (cases "List.find (\<lambda>sc. sc_slug sc = slug) (cfg_shows (lib_config L))") (simp_all add: find_show_def)
qed

lemma find_show_unknown: "find_show L slug = Inl e \<Longrightarrow> e = UnknownShow slug"
  by (cases "List.find (\<lambda>sc. sc_slug sc = slug) (cfg_shows (lib_config L))") (simp_all add: find_show_def)

lemma write_feed_cases:
  assumes "db_inv (host_codec H) d"
  shows "if slug \<in> sc_slug ` set (cfg_shows (lib_config L)) \<and> slug_str slug \<in> s_slug ` set (show_rows d)
    then \<exists>fd. write_feed H L base slug d = Inr fd
    else write_feed H L base slug d = Inl (UnknownShow slug) \<or> write_feed H L base slug d = Inl (NotSynced slug)"
proof (cases "find_show L slug")
  case (Inl e)
  with find_show_unknown [OF Inl] find_show_configured [of L slug] show ?thesis by (simp add: write_feed_def)
next
  case (Inr sc)
  obtain found where found: "storage_show (host_codec H) slug d = Inr found"
    "found \<noteq> None \<longleftrightarrow> slug_str slug \<in> s_slug ` set (show_rows d)" using storage_show_found [OF assms] by blast
  obtain es where "storage_episodes (host_codec H) slug d = Inr es" using storage_episodes_total [OF assms] by blast
  with Inr found find_show_configured [of L slug] show ?thesis
    by (cases found) (auto simp: write_feed_def)
qed

text \<open>The feeds the server answers.\<close>

definition servable :: "'u site \<Rightarrow> db \<Rightarrow> show_slug \<Rightarrow> bool" where
  "servable S d slug \<longleftrightarrow> valid_slug slug \<and> slug \<in> sc_slug ` set (cfg_shows (lib_config (si_library S))) \<and>
     slug_str slug \<in> s_slug ` set (show_rows d)"

lemma feed_status:
  assumes "db_inv (host_codec (si_host S)) d"
  shows "sr_status_code (feed_handler S name d) =
    (if \<exists>slug. name = slug_str slug @ ''.xml'' \<and> servable S d slug then 200 else 404)"
proof (cases "strip_suffix ''.xml'' name")
  case None
  then have "name \<noteq> slug_str slug @ ''.xml''" for slug by (metis option.distinct(1) strip_suffix_eq_Some_iff)
  with None show ?thesis by (simp add: feed_handler_def status_only_def)
next
  case (Some stem)
  then have name: "name = slug_str slug @ ''.xml'' \<longleftrightarrow> slug = ShowSlug stem" for slug
    by (cases slug) (auto simp: strip_suffix_eq_Some_iff)
  show ?thesis
  proof (cases "parse_show_slug stem")
    case (Inl e)
    then have "\<not> valid_slug (ShowSlug stem)" using parse_show_slug_Inr_iff [of stem "ShowSlug stem"]
      by (auto simp: valid_slug_def)
    with Some Inl show ?thesis by (simp add: feed_handler_def status_only_def name servable_def)
  next
    case (Inr slug)
    then have slug: "slug = ShowSlug stem" "valid_slug slug" by (auto simp: parse_show_slug_Inr_iff valid_slug_def)
    with Some Inr write_feed_cases [OF assms, of slug "si_library S" "si_base S"] show ?thesis
      by (auto simp: feed_handler_def status_only_def ok_with_def name servable_def split: if_splits)
  qed
qed

lemma health_shows:
  assumes "db_inv X d" "storage_shows X d = Inr records"
  shows "map (\<lambda>h. slug_str (hs_slug h)) (map show_health_of records) = sort (map s_slug (show_rows d))"
  using listed_shows [OF assms] by (simp add: show_health_of_def comp_def)

lemma record_slugs:
  assumes "db_inv X d" "storage_shows X d = Inr records"
  shows "rs_slug ` set records = {slug. valid_slug slug \<and> slug_str slug \<in> s_slug ` set (show_rows d)}"
proof -
  have valid: "\<forall>sr \<in> set records. valid_slug (rs_slug sr)"
  proof
    fix sr assume "sr \<in> set records"
    then obtain r where "decode_show X r = Inr sr"
      using assms(2) by (fastforce simp: storage_shows_def collect_res_Inr_iff list_all2_conv_all_nth in_set_conv_nth)
    then show "valid_slug (rs_slug sr)"
      by (auto simp: decode_show_def bind_res_Inr_iff parse_col_Inr_iff parse_show_slug_Inr_iff valid_slug_def)
  qed
  have "set (map (\<lambda>sr. slug_str (rs_slug sr)) records) = s_slug ` set (show_rows d)"
    by (simp only: listed_shows [OF assms] set_sort set_map)
  then have "slug \<in> rs_slug ` set records \<longleftrightarrow> slug_str slug \<in> s_slug ` set (show_rows d)" for slug
    by (simp add: image_iff set_eq_iff slug_str_inj) (metis slug_str_inj)
  with valid show ?thesis by blast
qed

lemma bex_map_filter: "(\<exists>y \<in> set (List.map_filter f xs). P y) \<longleftrightarrow> (\<exists>x \<in> set xs. \<exists>y. f x = Some y \<and> P y)"
  unfolding Bex_def in_map_filter by blast

lemma subscription_urls:
  assumes "db_inv (host_codec (si_host S)) d"
    "write_opml (si_host S) (si_library S) (si_base S) d = Inr subs"
  shows "sub_feed_url ` set subs = {url. \<exists>slug. servable S d slug \<and>
    under (host_url (si_host S)) (si_base S) [''feeds'', slug_str slug @ ''.xml''] = Some url}"
proof -
  obtain records where records: "storage_shows (host_codec (si_host S)) d = Inr records"
    using storage_shows_total [OF assms(1)] by blast
  have known: "slug \<in> sc_slug ` set (cfg_shows (lib_config (si_library S))) \<longleftrightarrow> (\<exists>sc. ok (find_show (si_library S) slug) = Some sc)"
    for slug unfolding find_show_configured [symmetric] by (cases "find_show (si_library S) slug") simp_all
  let ?f = "\<lambda>sr. Option.bind (ok (find_show (si_library S) (rs_slug sr))) (\<lambda>sc.
     Option.bind (under (host_url (si_host S)) (si_base S) [''feeds'', slug_str (rs_slug sr) @ ''.xml'']) (\<lambda>url.
     Some \<lparr>sub_title = unwrap_or (rs_title sr) (sc_title sc), sub_feed_url = url\<rparr>))"
  have f: "subs = List.map_filter ?f records" using assms(2) by (simp add: write_opml_def records)
  have some: "?f sr = Some sub \<longleftrightarrow> (\<exists>sc url. ok (find_show (si_library S) (rs_slug sr)) = Some sc \<and>
       under (host_url (si_host S)) (si_base S) [''feeds'', slug_str (rs_slug sr) @ ''.xml''] = Some url \<and>
       sub = \<lparr>sub_title = unwrap_or (rs_title sr) (sc_title sc), sub_feed_url = url\<rparr>)" for sr sub
    by (auto simp: bind_eq_Some_conv)
  have listed: "(\<exists>sub \<in> set subs. sub_feed_url sub = url) \<longleftrightarrow> (\<exists>sr \<in> set records.
      rs_slug sr \<in> sc_slug ` set (cfg_shows (lib_config (si_library S))) \<and>
      under (host_url (si_host S)) (si_base S) [''feeds'', slug_str (rs_slug sr) @ ''.xml''] = Some url)" for url
    unfolding f bex_map_filter some known by (intro bex_cong refl) auto
  have recs: "(\<exists>sr \<in> set records. P (rs_slug sr)) \<longleftrightarrow> (\<exists>slug. valid_slug slug \<and> slug_str slug \<in> s_slug ` set (show_rows d) \<and> P slug)"
    for P
  proof -
    have "(\<exists>sr \<in> set records. P (rs_slug sr)) \<longleftrightarrow> (\<exists>slug \<in> rs_slug ` set records. P slug)" by simp
    then show ?thesis by (simp only: record_slugs [OF assms(1) records]) simp
  qed
  show ?thesis
  proof (intro set_eqI)
    fix url
    have "url \<in> sub_feed_url ` set subs \<longleftrightarrow> (\<exists>sub \<in> set subs. sub_feed_url sub = url)" by auto
    also note listed
    also note recs [of "\<lambda>slug. slug \<in> sc_slug ` set (cfg_shows (lib_config (si_library S))) \<and>
      under (host_url (si_host S)) (si_base S) [''feeds'', slug_str slug @ ''.xml''] = Some url"]
    finally show "url \<in> sub_feed_url ` set subs \<longleftrightarrow> url \<in> {url. \<exists>slug. servable S d slug \<and>
      under (host_url (si_host S)) (si_base S) [''feeds'', slug_str slug @ ''.xml''] = Some url}"
      by (simp only: servable_def mem_Collect_eq) blast
  qed
qed

section \<open>Properties\<close>

text \<open>
  C30: The server answers every request from the state it is in.  Over a database with the
  invariant no route but \<open>/debug\<close> (and there only when the report has no JSON form) answers with
  an internal error.  A feed name is found exactly when it is the slug of a configured and
  synced show with \<open>.xml\<close> after it; anything else is 404.  The subscription list names exactly
  the URLs of the feeds found that way; \<open>/healthz\<close> lists every stored show by slug.  Each request
  raises the request counter and the histogram entry of its method and status by one.
\<close>

theorem server_answers:
  fixes sd :: "'u served"
  assumes "db_inv (host_codec (si_host S)) d"
  shows "(\<forall>name. sr_status_code (handle S dir m d (FeedRoute name)) =
      (if \<exists>slug. name = slug_str slug @ ''.xml'' \<and> servable S d slug then 200 else 404)) \<and>
    (\<exists>subs. handle S dir m d SubscriptionsRoute = ok_with ''text/x-opml; charset=utf-8''
        (XmlBody (opml_write (host_url (si_host S)) ''splicefeed'' subs)) \<and>
      sub_feed_url ` set subs = {url. \<exists>slug. servable S d slug \<and>
        under (host_url (si_host S)) (si_base S) [''feeds'', slug_str slug @ ''.xml''] = Some url}) \<and>
    (\<exists>hs. handle S dir m d HealthzRoute = ok_with ''application/json'' (HealthBody ''ok'' hs) \<and>
      map (\<lambda>h. slug_str (hs_slug h)) hs = sort (map s_slug (show_rows d))) \<and>
    (\<exists>rep. status_report (host_codec (si_host S)) (si_library S) d = Inr rep \<and>
      sr_status_code (handle S dir m d DebugRoute) = (if si_json S rep = None then 500 else 200)) \<and>
    (\<forall>r verb. sd_http_requests (snd (respond S dir verb r d sd)) = sd_http_requests sd + 1 \<and>
      (let a = request_attrs verb (sr_status_code (fst (respond S dir verb r d sd))) in
        mt_requests (sd_metrics (snd (respond S dir verb r d sd))) a = mt_requests (sd_metrics sd) a + 1))"
proof -
  obtain records where records: "storage_shows (host_codec (si_host S)) d = Inr records"
    using storage_shows_total [OF assms] by blast
  then obtain subs where subs: "write_opml (si_host S) (si_library S) (si_base S) d = Inr subs"
    by (simp add: write_opml_def)
  obtain rep where rep: "status_report (host_codec (si_host S)) (si_library S) d = Inr rep"
    using status_report_total [OF assms] by blast
  note feed = feed_status [OF assms]
  have "sd_http_requests (snd (respond S dir verb r d sd)) = sd_http_requests sd + 1 \<and>
      (let a = request_attrs verb (sr_status_code (fst (respond S dir verb r d sd))) in
        mt_requests (sd_metrics (snd (respond S dir verb r d sd))) a = mt_requests (sd_metrics sd) a + 1)" for r verb
    by (simp add: respond_def Let_def counter_add_def)
  with subscription_urls [OF assms subs] health_shows [OF assms records] feed show ?thesis
    by (auto simp: handle_def subscriptions_def subs healthz_def records debug_def rep ok_with_def status_only_def
        split: option.split)
qed

definition demo_site :: "tuple_url site" where
  "demo_site = \<lparr>si_host = demo_host, si_library = demo_library, si_base = (''http://h'', [], []), si_rfc2822 = (\<lambda>t. []),
     si_json = (\<lambda>r. Some ''{}''), si_scrape = (\<lambda>m. []), si_serve_dir = (\<lambda>root p. status_only 404)\<rparr>"

theorem server_answers_witness:
  "\<forall>m. sr_status_code (handle demo_site ''/data'' m demo_db (FeedRoute (slug_str demo_slug @ ''.xml''))) = 200 \<and>
   sr_status_code (handle demo_site ''/data'' m demo_db (FeedRoute ''feed.json'')) = 404"
proof -
  have inv: "db_inv (host_codec (si_host demo_site)) demo_db" by (simp add: demo_site_def demo_host_def demo_db_inv)
  have slug: "servable demo_site demo_db demo_slug"
    by (simp add: servable_def demo_site_def demo_library_def demo_slug_valid) (simp add: demo_db_def)
  moreover have "''feed.json'' \<noteq> slug_str slug @ ''.xml''" for slug
    using strip_suffix_eq_Some_iff [of "''.xml''" "''feed.json''" "slug_str slug"] by (simp add: strip_suffix_def)
  moreover note feeds = conjunct1 [OF server_answers [OF inv, where dir = "''/data''"]]
  ultimately show ?thesis using slug by (intro allI conjI) (simp only: feeds, metis)+
qed

end
