(* ===== verification/Tui.thy ===== *)
theory Tui
  imports Control
begin

text \<open>
  \<open>crates/daemon/src/tui.rs\<close>: the live view.  Its state, the loop that updates it from the clock,
  the control socket and the keyboard, the task that reads the socket, and one frame as the texts
  and styles that are handed to \<open>ratatui\<close>.  Formatting of sizes, spans and dates belongs to
  \<open>humansize\<close>, \<open>humantime\<close> and \<open>jiff\<close>.
\<close>

record texts =
  tx_size :: "u64 \<Rightarrow> string"
  tx_span :: "nat \<Rightarrow> string"
  tx_stamp :: "timestamp \<Rightarrow> string"

section \<open>State\<close>

record app =
  ap_report :: library_report
  ap_selected :: nat
  ap_vitals :: "snapshot option"
  ap_events :: "string list"

definition event_log :: nat where
  "event_log = 100"

definition clamp :: "app \<Rightarrow> app" where
  "clamp a = a\<lparr>ap_selected := min (ap_selected a) (length (st_shows (ap_report a)) - 1)\<rparr>"

definition select_next :: "app \<Rightarrow> app" where
  "select_next a = a\<lparr>ap_selected := min (ap_selected a + 1) (length (st_shows (ap_report a)) - 1)\<rparr>"

definition select_prev :: "app \<Rightarrow> app" where
  "select_prev a = a\<lparr>ap_selected := ap_selected a - 1\<rparr>"

definition episode_path :: "show_slug \<Rightarrow> episode_id \<Rightarrow> string" where
  "episode_path slug i = slug_str slug @ ''/'' @ id_str i"

fun event_text :: "texts \<Rightarrow> known_event \<Rightarrow> string" where
  "event_text T (PollStarted slug) = ''poll started: '' @ slug_str slug"
| "event_text T (PollFinished slug good n) =
     (if good then ''poll ok: '' @ slug_str slug @ '' ('' @ show_nat (unat n) @ '' new)''
      else ''poll FAILED: '' @ slug_str slug)"
| "event_text T (EpisodeDiscovered slug i) = ''discovered: '' @ episode_path slug i"
| "event_text T (DownloadFinished slug i err) =
     (case err of
        None \<Rightarrow> ''downloaded: '' @ episode_path slug i
      | Some cls \<Rightarrow> ''download FAILED ('' @ error_class_display cls @ ''): '' @ episode_path slug i)"
| "event_text T (EpisodesPruned slug n freed) =
     ''pruned: '' @ slug_str slug @ '' ('' @ show_nat (unat n) @ '' episode(s), '' @ tx_size T freed @ '' freed)''"
| "event_text T (Quarantined provider p) =
     ''QUARANTINED ('' @ provider @ ''): '' @ unwrap_or ''<write failed>'' p"

text \<open>\<open>now\<close> is the time of day as text.\<close>

definition describe :: "texts \<Rightarrow> string \<Rightarrow> known_event \<Rightarrow> string" where
  "describe T now e = now @ ''  '' @ event_text T e"

definition push_event :: "string \<Rightarrow> app \<Rightarrow> app" where
  "push_event line a =
     a\<lparr>ap_events := (if length (ap_events a) = event_log then tl (ap_events a) else ap_events a) @ [line]\<rparr>"

section \<open>The control-socket reader\<close>

datatype live = LiveSnapshot snapshot | LiveEvent known_event | LiveGone

fun follow_lines :: "(string \<Rightarrow> response option) \<Rightarrow> (string \<Rightarrow> 'j event option) \<Rightarrow> line_read list \<Rightarrow> live list" where
  "follow_lines read_response read_ev [] = [LiveGone]"
| "follow_lines read_response read_ev (ReadError err # rest) = [LiveGone]"
| "follow_lines read_response read_ev (Line line # rest) =
     (case read_response line of
        Some (RespSnapshot sn) \<Rightarrow> LiveSnapshot sn # follow_lines read_response read_ev rest
      | _ \<Rightarrow>
          (case read_ev line of
             Some (KnownEvent e) \<Rightarrow> LiveEvent e # follow_lines read_response read_ev rest
           | _ \<Rightarrow> follow_lines read_response read_ev rest))"

definition compatible :: "(string \<Rightarrow> hello option) \<Rightarrow> line_read list \<Rightarrow> bool" where
  "compatible read_hello lines_in =
     (case lines_in of
        Line line # _ \<Rightarrow> (case read_hello line of Some h \<Rightarrow> he_protocol_version h = protocol_version | None \<Rightarrow> False)
      | _ \<Rightarrow> False)"

text \<open>
  What the reader sends to the render loop, which may stop receiving after some messages; the
  first failed send ends the reader.
\<close>

definition follow_control_socket :: "(string \<Rightarrow> hello option) \<Rightarrow> (string \<Rightarrow> response option) \<Rightarrow> (string \<Rightarrow> 'j event option)
    \<Rightarrow> bool \<Rightarrow> bool \<Rightarrow> line_read list \<Rightarrow> nat option \<Rightarrow> live list" where
  "follow_control_socket read_hello read_response read_ev connects writes lines_in receives =
     (let sent = (if \<not> connects then [LiveGone]
                  else if \<not> compatible read_hello lines_in \<or> \<not> writes then [LiveGone]
                  else follow_lines read_response read_ev (tl lines_in))
      in case receives of None \<Rightarrow> sent | Some n \<Rightarrow> take n sent)"

section \<open>The loop\<close>

datatype key = KeyChar char | KeyEsc | KeyDown | KeyUp | KeyOther

datatype tui_input =
    Tick
  | LiveRecv "live option"
  | Press key bool \<comment> \<open>with the control modifier\<close>
  | OtherTerminal
  | TerminalClosed

text \<open>An iteration of the loop: the branch that was ready, the time of day, and the database then.\<close>

record tui_step =
  ts_input :: tui_input
  ts_now :: string
  ts_db :: db

datatype 'u watching = Running app | Quit | Crashed "'u library_error"

definition refresh :: "codec \<Rightarrow> 'u library \<Rightarrow> db \<Rightarrow> app \<Rightarrow> 'u watching" where
  "refresh X L d a =
     (case status_report X L d of
        Inl err \<Rightarrow> Crashed err
      | Inr rep \<Rightarrow> Running (clamp (a\<lparr>ap_report := rep\<rparr>)))"

definition press :: "codec \<Rightarrow> 'u library \<Rightarrow> db \<Rightarrow> key \<Rightarrow> bool \<Rightarrow> app \<Rightarrow> 'u watching" where
  "press X L d k control a =
     (if k = KeyChar CHR ''q'' \<or> k = KeyEsc then Quit
      else if k = KeyChar CHR ''c'' \<and> control then Quit
      else if k = KeyDown \<or> k = KeyChar CHR ''j'' then Running (select_next a)
      else if k = KeyUp \<or> k = KeyChar CHR ''k'' then Running (select_prev a)
      else if k = KeyChar CHR ''r'' then refresh X L d a
      else Running a)"

definition run_step :: "texts \<Rightarrow> codec \<Rightarrow> 'u library \<Rightarrow> tui_step \<Rightarrow> app \<Rightarrow> 'u watching" where
  "run_step T X L st a =
     (case ts_input st of
        Tick \<Rightarrow> refresh X L (ts_db st) a
      | LiveRecv (Some (LiveSnapshot sn)) \<Rightarrow> Running (a\<lparr>ap_vitals := Some sn\<rparr>)
      | LiveRecv (Some (LiveEvent e)) \<Rightarrow> refresh X L (ts_db st) (push_event (describe T (ts_now st) e) a)
      | LiveRecv (Some LiveGone) \<Rightarrow> Running (a\<lparr>ap_vitals := None\<rparr>)
      | LiveRecv None \<Rightarrow> Running a
      | Press k control \<Rightarrow> press X L (ts_db st) k control a
      | OtherTerminal \<Rightarrow> Running a
      | TerminalClosed \<Rightarrow> Quit)"

fun run_loop :: "texts \<Rightarrow> codec \<Rightarrow> 'u library \<Rightarrow> tui_step list \<Rightarrow> 'u watching \<Rightarrow> 'u watching" where
  "run_loop T X L [] w = w"
| "run_loop T X L (st # sts) (Running a) = run_loop T X L sts (run_step T X L st a)"
| "run_loop T X L (st # sts) w = w"

definition watch :: "texts \<Rightarrow> codec \<Rightarrow> 'u library \<Rightarrow> db \<Rightarrow> tui_step list \<Rightarrow> 'u watching" where
  "watch T X L d sts =
     (case status_report X L d of
        Inl err \<Rightarrow> Crashed err
      | Inr rep \<Rightarrow>
          run_loop T X L sts (Running \<lparr>ap_report = rep, ap_selected = 0, ap_vitals = None, ap_events = []\<rparr>))"

section \<open>The keyboard\<close>

text \<open>
  Reading the terminal blocks, so a thread of its own does it.  One turn of the thread: what
  \<open>poll\<close> says after its 200 ms (an error counts as nothing there), what \<open>read\<close> then returns, and
  whether the loop has dropped its end of the channel.  The thread sends what it read and stops
  at a failed read or at a channel that is closed.
\<close>

datatype 'e poll_result = PollError | NoInput | Input "'e option"

record 'e thread_turn =
  tt_poll :: "'e poll_result"
  tt_closed :: bool

fun keyboard_thread :: "'e thread_turn list \<Rightarrow> 'e list \<times> bool" where
  "keyboard_thread [] = ([], False)"
| "keyboard_thread (t # ts) =
     (case tt_poll t of
        Input None \<Rightarrow> ([], True)
      | Input (Some e) \<Rightarrow>
          if tt_closed t then ([], True)
          else (case keyboard_thread ts of (es, stopped) \<Rightarrow> (e # es, stopped))
      | _ \<Rightarrow> if tt_closed t then ([], True) else keyboard_thread ts)"

definition read_of :: "'e thread_turn \<Rightarrow> 'e option" where
  "read_of t = (case tt_poll t of Input r \<Rightarrow> r | _ \<Rightarrow> None)"

definition stops :: "'e thread_turn \<Rightarrow> bool" where
  "stops t \<longleftrightarrow> tt_closed t \<or> tt_poll t = Input None"

text \<open>What is typed before the thread stops arrives, in order and once.\<close>

lemma keyboard_forwards:
  "keyboard_thread ts =
     (List.map_filter read_of (takeWhile (\<lambda>t. \<not> stops t) ts), list_ex stops ts)"
proof (induction ts)
  case (Cons t ts)
  have turn: "stops t \<longleftrightarrow> tt_closed t \<or> tt_poll t = Input None"
    "read_of t = (case tt_poll t of Input r \<Rightarrow> r | _ \<Rightarrow> None)"
    by (simp_all add: stops_def read_of_def)
  show ?case
  proof (cases "tt_poll t")
    case PollError
    then show ?thesis by (cases "tt_closed t") (simp_all add: turn map_filter_simps Cons)
  next
    case NoInput
    then show ?thesis by (cases "tt_closed t") (simp_all add: turn map_filter_simps Cons)
  next
    case (Input r)
    then show ?thesis by (cases r; cases "tt_closed t") (simp_all add: turn map_filter_simps Cons)
  qed
qed (simp add: map_filter_simps)

text \<open>
  A terminal that cannot even be polled does not end the thread, and so does not end the view:
  the branch of the loop for a closed terminal is taken after a failed read only.
\<close>

lemma keyboard_ignores_poll_errors:
  "\<forall>t \<in> set ts. tt_poll t = PollError \<and> \<not> tt_closed t \<Longrightarrow> keyboard_thread ts = ([], False)"
proof (induction ts)
  case (Cons t ts)
  then have "keyboard_thread ts = ([], False)" "tt_poll t = PollError" "\<not> tt_closed t"
    by (metis list.set_intros(2), metis list.set_intros(1), metis list.set_intros(1))
  then show ?case by simp
qed simp

section \<open>A frame\<close>

datatype text_style = Plain | Dim | Green | Yellow | Red | RedBold

type_synonym cell = "string \<times> text_style"

datatype height = Fixed u16 | AtLeast u16

record table =
  tb_title :: string
  tb_header :: "string list"
  tb_rows :: "(cell list \<times> bool) list" \<comment> \<open>with the reversed style\<close>

record frame =
  fr_heights :: "height list"
  fr_header :: string
  fr_downloads :: "table option"
  fr_shows :: table
  fr_episodes :: "string + table" \<comment> \<open>or the hint shown without shows\<close>
  fr_log :: "string list option"
  fr_footer :: string

definition active_downloads :: "library_report \<Rightarrow> (show_slug \<times> episode_status) list" where
  "active_downloads rep =
     concat (map (\<lambda>r. map (\<lambda>e. (sh_slug r, e)) (filter (\<lambda>e. es_state e = Downloading) (sh_episodes r))) (st_shows rep))"

definition is_failed :: "episode_state \<Rightarrow> bool" where
  "is_failed st \<longleftrightarrow> (case st of Failed _ \<Rightarrow> True | _ \<Rightarrow> False)"

definition count_states :: "show_report \<Rightarrow> nat \<times> nat" where
  "count_states r =
     (length (filter (\<lambda>e. es_state e = Cached) (sh_episodes r)),
      length (filter (\<lambda>e. is_failed (es_state e)) (sh_episodes r)))"

text \<open>\<open>STALL_AFTER\<close>, and progress as old as that; \<open>since\<close> counts whole seconds.\<close>

definition stall_after :: nat where
  "stall_after = 10"

definition stalled :: "timestamp \<Rightarrow> episode_status \<Rightarrow> bool" where
  "stalled now e = (case es_progress_at e of None \<Rightarrow> True | Some at \<Rightarrow> int stall_after \<le> (now - at) div 1000000000)"

text \<open>\<open>{:>3.0}\<close> of a float: the nearest integer, ties to even, padded on the left to three characters.\<close>

definition pad_left :: "nat \<Rightarrow> string \<Rightarrow> string" where
  "pad_left n s = replicate (n - length s) CHR '' '' @ s"

definition f64_whole :: "f64 \<Rightarrow> string" where
  "f64_whole x =
     (case x of
        NaN \<Rightarrow> ''NaN''
      | Inf s \<Rightarrow> if s then ''-inf'' else ''inf''
      | Fin s m e \<Rightarrow> (if s then ''-'' else '''') @
          show_nat (nat (if 0 \<le> e then m * 2 ^ nat e else round_shift m (nat (- e)))))"

definition percent_text :: "u64 option \<Rightarrow> u64 option \<Rightarrow> string" where
  "percent_text finished whole =
     (case (finished, whole) of
        (Some b, Some n) \<Rightarrow>
          if 0 < n
          then pad_left 3 (f64_whole (f64_mul (f64_div (f64_of_nat (unat b)) (f64_of_nat (unat n))) (f64_of_nat 100))) @ ''%''
          else ''  ?%''
      | _ \<Rightarrow> ''  ?%'')"

definition or_mark :: "string \<Rightarrow> ('a \<Rightarrow> string) \<Rightarrow> 'a option \<Rightarrow> string" where
  "or_mark mark f x = (case x of None \<Rightarrow> mark | Some a \<Rightarrow> f a)"

text \<open>The UTF-8 bytes of the middle dot, the em dash and the two arrows.\<close>

definition mid_dot :: string where
  "mid_dot = [CHR 0xC2, CHR 0xB7]"

definition em_dash :: string where
  "em_dash = [CHR 0xE2, CHR 0x80, CHR 0x94]"

definition arrows :: string where
  "arrows = [CHR 0xE2, CHR 0x86, CHR 0x91, CHR ''/'', CHR 0xE2, CHR 0x86, CHR 0x93]"

definition dotted :: "string list \<Rightarrow> string" where
  "dotted parts = join ('' '' @ mid_dot @ '' '') parts"

definition draw_downloads :: "texts \<Rightarrow> timestamp \<Rightarrow> app \<Rightarrow> (show_slug \<times> episode_status) list \<Rightarrow> table" where
  "draw_downloads T now a active =
     \<lparr>tb_title = ''downloads ('' @ show_nat (min (length active) (st_download_concurrency (ap_report a))) @ ''/'' @
        show_nat (st_download_concurrency (ap_report a)) @ '' slots)'',
      tb_header = [],
      tb_rows = map (\<lambda>(slug, e).
        ([(episode_path slug (es_id e), Plain), (percent_text (es_bytes_done e) (es_bytes_total e), Yellow),
          (or_mark ''?'' (tx_size T) (es_bytes_done e) @ '' / '' @ or_mark ''?'' (tx_size T) (es_bytes_total e), Plain),
          (if stalled now e then (''stalled'', RedBold) else (''active'', Green))], False)) active\<rparr>"

definition poll_cell :: "texts \<Rightarrow> show_report \<Rightarrow> cell" where
  "poll_cell T r =
     (case (sh_last_poll_at r, sh_last_poll_ok r) of
        (Some at, Some True) \<Rightarrow> (tx_stamp T at, Green)
      | (Some at, Some False) \<Rightarrow> (tx_stamp T at @ '' FAILED'', RedBold)
      | _ \<Rightarrow> (''never polled'', Yellow))"

definition draw_shows :: "texts \<Rightarrow> app \<Rightarrow> table" where
  "draw_shows T a =
     \<lparr>tb_title = ''shows'', tb_header = [''show'', ''last poll'', ''cached'', ''failed''],
      tb_rows = map (\<lambda>(i, r). case count_states r of (cached, failed) \<Rightarrow>
        ([(slug_str (sh_slug r), Plain), poll_cell T r,
          (show_nat cached @ '' ('' @ tx_size T (sh_cached_bytes r) @ '')'', Green),
          (show_nat failed, if 0 < failed then Red else Dim)], i = ap_selected a))
        (List.enumerate 0 (st_shows (ap_report a)))\<rparr>"

fun state_cell :: "episode_state \<Rightarrow> cell" where
  "state_cell Cached = (''cached'', Green)"
| "state_cell Discovered = (''discovered'', Dim)"
| "state_cell Downloading = (''downloading'', Yellow)"
| "state_cell Pruned = (''pruned'', Dim)"
| "state_cell (Failed cls) = (''failed'', Red)"

definition draw_episodes :: "texts \<Rightarrow> show_report \<Rightarrow> table" where
  "draw_episodes T r =
     \<lparr>tb_title = ''episodes '' @ em_dash @ '' '' @ slug_str (sh_slug r),
      tb_header = [''episode'', ''state'', ''size'', ''length'', ''downloaded'', ''description''],
      tb_rows = map (\<lambda>e.
        ([(id_str (es_id e), Plain), state_cell (es_state e), (or_mark em_dash (tx_size T) (es_bytes e), Plain),
          (or_mark em_dash (\<lambda>secs. tx_span T (unat secs)) (es_duration_secs e), Plain),
          (or_mark em_dash (tx_stamp T) (es_downloaded_at e), Plain),
          (unwrap_or em_dash (es_description e), Dim)], False)) (sh_episodes r)\<rparr>"

text \<open>Lengths are cast to \<open>u16\<close> before the border is added.\<close>

definition downloads_height :: "nat \<Rightarrow> u16" where
  "downloads_height n = (if n = 0 then 0 else min (of_nat n + 2) 6)"

definition log_height :: "app \<Rightarrow> u16" where
  "log_height a = (if ap_vitals a \<noteq> None \<or> ap_events a \<noteq> [] then 7 else 0)"

definition vitals_text :: "texts \<Rightarrow> snapshot option \<Rightarrow> string" where
  "vitals_text T v =
     (case v of
        Some sn \<Rightarrow> '' '' @ mid_dot @ '' daemon up '' @ tx_span T (unat (sn_uptime_secs sn)) @ '' '' @ mid_dot @ '' '' @
          show_nat (unat (sn_http_requests sn)) @ '' http req''
      | None \<Rightarrow> '' '' @ mid_dot @ '' daemon offline'')"

text \<open>The last \<open>n\<close> entries, in order.\<close>

definition newest :: "nat \<Rightarrow> 'a list \<Rightarrow> 'a list" where
  "newest n xs = rev (take n (rev xs))"

definition draw :: "texts \<Rightarrow> timestamp \<Rightarrow> app \<Rightarrow> frame" where
  "draw T now a =
     (let rep = ap_report a; active = active_downloads rep; log = log_height a in
      \<lparr>fr_heights = [Fixed 1, Fixed (downloads_height (length active)),
         Fixed (min (of_nat (length (st_shows rep)) + 3) 12), AtLeast 4, Fixed log, Fixed 1],
       fr_header = '' splicefeed  '' @ dotted [show_nat (st_total_files rep) @ '' file(s)'', tx_size T (st_total_bytes rep),
         show_nat (st_download_concurrency rep) @ '' download slot(s)'' @ vitals_text T (ap_vitals a)],
       fr_downloads = (if active = [] then None else Some (draw_downloads T now a active)),
       fr_shows = draw_shows T a,
       fr_episodes =
         (if ap_selected a < length (st_shows rep) then Inr (draw_episodes T (st_shows rep ! ap_selected a))
          else Inl (''no shows in storage yet '' @ em_dash @ '' run `splicefeed run --once` first'')),
       fr_log = (if 0 < log then Some (newest (unat (log - 2)) (ap_events a)) else None),
       fr_footer = '' '' @ dotted [arrows @ '' select'', ''r refresh'', ''q quit'']\<rparr>)"

section \<open>Facts\<close>

lemma newest_drop: "newest n xs = drop (length xs - n) xs"
  by (simp add: newest_def rev_take)

lemma newest_snoc:
  "0 < n \<Longrightarrow> (if length (newest n xs) = n then tl (newest n xs) else newest n xs) @ [x] = newest n (xs @ [x])"
  by (auto simp: newest_drop tl_drop Suc_diff_le drop_Suc [symmetric] not_le)

text \<open>What an iteration adds to the event log, and the vitals it leaves.\<close>

definition logged :: "texts \<Rightarrow> tui_step \<Rightarrow> string list" where
  "logged T st = (case ts_input st of LiveRecv (Some (LiveEvent e)) \<Rightarrow> [describe T (ts_now st) e] | _ \<Rightarrow> [])"

definition heard :: "tui_step \<Rightarrow> snapshot option \<Rightarrow> snapshot option" where
  "heard st v =
     (case ts_input st of
        LiveRecv (Some (LiveSnapshot sn)) \<Rightarrow> Some sn
      | LiveRecv (Some LiveGone) \<Rightarrow> None
      | _ \<Rightarrow> v)"

text \<open>The iterations that read the database again.\<close>

definition refreshes :: "tui_step \<Rightarrow> bool" where
  "refreshes st \<longleftrightarrow>
     (case ts_input st of
        Tick \<Rightarrow> True
      | LiveRecv (Some (LiveEvent e)) \<Rightarrow> True
      | Press k control \<Rightarrow> k = KeyChar CHR ''r''
      | _ \<Rightarrow> False)"

definition selected_ok :: "app \<Rightarrow> bool" where
  "selected_ok a \<longleftrightarrow> ap_selected a \<le> length (st_shows (ap_report a)) - 1"

lemma refresh_cases:
  fixes L :: "'u library"
  assumes "db_inv X d"
  obtains rep where "status_report X L d = Inr rep" "refresh X L d a = Running (clamp (a\<lparr>ap_report := rep\<rparr>))"
  using status_report_total [OF assms, of L] by (auto simp: refresh_def)

lemma run_step_effect:
  fixes L :: "'u library"
  assumes "db_inv X (ts_db st)" "selected_ok a" "run_step T X L st a = w"
  shows "(case w of
      Running b \<Rightarrow> selected_ok b \<and> ap_vitals b = heard st (ap_vitals a) \<and>
        ap_events b = (case logged T st of [] \<Rightarrow> ap_events a | line # _ \<Rightarrow> ap_events (push_event line a)) \<and>
        (if refreshes st then status_report X L (ts_db st) = Inr (ap_report b) else ap_report b = ap_report a)
    | Quit \<Rightarrow> True
    | Crashed err \<Rightarrow> False)"
proof -
  obtain rep where "status_report X L (ts_db st) = Inr rep" using status_report_total [OF assms(1)] by blast
  then have refresh: "refresh X L (ts_db st) b = Running (clamp (b\<lparr>ap_report := rep\<rparr>))" for b by (simp add: refresh_def)
  show ?thesis
  proof (cases "ts_input st")
    case (LiveRecv l)
    show ?thesis
    proof (cases l)
      case (Some x)
      with LiveRecv assms(2,3) \<open>status_report X L (ts_db st) = Inr rep\<close> show ?thesis
        by (cases x) (auto simp: run_step_def refresh logged_def heard_def refreshes_def selected_ok_def clamp_def push_event_def)
    qed (use LiveRecv assms(2,3) in \<open>auto simp: run_step_def logged_def heard_def refreshes_def selected_ok_def\<close>)
  qed (use assms(2,3) \<open>status_report X L (ts_db st) = Inr rep\<close> in \<open>auto simp: run_step_def press_def refresh logged_def
      heard_def refreshes_def selected_ok_def clamp_def select_next_def select_prev_def\<close>)
qed

lemma run_loop_stuck [simp]: "run_loop T X L sts Quit = Quit" "run_loop T X L sts (Crashed err) = Crashed err"
  by (cases sts; simp)+

lemma run_loop_snoc:
  "run_loop T X L (sts @ [st]) w = (case run_loop T X L sts w of Running a \<Rightarrow> run_step T X L st a | v \<Rightarrow> v)"
  by (induction T X L sts w rule: run_loop.induct) (auto split: watching.split)

section \<open>Properties\<close>

text \<open>
  C32: The view survives everything and stays true.  Whatever the clock, the socket and the
  keyboard deliver, in any order, while the databases it reads have the invariant, the view
  never crashes; and while it runs, the selection stays on an existing show (or on none, when
  there is none), the event log is the newest hundred of all events heard, oldest first, the
  vitals are those of the last snapshot since the socket was lost, and the report shown is that
  of a database state it has read, the present one right after an iteration that refreshes.
\<close>

theorem watch_stays_true:
  fixes L :: "'u library"
  assumes "db_inv X d" "\<forall>st \<in> set sts. db_inv X (ts_db st)"
  shows "(case watch T X L d sts of
      Running a \<Rightarrow>
        ap_selected a \<le> length (st_shows (ap_report a)) - 1 \<and>
        ap_events a = newest 100 (concat (map (logged T) sts)) \<and>
        ap_vitals a = fold heard sts None \<and>
        (\<exists>d' \<in> insert d (ts_db ` set sts). status_report X L d' = Inr (ap_report a)) \<and>
        (\<forall>st rest. sts = rest @ [st] \<longrightarrow> refreshes st \<longrightarrow> status_report X L (ts_db st) = Inr (ap_report a))
    | Quit \<Rightarrow> True
    | Crashed err \<Rightarrow> False)"
  using assms(2)
proof (induction sts rule: rev_induct)
  case Nil
  obtain rep where "status_report X L d = Inr rep" using status_report_total [OF assms(1)] by blast
  then show ?case by (simp add: watch_def newest_def)
next
  case (snoc st sts)
  have inv: "db_inv X (ts_db st)" using snoc.prems by simp
  obtain rep where rep: "status_report X L d = Inr rep" using status_report_total [OF assms(1)] by blast
  have step: "watch T X L d (sts @ [st]) = (case watch T X L d sts of Running a \<Rightarrow> run_step T X L st a | v \<Rightarrow> v)"
    by (simp add: watch_def rep run_loop_snoc)
  show ?case
  proof (cases "watch T X L d sts")
    case (Running a)
    have IH: "selected_ok a" "ap_events a = newest 100 (concat (map (logged T) sts))" "ap_vitals a = fold heard sts None"
      "\<exists>d' \<in> insert d (ts_db ` set sts). status_report X L d' = Inr (ap_report a)"
      using snoc Running by (simp_all add: selected_ok_def)
    have pushed: "ap_events (push_event line a) = newest 100 (concat (map (logged T) sts) @ [line])" for line
      using newest_snoc [of 100 "concat (map (logged T) sts)" line]
      by (cases "length (newest 100 (concat (map (logged T) sts))) = 100") (simp_all add: push_event_def event_log_def IH(2))
    have log: "(case logged T st of [] \<Rightarrow> ap_events a | line # _ \<Rightarrow> ap_events (push_event line a)) =
        newest 100 (concat (map (logged T) (sts @ [st])))"
      using pushed IH(2) by (auto simp: logged_def split: tui_input.split option.split live.split)
    note eff = run_step_effect [OF inv IH(1) refl, of T L]
    show ?thesis
    proof (cases "run_step T X L st a")
      case (Running b)
      with eff have b: "selected_ok b" "ap_vitals b = heard st (ap_vitals a)"
        "ap_events b = newest 100 (concat (map (logged T) (sts @ [st])))"
        "if refreshes st then status_report X L (ts_db st) = Inr (ap_report b) else ap_report b = ap_report a"
        by (simp_all add: log)
      then show ?thesis using IH(3,4) by (auto simp: step \<open>watch T X L d sts = Running a\<close> Running selected_ok_def split: if_splits)
    next
      case Quit
      then show ?thesis by (simp add: step \<open>watch T X L d sts = Running a\<close>)
    next
      case (Crashed err)
      with eff show ?thesis by simp
    qed
  qed (use snoc step in simp_all)
qed

abbreviation demo_texts :: texts where
  "demo_texts \<equiv> \<lparr>tx_size = (\<lambda>b. show_nat (unat b) @ '' B''), tx_span = (\<lambda>n. show_nat n @ ''s''), tx_stamp = (\<lambda>t. show_nat (nat t))\<rparr>"

theorem watch_stays_true_witness:
  "(case watch demo_texts demo_codec demo_library demo_db
      [\<lparr>ts_input = LiveRecv (Some (LiveEvent (PollStarted demo_slug))), ts_now = ''12:00:00'', ts_db = demo_db\<rparr>,
       \<lparr>ts_input = Press KeyDown False, ts_now = ''12:00:01'', ts_db = demo_db\<rparr>] of
      Running a \<Rightarrow> ap_events a = [''12:00:00  poll started: '' @ slug_str demo_slug]
    | Quit \<Rightarrow> True
    | Crashed err \<Rightarrow> False)"
proof -
  let ?sts = "[\<lparr>ts_input = LiveRecv (Some (LiveEvent (PollStarted demo_slug))), ts_now = ''12:00:00'', ts_db = demo_db\<rparr>,
       \<lparr>ts_input = Press KeyDown False, ts_now = ''12:00:01'', ts_db = demo_db\<rparr>]"
  have "\<forall>st \<in> set ?sts. db_inv demo_codec (ts_db st)" by (simp add: demo_db_inv)
  from watch_stays_true [OF demo_db_inv this, of demo_texts demo_library] show ?thesis
    by (cases "watch demo_texts demo_codec demo_library demo_db ?sts")
      (simp_all add: logged_def describe_def newest_def)
qed

text \<open>
  How \<open>serde\<close>'s two sides fit on the messages of one conversation: what one end encodes, the
  other reads back, and an event is not a response.
\<close>

definition readable :: "(string \<Rightarrow> hello option) \<Rightarrow> (string \<Rightarrow> response option) \<Rightarrow> (string \<Rightarrow> 'j event option)
    \<Rightarrow> (message \<Rightarrow> string) \<Rightarrow> message \<Rightarrow> bool" where
  "readable read_hello read_response read_ev encode msg =
     (case msg of
        MsgHello h \<Rightarrow> read_hello (encode msg) = Some h
      | MsgResponse r \<Rightarrow> read_response (encode msg) = Some r
      | MsgEvent e \<Rightarrow> read_response (encode msg) = None \<and> read_ev (encode msg) = Some (KnownEvent e))"

lemma follow_events:
  "\<forall>e \<in> set es. readable read_hello read_response read_ev encode (MsgEvent e) \<Longrightarrow>
     follow_lines read_response read_ev (map (\<lambda>m. Line (encode m)) (map MsgEvent es)) = map LiveEvent es @ [LiveGone]"
  by (induction es) (simp_all add: readable_def)

text \<open>
  C31: The view hears what the daemon says.  A client that connects to the control socket and
  subscribes, and whose lines are read as they were written, hands its render loop one snapshot
  that agrees with the daemon's database, then every event the daemon's subscription delivered,
  in order and once, and then that the daemon is gone.
\<close>

theorem watch_hears_daemon:
  fixes mo :: "'u moment_of"
  assumes "asks parse subscribe" "db_inv X (at_db mo)"
    "talk X as_second err_text parse version events [(Line subscribe, mo)] (\<lparr>cl_sent = [], cl_room = None\<rparr>, rates) =
       (result, c, rates')"
    "\<forall>msg \<in> set (cl_sent c). readable read_hello read_response read_ev encode msg"
  shows "\<exists>sn. follow_control_socket read_hello read_response read_ev True True
      (map (\<lambda>m. Line (encode m)) (cl_sent c)) None =
      LiveSnapshot sn # map LiveEvent (delivered_events events) @ [LiveGone] \<and>
    (\<exists>rep. status_report X (at_library mo) (at_db mo) = Inr rep \<and> list_all2 agrees (sn_shows sn) (st_shows rep))"
proof -
  obtain sn rates1 rep where sn: "snapshot_of X as_second mo rates = (Inr sn, rates1)"
    "status_report X (at_library mo) (at_db mo) = Inr rep" "list_all2 agrees (sn_shows sn) (st_shows rep)"
    using snapshot_total [OF assms(2), of as_second rates] by blast
  let ?hello = "\<lparr>he_protocol_version = protocol_version, he_daemon_version = version\<rparr>"
  have sent: "cl_sent c = MsgHello ?hello # MsgResponse (RespSnapshot sn) # map MsgEvent (delivered_events events)"
    using assms(1,3) sn(1)
    by (auto simp: talk_def send_open asks_def snapshot_response_def stream_events_open)
  then have "\<forall>e \<in> set (delivered_events events). readable read_hello read_response read_ev encode (MsgEvent e)"
    "read_hello (encode (MsgHello ?hello)) = Some ?hello"
    "read_response (encode (MsgResponse (RespSnapshot sn))) = Some (RespSnapshot sn)"
    using assms(4) by (auto simp: readable_def)
  with follow_events [of "delivered_events events" read_hello read_response read_ev encode] sn show ?thesis
    by (intro exI [of _ sn]) (simp add: sent follow_control_socket_def compatible_def)
qed

text \<open>A conversation with one event.\<close>

theorem watch_hears_daemon_witness:
  "\<exists>read_hello read_response (read_ev :: string \<Rightarrow> string event option) encode (c :: client) sn.
     cl_sent c = [MsgHello \<lparr>he_protocol_version = protocol_version, he_daemon_version = ''0.1''\<rparr>,
       MsgResponse (RespSnapshot sn), MsgEvent (PollStarted demo_slug)] \<and>
     follow_control_socket read_hello read_response read_ev True True (map (\<lambda>m. Line (encode m)) (cl_sent c)) None =
       [LiveSnapshot sn, LiveEvent (PollStarted demo_slug), LiveGone]"
proof -
  let ?parse = "\<lambda>line. if line = ''subscribe'' then Inr RequestSubscribe else Inl ''unknown''"
  let ?second = "\<lambda>t. t div 1000000000" and ?events = "[Delivered (PollStarted demo_slug), Lagged 3]"
  let ?c0 = "\<lparr>cl_sent = [], cl_room = None\<rparr>"
  have asks: "asks ?parse ''subscribe''" by (simp add: asks_def blank_def white_three_def white_ascii_def char_code_def)
  have inv: "db_inv demo_codec (at_db demo_moment)" by (simp add: demo_moment_def demo_db_inv)
  obtain sn rates' where talked: "talk demo_codec ?second (\<lambda>_. []) ?parse ''0.1'' ?events
      [(Line ''subscribe'', demo_moment)] (?c0, Map.empty) =
      (Inr (), ?c0\<lparr>cl_sent := [MsgHello \<lparr>he_protocol_version = protocol_version, he_daemon_version = ''0.1''\<rparr>,
         MsgResponse (RespSnapshot sn), MsgEvent (PollStarted demo_slug)]\<rparr>, rates')"
    using talk_subscribe [OF _ _ asks inv, where c = ?c0 and pre = "[]" and post = "[]" and rates = Map.empty
        and as_second = ?second and err_text = "\<lambda>_. []" and version = "''0.1''" and events = ?events]
    by auto
  let ?c = "?c0\<lparr>cl_sent := [MsgHello \<lparr>he_protocol_version = protocol_version, he_daemon_version = ''0.1''\<rparr>,
         MsgResponse (RespSnapshot sn), MsgEvent (PollStarted demo_slug)]\<rparr>"
  let ?encode = "\<lambda>m. case m of MsgHello h \<Rightarrow> ''h'' | MsgResponse r \<Rightarrow> ''r'' | MsgEvent e \<Rightarrow> ''e''"
  let ?hello = "\<lambda>l. if l = ''h'' then Some \<lparr>he_protocol_version = protocol_version, he_daemon_version = ''0.1''\<rparr> else None"
  let ?response = "\<lambda>l. if l = ''r'' then Some (RespSnapshot sn) else None"
  let ?event = "\<lambda>l :: string. if l = ''e'' then Some (KnownEvent (PollStarted demo_slug) :: string event) else None"
  have ok: "\<forall>msg \<in> set (cl_sent ?c). readable ?hello ?response ?event ?encode msg" by (simp add: readable_def)
  obtain sn' where heard: "follow_control_socket ?hello ?response ?event True True (map (\<lambda>m. Line (?encode m)) (cl_sent ?c)) None =
      LiveSnapshot sn' # map LiveEvent (delivered_events ?events) @ [LiveGone]"
    using watch_hears_daemon [OF asks inv talked ok] by blast
  then have "sn' = sn" by (simp add: follow_control_socket_def compatible_def)
  with heard have "cl_sent ?c = [MsgHello \<lparr>he_protocol_version = protocol_version, he_daemon_version = ''0.1''\<rparr>,
      MsgResponse (RespSnapshot sn), MsgEvent (PollStarted demo_slug)] \<and>
    follow_control_socket ?hello ?response ?event True True (map (\<lambda>m. Line (?encode m)) (cl_sent ?c)) None =
      [LiveSnapshot sn, LiveEvent (PollStarted demo_slug), LiveGone]" by simp
  then show ?thesis
    by (intro exI [of _ ?hello] exI [of _ ?response] exI [of _ ?event] exI [of _ ?encode] exI [of _ ?c] exI [of _ sn])
qed

end
