(* ===== verification/Cli.thy ===== *)
theory Cli
  imports Tui Server Library_Facts Scheduler
begin

text \<open>
  \<open>crates/daemon/src/main.rs\<close>: the commands.  Arguments come parsed, as \<open>clap\<close> hands them over;
  \<open>loaded_file\<close> is what \<open>Config::load\<close> returns and \<open>build\<close> is what opening a library takes from outside.
  Printed text is the list of its lines, without the colours of \<open>colored\<close>.
\<close>

datatype output_format = TextFormat | JsonFormat

datatype command =
    RunCommand bool \<comment> \<open>once\<close>
  | StatusCommand output_format bool \<comment> \<open>watch\<close>
  | VerifyCommand "string option" bool output_format \<comment> \<open>slug, fix\<close>
  | ProbeCommand string
  | OpmlCommand
  | CompletionsCommand string
  | ManpageCommand path

datatype 'u cli_error =
    CliConfig config_error
  | CliLibrary "'u library_error"
  | CliInvalid invalid_id
  | CliProvider "'u provider_error"
  | CliFailed string
  | CliDataDirUnset

text \<open>Every command that touches the library starts by loading the file and opening it.\<close>

definition open_configured :: "'u backend \<Rightarrow> config_error + 'u config \<Rightarrow> 'u cli_error + 'u library" where
  "open_configured build loaded_file =
     bind_res (map_err CliConfig loaded_file) (\<lambda>c.
     bind_res (ok_or CliDataDirUnset (config_data_dir c)) (\<lambda>dir.
     map_err CliLibrary (open_library build dir c)))"

section \<open>Text\<close>

definition rule_width :: nat where
  "rule_width = 72"

text \<open>Repeated glyphs: the light and the double horizontal bar.\<close>

definition rule_line :: "string \<Rightarrow> string" where
  "rule_line glyph = concat (replicate rule_width glyph)"

definition light_bar :: string where
  "light_bar = [CHR 0xE2, CHR 0x94, CHR 0x80]"

definition double_bar :: string where
  "double_bar = [CHR 0xE2, CHR 0x95, CHR 0x90]"

definition check_mark :: string where
  "check_mark = [CHR 0xE2, CHR 0x9C, CHR 0x93]"

text \<open>
  Width specifications count characters, not bytes.  They reach strings only: \<open>EpisodeId\<close> writes
  its text as it is, so \<open>{:>8}\<close> leaves an identifier unpadded.
\<close>

definition pad_start :: "nat \<Rightarrow> string \<Rightarrow> string" where
  "pad_start n s = replicate (n - length (scalar_heads s)) CHR '' '' @ s"

definition pad_end :: "nat \<Rightarrow> string \<Rightarrow> string" where
  "pad_end n s = s @ replicate (n - length (scalar_heads s)) CHR '' ''"

definition indent :: string where
  "indent = replicate 11 CHR '' ''"

definition count_part :: "nat \<Rightarrow> string \<Rightarrow> string" where
  "count_part n label = show_nat n @ '' '' @ label"

definition poll_line :: "texts \<Rightarrow> show_report \<Rightarrow> string" where
  "poll_line T r =
     (case (sh_last_poll_at r, sh_last_poll_ok r) of
        (Some at, Some True) \<Rightarrow> ''  last poll '' @ tx_stamp T at @ '' (ok)''
      | (Some at, Some False) \<Rightarrow>
          ''  last poll '' @ tx_stamp T at @ '' (FAILED: '' @ unwrap_or ''unknown error'' (sh_last_error r) @ '')''
      | _ \<Rightarrow> ''  never polled'')"

definition failed_texts :: "show_report \<Rightarrow> string list" where
  "failed_texts r =
     List.map_filter (\<lambda>e. case es_state e of
        Failed cls \<Rightarrow> Some (id_str (es_id e) @ '' ('' @ error_class_display cls @ '')'')
      | _ \<Rightarrow> None) (sh_episodes r)"

definition summary_parts :: "texts \<Rightarrow> show_report \<Rightarrow> string list" where
  "summary_parts T r =
     (let of_state = \<lambda>st. length (filter (\<lambda>e. es_state e = st) (sh_episodes r)) in
      [show_nat (of_state Cached) @ '' cached ('' @ tx_size T (sh_cached_bytes r) @ '')'',
       count_part (of_state Discovered) ''discovered'', count_part (length (failed_texts r)) ''failed'',
       count_part (of_state Pruned) ''pruned''] @
      (if 0 < of_state Downloading then [count_part (of_state Downloading) ''downloading''] else []))"

definition cached_lines :: "texts \<Rightarrow> episode_status \<Rightarrow> string list" where
  "cached_lines T e =
     [''  '' @ id_str (es_id e) @ ''  '' @ pad_start 10 (or_mark ''?'' (tx_size T) (es_bytes e)) @ ''  '' @
      pad_end 11 (or_mark ''mime?'' mime_display (es_mime e)) @ ''  '' @
      pad_start 9 (or_mark ''?'' (\<lambda>secs. tx_span T (unat secs)) (es_duration_secs e)) @ ''  downloaded '' @
      or_mark ''?'' (tx_stamp T) (es_downloaded_at e)] @
     (case es_description e of None \<Rightarrow> [] | Some text \<Rightarrow> [indent @ text]) @
     [indent @ ''blake3 '' @ unwrap_or ''?'' (es_blake3 e),
      indent @ unwrap_or ''<file path missing>'' (es_file_path e), '''']"

definition print_show_text :: "texts \<Rightarrow> show_report \<Rightarrow> string list" where
  "print_show_text T r =
     [rule_line light_bar,
      slug_str (sh_slug r) @ '' '' @ em_dash @ '' '' @ sh_title r @ '' ['' @ sh_provider r @ '']'', '''',
      poll_line T r, ''  '' @ dotted (summary_parts T r), ''''] @
     concat (map (cached_lines T) (filter (\<lambda>e. es_state e = Cached) (sh_episodes r))) @
     (if failed_texts r = [] then [] else [''  failed: '' @ join '', '' (failed_texts r), ''''])"

definition print_text :: "texts \<Rightarrow> library_report \<Rightarrow> string list" where
  "print_text T rep =
     (if st_shows rep = []
      then [''no shows in storage yet '' @ em_dash @ '' run `splicefeed run --once` first'', ''''] else []) @
     concat (map (print_show_text T) (st_shows rep)) @
     concat (map (\<lambda>slug. [rule_line light_bar,
        slug_str slug @ '' '' @ em_dash @ '' configured, never synced'', '''']) (st_configured_never_synced rep)) @
     [rule_line double_bar,
      ''total    '' @ show_nat (st_total_files rep) @ '' file(s) on disk '' @ mid_dot @ '' '' @ tx_size T (st_total_bytes rep),
      ''config   '' @ unwrap_or ''<in-memory>'' (st_config_source rep),
      ''state db '' @ st_state_db rep, ''data dir '' @ st_data_dir rep]"

text \<open>\<open>json\<close> is the pretty-printed form.\<close>

definition status_command :: "texts \<Rightarrow> (library_report \<Rightarrow> string + string) \<Rightarrow> codec \<Rightarrow> output_format \<Rightarrow> 'u library \<Rightarrow> db
    \<Rightarrow> 'u cli_error + string list" where
  "status_command T json X format L d =
     bind_res (map_err CliLibrary (status_report X L d)) (\<lambda>rep.
     case format of
       TextFormat \<Rightarrow> Inr (print_text T rep)
     | JsonFormat \<Rightarrow> map_err CliFailed (map_res (\<lambda>text. [text]) (json rep)))"

section \<open>Verification\<close>

record show_verify =
  sv_slug :: show_slug
  sv_report :: verify_report

text \<open>
  The shows are verified concurrently; the model takes them in order, and the first error ends
  the command either way.
\<close>

fun verify_shows :: "'u host \<Rightarrow> 'u library \<Rightarrow> bool \<Rightarrow> show_slug list \<Rightarrow> lib_state
    \<Rightarrow> ('u library_error + show_verify list) \<times> lib_state" where
  "verify_shows H L fix_files [] s = (Inr [], s)"
| "verify_shows H L fix_files (slug # rest) s =
     andThen (verify H L slug fix_files s) (\<lambda>rep s.
     andThen (verify_shows H L fix_files rest s) (\<lambda>reps s.
     (Inr (\<lparr>sv_slug = slug, sv_report = rep\<rparr> # reps), s)))"

definition unfixed :: "show_verify list \<Rightarrow> nat" where
  "unfixed run = length (filter (\<lambda>p. \<not> vo_fixed p) (concat (map (\<lambda>sv. vr_problems (sv_report sv)) run)))"

definition verdict :: "bool \<Rightarrow> verify_outcome \<Rightarrow> string" where
  "verdict fix_files p =
     (if vo_fixed p then ''fixed '' @ check_mark else if fix_files then ''NOT FIXED'' else ''run --fix to re-download'')"

definition print_verify_text :: "bool \<Rightarrow> show_verify list \<Rightarrow> string list" where
  "print_verify_text fix_files run =
     concat (map (\<lambda>sv.
       [rule_line light_bar,
        slug_str (sv_slug sv) @ '' '' @ em_dash @ '' '' @ show_nat (unat (vr_checked (sv_report sv))) @ '' checked '' @
          mid_dot @ '' '' @ show_nat (unat (vr_intact (sv_report sv))) @ '' intact''] @
       map (\<lambda>p. ''  '' @ id_str (vo_id p) @ ''  '' @ file_problem_display (vo_problem p) @ ''  '' @
         verdict fix_files p) (vr_problems (sv_report sv)) @ ['''']) run)"

definition verify_slugs :: "'u library \<Rightarrow> string option \<Rightarrow> 'u cli_error + show_slug list" where
  "verify_slugs L arg =
     (case arg of
        Some raw \<Rightarrow> map_err CliInvalid (map_res (\<lambda>slug. [slug]) (parse_show_slug raw))
      | None \<Rightarrow> Inr (map sc_slug (cfg_shows (lib_config L))))"

text \<open>What is printed, and the error that makes the process exit with a failure.\<close>

definition verify_command :: "(show_verify list \<Rightarrow> string + string) \<Rightarrow> 'u host \<Rightarrow> string option \<Rightarrow> bool \<Rightarrow> output_format
    \<Rightarrow> 'u library \<Rightarrow> lib_state \<Rightarrow> ('u cli_error + unit) \<times> string list \<times> lib_state" where
  "verify_command json H arg fix_files format L s =
     (case verify_slugs L arg of
        Inl err \<Rightarrow> (Inl err, [], s)
      | Inr slugs \<Rightarrow>
          (case verify_shows H L fix_files slugs s of
             (Inl err, s) \<Rightarrow> (Inl (CliLibrary err), [], s)
           | (Inr run, s) \<Rightarrow>
               (case (case format of TextFormat \<Rightarrow> Inr (print_verify_text fix_files run)
                      | JsonFormat \<Rightarrow> map_res (\<lambda>text. [text]) (json run)) of
                  Inl err \<Rightarrow> (Inl (CliFailed err), [], s)
                | Inr out \<Rightarrow>
                    (if 0 < unfixed run
                     then Inl (CliFailed (show_nat (unfixed run) @ '' file(s) failed verification'' @
                       (if fix_files then '' and could not be fixed'' else '' (run with --fix to re-download)'')))
                     else Inr (), out, s))))"

section \<open>Probing\<close>

text \<open>What \<open>probe\<close> prints, one constructor per kind of line, with the values it formats.\<close>

datatype 'u probe_line =
    Probing show_slug string
  | ShowFound string "nat option" "'u option" \<comment> \<open>title, length of the description, artwork\<close>
  | ShowFailed "'u provider_error"
  | Unexpected304
  | EpisodesParsed nat
  | EpisodeLine episode_id string "timestamp option" "u32 option"
  | EpisodesFailed "'u provider_error"
  | AudioFound "'u redacted_url" "audio_mime option" "u64 option"
  | AudioFailed "'u provider_error"

definition probe_provider :: "'u config \<Rightarrow> show_slug \<Rightarrow> string" where
  "probe_provider c slug =
     (case List.find (\<lambda>sc. sc_slug sc = slug) (cfg_shows c) of Some sc \<Rightarrow> sc_provider sc | None \<Rightarrow> ''difm'')"

definition probe_show :: "'u provider \<Rightarrow> show_slug \<Rightarrow> 'u probe_line" where
  "probe_show pv slug =
     (case pv_show pv 0 slug of
        Inr meta \<Rightarrow> ShowFound (sm_title meta) (map_option length (sm_description meta)) (sm_artwork meta)
      | Inl err \<Rightarrow> ShowFailed err)"

definition probe_episodes :: "'u provider \<Rightarrow> show_slug \<Rightarrow> 'u probe_line list \<times> episode_meta list" where
  "probe_episodes pv slug =
     (case pv_episodes pv 1 slug None None of
        Inr NotModified \<Rightarrow> ([Unexpected304], [])
      | Inr (Modified es tag) \<Rightarrow>
          (EpisodesParsed (length es) #
             map (\<lambda>e. EpisodeLine (em_id e) (em_title e) (em_published_at e) (em_duration_secs e)) (take 5 es), es)
      | Inl err \<Rightarrow> ([EpisodesFailed err], []))"

definition probe_audio :: "'u url_ops \<Rightarrow> 'u provider \<Rightarrow> show_slug \<Rightarrow> episode_meta list \<Rightarrow> 'u probe_line list" where
  "probe_audio U pv slug es =
     (case es of
        [] \<Rightarrow> []
      | e # _ \<Rightarrow>
          (case pv_resolve_audio pv 2 slug (em_id e) of
             Inr audio \<Rightarrow> [AudioFound (redacted U (as_url audio)) (as_mime audio) (as_bytes audio)]
           | Inl err \<Rightarrow> [AudioFailed err]))"

text \<open>\<open>create\<close> is \<open>ProviderRegistry::create\<close> on the loaded configuration.\<close>

definition probe_command :: "'u url_ops \<Rightarrow> ('u config \<Rightarrow> string \<Rightarrow> 'u provider_error + 'u provider) \<Rightarrow> config_error + 'u config
    \<Rightarrow> string \<Rightarrow> 'u cli_error + 'u probe_line list" where
  "probe_command U create loaded_file raw =
     bind_res (map_err CliConfig loaded_file) (\<lambda>c.
     bind_res (map_err CliInvalid (parse_show_slug raw)) (\<lambda>slug.
     bind_res (map_err CliProvider (create c (probe_provider c slug))) (\<lambda>pv.
     (case probe_episodes pv slug of
        (lines_out, es) \<Rightarrow>
          Inr (Probing slug (probe_provider c slug) # probe_show pv slug # lines_out @ probe_audio U pv slug es)))))"

section \<open>Running\<close>

text \<open>\<open>run --once\<close>.\<close>

definition run_once :: "'u host \<Rightarrow> 'u backend \<Rightarrow> config_error + 'u config \<Rightarrow> lib_state
    \<Rightarrow> ('u cli_error + unit) \<times> lib_state" where
  "run_once H build loaded_file s =
     (case open_configured build loaded_file of
        Inl err \<Rightarrow> (Inl err, s)
      | Inr L \<Rightarrow> (case sync_all_once H L s of (r, s) \<Rightarrow> (map_err CliFailed r, s)))"

text \<open>
  \<open>run\<close> as a daemon, up to its first scheduling point: the metrics are built before the tasks
  start, and the channel has four receivers: the scheduler, the metrics pump, the control socket
  and the server.
\<close>

definition run_serve :: "'u backend \<Rightarrow> ('u config \<Rightarrow> string + 'u metrics) \<Rightarrow> config_error + 'u config \<Rightarrow> db
    \<Rightarrow> 'u cli_error + 'u metrics \<times> 'u daemon" where
  "run_serve build init loaded_file d =
     bind_res (open_configured build loaded_file) (\<lambda>L.
     bind_res (map_err CliFailed (init (lib_config L))) (\<lambda>m.
     Inr (m, boot L 4 d)))"

definition opml_command :: "'u host \<Rightarrow> 'u \<Rightarrow> 'u library \<Rightarrow> db \<Rightarrow> 'u cli_error + xml" where
  "opml_command H base L d =
     map_err CliLibrary (map_res (opml_write (host_url H) ''splicefeed'') (write_opml H L base d))"

section \<open>Facts\<close>

text \<open>The cached episodes of the given shows whose file is damaged.\<close>

definition damaged :: "'u host \<Rightarrow> lib_state \<Rightarrow> show_slug \<Rightarrow> episode_record set" where
  "damaged H s slug = {e. view (host_codec H) (ls_db s) slug (r_id e) = Some e \<and> r_state e = Cached \<and>
     check_file H (ls_fs s) e \<noteq> None}"

lemma damaged_tick [simp]: "damaged H (s\<lparr>ls_tick := t\<rparr>) slug = damaged H s slug"
  by (simp add: damaged_def)

text \<open>A plain verification of several shows reports the damage of each and repairs nothing.\<close>

lemma verify_shows_plain:
  assumes "host_ok H" "db_inv (host_codec H) (ls_db s)"
  shows "\<exists>run t. verify_shows H L False slugs s = (Inr run, s\<lparr>ls_tick := t\<rparr>) \<and> map sv_slug run = slugs \<and>
    (\<forall>sv \<in> set run. (\<forall>p \<in> set (vr_problems (sv_report sv)). \<not> vo_fixed p) \<and>
      (vr_problems (sv_report sv) = [] \<longleftrightarrow> damaged H s (sv_slug sv) = {}))"
  using assms(2)
proof (induction slugs arbitrary: s)
  case (Nil s)
  have "s = s\<lparr>ls_tick := ls_tick s\<rparr>" by simp
  then show ?case by (intro exI [of _ "[]"] exI [of _ "ls_tick s"]) simp
next
  case (Cons slug rest)
  obtain rep t where rep: "verify H L slug False s = (Inr rep, s\<lparr>ls_tick := t\<rparr>)"
    "\<And>out. out \<in> set (vr_problems rep) \<longleftrightarrow> (\<exists>e p. view (host_codec H) (ls_db s) slug (r_id e) = Some e \<and>
       r_state e = Cached \<and> check_file H (ls_fs s) e = Some p \<and> out = \<lparr>vo_id = r_id e, vo_problem = p, vo_fixed = False\<rparr>)"
    using verify_plain [OF assms(1) Cons.prems, of L slug] by blast
  have "(\<forall>p \<in> set (vr_problems rep). \<not> vo_fixed p) \<and> (vr_problems rep = [] \<longleftrightarrow> damaged H s slug = {})"
  proof (intro conjI)
    show "\<forall>p \<in> set (vr_problems rep). \<not> vo_fixed p" by (auto simp: rep(2))
    have "set (vr_problems rep) = {} \<longleftrightarrow> damaged H s slug = {}"
      unfolding set_eq_iff rep(2) by (fastforce simp: damaged_def)
    then show "vr_problems rep = [] \<longleftrightarrow> damaged H s slug = {}" by simp
  qed
  moreover obtain run t' where "verify_shows H L False rest (s\<lparr>ls_tick := t\<rparr>) = (Inr run, (s\<lparr>ls_tick := t\<rparr>)\<lparr>ls_tick := t'\<rparr>)"
    "map sv_slug run = rest" "\<forall>sv \<in> set run. (\<forall>p \<in> set (vr_problems (sv_report sv)). \<not> vo_fixed p) \<and>
      (vr_problems (sv_report sv) = [] \<longleftrightarrow> damaged H s (sv_slug sv) = {})"
    using Cons.IH [of "s\<lparr>ls_tick := t\<rparr>"] Cons.prems by auto
  ultimately show ?case
    by (intro exI [of _ "\<lparr>sv_slug = slug, sv_report = rep\<rparr> # run"] exI [of _ t'])
      (simp add: andThen_def rep(1))
qed

lemma unfixed_none:
  "\<forall>sv \<in> set run. \<forall>p \<in> set (vr_problems (sv_report sv)). \<not> vo_fixed p \<Longrightarrow>
     unfixed run = 0 \<longleftrightarrow> (\<forall>sv \<in> set run. vr_problems (sv_report sv) = [])"
  by (auto simp: unfixed_def filter_empty_conv)

section \<open>Properties\<close>

text \<open>
  \<open>verify\<close> tells scripts the truth.  Without \<open>--fix\<close> and in text form it always gets to a
  verdict on well-formed slugs: it succeeds exactly when no cached episode of the shows it
  covers (the one named, or all configured ones) is missing, unreadable, of another size or of
  another hash, and fails otherwise; it names every show it checked; and it leaves the
  database, the files and the events alone.
\<close>

theorem verify_exit_status:
  assumes "host_ok H" "db_inv (host_codec H) (ls_db s)" "verify_slugs L arg = Inr slugs"
  shows "\<exists>r out t. verify_command json H arg False TextFormat L s = (r, out, s\<lparr>ls_tick := t\<rparr>) \<and>
    (r = Inr () \<longleftrightarrow> (\<forall>slug \<in> set slugs. damaged H s slug = {})) \<and>
    (\<exists>run. map sv_slug run = slugs \<and> out = print_verify_text False run \<and>
      (r \<noteq> Inr () \<longrightarrow> r = Inl (CliFailed (show_nat (unfixed run) @
        '' file(s) failed verification (run with --fix to re-download)''))))"
proof -
  obtain run t where run: "verify_shows H L False slugs s = (Inr run, s\<lparr>ls_tick := t\<rparr>)" "map sv_slug run = slugs"
    "\<forall>sv \<in> set run. (\<forall>p \<in> set (vr_problems (sv_report sv)). \<not> vo_fixed p) \<and>
      (vr_problems (sv_report sv) = [] \<longleftrightarrow> damaged H s (sv_slug sv) = {})"
    using verify_shows_plain [OF assms(1,2)] by blast
  have "unfixed run = 0 \<longleftrightarrow> (\<forall>sv \<in> set run. damaged H s (sv_slug sv) = {})"
    using unfixed_none [of run] run(3) by simp
  then have "unfixed run = 0 \<longleftrightarrow> (\<forall>slug \<in> set slugs. damaged H s slug = {})" by (simp add: run(2) [symmetric])
  then show ?thesis
    by (intro exI [of _ "if 0 < unfixed run then Inl (CliFailed (show_nat (unfixed run) @
          '' file(s) failed verification (run with --fix to re-download)'')) else Inr ()"]
        exI [of _ "print_verify_text False run"] exI [of _ t])
      (auto simp: verify_command_def assms(3) run(1,2) intro!: exI [of _ run])
qed

theorem verify_exit_status_witness:
  "\<exists>r out t. verify_command (\<lambda>_. Inl []) demo_host (Some (slug_str demo_slug)) False TextFormat demo_library demo_state =
      (r, out, demo_state\<lparr>ls_tick := t\<rparr>) \<and> (r = Inr () \<longleftrightarrow> damaged demo_host demo_state demo_slug = {})"
proof -
  have "verify_slugs demo_library (Some (slug_str demo_slug)) = (Inr [demo_slug] :: tuple_url cli_error + _)"
    using demo_slug_valid by (simp add: verify_slugs_def del: show_slug.sel)
  from verify_exit_status [OF demo_host_ok demo_state_inv this] show ?thesis by simp blast
qed

end
