(* ===== verification/Commands.thy ===== *)
theory Commands
  imports Cli
begin

text \<open>
  \<open>main\<close> (\<open>crates/daemon/src/main.rs\<close>): which command runs what, with the man pages and the
  completion script.  Parsing the arguments and rendering a page or a script belong to \<open>clap\<close>.
  The command \<open>run\<close> without \<open>--once\<close> ends here with the daemon booted; theories \<open>Scheduler\<close> and
  \<open>Daemon\<close> take it from there.
\<close>

section \<open>Man pages\<close>

text \<open>The subcommands of \<open>Cli\<close> with the names \<open>clap\<close> derives; none is hidden.\<close>

definition subcommands :: "(string \<times> bool) list" where
  "subcommands = map (\<lambda>n. (n, False))
     [''run'', ''status'', ''verify'', ''probe'', ''opml'', ''completions'', ''manpage'']"

definition page_names :: "string list" where
  "page_names = ''splicefeed'' #
     map (\<lambda>(n, _). ''splicefeed-'' @ n) (filter (\<lambda>(n, hidden). \<not> hidden \<and> n \<noteq> ''help'') subcommands)"

record page_io =
  io_mkdir :: "path \<Rightarrow> string + unit"
  io_render :: "string \<Rightarrow> string + string"
  io_write :: "path \<Rightarrow> string \<Rightarrow> string + unit"

text \<open>One page after the other until one fails; the result is what was written, with the printed paths.\<close>

definition write_page :: "page_io \<Rightarrow> path \<Rightarrow> string \<Rightarrow> string + path \<times> string" where
  "write_page io out name =
     (let path = path_join out (name @ ''.1'') in
      bind_res (io_render io name) (\<lambda>text. map_res (\<lambda>_. (path, text)) (io_write io path text)))"

fun write_pages :: "page_io \<Rightarrow> path \<Rightarrow> string list \<Rightarrow> (string + unit) \<times> (path \<times> string) list" where
  "write_pages io out [] = (Inr (), [])"
| "write_pages io out (name # names) =
     (case write_page io out name of
        Inl err \<Rightarrow> (Inl err, [])
      | Inr page \<Rightarrow> (case write_pages io out names of (r, pages) \<Rightarrow> (r, page # pages)))"

definition manpage :: "page_io \<Rightarrow> path \<Rightarrow> (string + unit) \<times> (path \<times> string) list" where
  "manpage io out =
     (case io_mkdir io out of
        Inl err \<Rightarrow> (Inl err, [])
      | Inr _ \<Rightarrow> write_pages io out page_names)"

section \<open>Dispatch\<close>

datatype 'u cli_output =
    Text "string list"
  | Probed "'u probe_line list"
  | Document xml
  | Script string
  | Pages "(path \<times> string) list"
  | ViewEnded "'u watching"
  | DaemonRuns "'u metrics" "'u daemon"

text \<open>
  What the commands find: the configuration file as \<open>Config::load\<close> returns it, the registries,
  the metrics, the texts and JSON forms, the inputs that reach the live view with the socket at
  the given path, the completion script, and the file system for pages.
\<close>

record 'u cli_env =
  ce_host :: "'u host"
  ce_env :: env
  ce_load :: "config_error + 'u config"
  ce_build :: "'u backend"
  ce_create :: "'u config \<Rightarrow> string \<Rightarrow> 'u provider_error + 'u provider"
  ce_metrics :: "'u config \<Rightarrow> string + 'u metrics"
  ce_texts :: texts
  ce_report_json :: "library_report \<Rightarrow> string + string"
  ce_verify_json :: "show_verify list \<Rightarrow> string + string"
  ce_view_inputs :: "path option \<Rightarrow> tui_step list"
  ce_script :: "string \<Rightarrow> string"
  ce_pages :: page_io

definition with_library :: "'u cli_env \<Rightarrow> lib_state
    \<Rightarrow> ('u library \<Rightarrow> ('u cli_error + unit) \<times> 'u cli_output list \<times> lib_state)
    \<Rightarrow> ('u cli_error + unit) \<times> 'u cli_output list \<times> lib_state" where
  "with_library E s body =
     (case open_configured (ce_build E) (ce_load E) of Inl err \<Rightarrow> (Inl err, [], s) | Inr L \<Rightarrow> body L)"

text \<open>A result that is printed if there is one.\<close>

definition reply_with :: "lib_state \<Rightarrow> ('a \<Rightarrow> 'u cli_output) \<Rightarrow> 'u cli_error + 'a
    \<Rightarrow> ('u cli_error + unit) \<times> 'u cli_output list \<times> lib_state" where
  "reply_with s f r = (case r of Inl err \<Rightarrow> (Inl err, [], s) | Inr a \<Rightarrow> (Inr (), [f a], s))"

definition status_dispatch :: "'u cli_env \<Rightarrow> output_format \<Rightarrow> bool \<Rightarrow> lib_state
    \<Rightarrow> ('u cli_error + unit) \<times> 'u cli_output list \<times> lib_state" where
  "status_dispatch E format watching s =
     with_library E s (\<lambda>L.
       if watching then
         (case watch (ce_texts E) (host_codec (ce_host E)) L (ls_db s)
             (ce_view_inputs E (control_socket_path (ce_env E) (lib_config L))) of
            Crashed err \<Rightarrow> (Inl (CliLibrary err), [], s)
          | v \<Rightarrow> (Inr (), [ViewEnded v], s))
       else reply_with s Text
         (status_command (ce_texts E) (ce_report_json E) (host_codec (ce_host E)) format L (ls_db s)))"

text \<open>\<open>None\<close> as the external base URL is the \<open>unreachable!\<close> of a bind address that is no URL.\<close>

definition opml_dispatch :: "'u cli_env \<Rightarrow> lib_state \<Rightarrow> ('u cli_error + unit) \<times> 'u cli_output list \<times> lib_state" where
  "opml_dispatch E s =
     with_library E s (\<lambda>L.
       case external_base_url (host_url (ce_host E)) (lib_config L) of
         None \<Rightarrow> (Inl (CliFailed ''unreachable''), [], s)
       | Some base \<Rightarrow> reply_with s Document (opml_command (ce_host E) base L (ls_db s)))"

definition main_command :: "'u cli_env \<Rightarrow> command \<Rightarrow> lib_state
    \<Rightarrow> ('u cli_error + unit) \<times> 'u cli_output list \<times> lib_state" where
  "main_command E cmd s =
     (case cmd of
        RunCommand once \<Rightarrow>
          if once then (case run_once (ce_host E) (ce_build E) (ce_load E) s of (r, s) \<Rightarrow> (r, [], s))
          else reply_with s (\<lambda>(m, w). DaemonRuns m w) (run_serve (ce_build E) (ce_metrics E) (ce_load E) (ls_db s))
      | StatusCommand format watching \<Rightarrow> status_dispatch E format watching s
      | VerifyCommand slug fix_files format \<Rightarrow>
          with_library E s (\<lambda>L.
            case verify_command (ce_verify_json E) (ce_host E) slug fix_files format L s of
              (r, out, s) \<Rightarrow> (r, [Text out], s))
      | ProbeCommand slug \<Rightarrow> reply_with s Probed (probe_command (host_url (ce_host E)) (ce_create E) (ce_load E) slug)
      | OpmlCommand \<Rightarrow> opml_dispatch E s
      | CompletionsCommand shell \<Rightarrow> (Inr (), [Script (ce_script E shell)], s)
      | ManpageCommand out \<Rightarrow>
          (case manpage (ce_pages E) out of (r, pages) \<Rightarrow> (map_err CliFailed r, [Pages pages], s)))"

section \<open>Facts\<close>

text \<open>Nothing but time has passed.\<close>

definition undisturbed :: "lib_state \<Rightarrow> lib_state \<Rightarrow> bool" where
  "undisturbed s s' \<longleftrightarrow> ls_db s' = ls_db s \<and> ls_fs s' = ls_fs s \<and> ls_events s' = ls_events s"

lemma undisturbed_refl [simp]: "undisturbed s s"
  by (simp add: undisturbed_def)

lemma undisturbed_tick [simp]: "undisturbed s (tick s') = undisturbed s s'"
  by (simp add: undisturbed_def tick_def)

lemma undisturbed_trans: "undisturbed s s' \<Longrightarrow> undisturbed s' s'' \<Longrightarrow> undisturbed s s''"
  by (simp add: undisturbed_def)

lemma verify_all_undisturbed: "undisturbed s (snd (verify_all H L None slug eps s))"
proof (induction eps arbitrary: s)
  case (Cons ep eps)
  have "undisturbed s (snd (verify_episode H L None slug ep s))"
    by (simp add: verify_episode_def split: option.split)
  with Cons.IH undisturbed_trans show ?case by (fastforce split: prod.split)
qed simp

lemma verify_undisturbed: "undisturbed s (snd (verify H L slug False s))"
proof -
  have "undisturbed s s'" if "verify_all H L None slug eps (tick s) = (out, s')" for eps out s'
    using verify_all_undisturbed [of "tick s" H L slug eps] that by (simp add: undisturbed_def tick_def)
  then show ?thesis
    by (cases "storage_episodes (host_codec H) slug (ls_db s)") (auto simp: verify_def Let_def split: prod.split)
qed

lemma verify_shows_undisturbed: "undisturbed s (snd (verify_shows H L False slugs s))"
proof (induction slugs arbitrary: s)
  case (Cons slug rest)
  obtain r s1 where v: "verify H L slug False s = (r, s1)" by fastforce
  obtain r' s2 where w: "verify_shows H L False rest s1 = (r', s2)" by fastforce
  have "undisturbed s s1" "undisturbed s1 s2" using verify_undisturbed [of s H L slug] v Cons.IH [of s1] w by simp_all
  moreover from this have "undisturbed s s2" by (rule undisturbed_trans)
  ultimately show ?case using v w by (cases r; cases r') (simp_all add: andThen_def)
qed simp

lemma verify_command_undisturbed: "undisturbed s (snd (snd (verify_command json H arg False format L s)))"
proof (cases "verify_slugs L arg :: 'a cli_error + show_slug list")
  case (Inr slugs)
  obtain r s' where "verify_shows H L False slugs s = (r, s')" by fastforce
  with verify_shows_undisturbed [of s H L slugs] Inr show ?thesis
    by (auto simp: verify_command_def split: sum.split output_format.split)
qed (simp add: verify_command_def)

text \<open>Commands that only look, and those that need the configuration.\<close>

fun inspects :: "command \<Rightarrow> bool" where
  "inspects (RunCommand once) = False"
| "inspects (VerifyCommand slug fix_files format) = (\<not> fix_files)"
| "inspects _ = True"

fun configured :: "command \<Rightarrow> bool" where
  "configured (CompletionsCommand shell) = False"
| "configured (ManpageCommand out) = False"
| "configured _ = True"

lemma reply_with_state [simp]: "snd (snd (reply_with s f r)) = s"
  by (simp add: reply_with_def split: sum.split)

lemma with_library_undisturbed:
  "(\<And>L. undisturbed s (snd (snd (body L)))) \<Longrightarrow> undisturbed s (snd (snd (with_library E s body)))"
  by (simp add: with_library_def split: sum.split)

lemma status_undisturbed: "undisturbed s (snd (snd (status_dispatch E format watching s)))"
  unfolding status_dispatch_def by (rule with_library_undisturbed) (simp split: watching.split)

lemma opml_undisturbed: "undisturbed s (snd (snd (opml_dispatch E s)))"
  unfolding opml_dispatch_def by (rule with_library_undisturbed) (simp split: option.split)

lemma main_undisturbed: "inspects cmd \<Longrightarrow> undisturbed s (snd (snd (main_command E cmd s)))"
  using verify_command_undisturbed
  by (cases cmd) (auto simp: main_command_def status_undisturbed opml_undisturbed split_beta intro!: with_library_undisturbed)

lemma open_unconfigured: "open_configured build (Inl err) = Inl (CliConfig err)"
  by (simp add: open_configured_def)

lemma write_pages_all:
  assumes "\<forall>name. io_render io name = Inr (text name)" "\<forall>p t. io_write io p t = Inr ()"
  shows "write_pages io out names = (Inr (), map (\<lambda>name. (path_join out (name @ ''.1''), text name)) names)"
  by (induction names) (simp_all add: write_page_def assms Let_def)

section \<open>Properties\<close>



end
