(* ===== verification/Daemon.thy ===== *)
theory Daemon
  imports Cli Control
begin

text \<open>
  The daemon as a process among others: the control socket's file and accept loop
  (\<open>control::serve\<close>), the HTTP listener (\<open>server::serve\<close>), the shutdown signals and the clean-up at
  exit (\<open>main.rs\<close>).  What the kernel does is written out as far as these depend on it: a name in
  the file system is at most one node, a socket address belongs to at most one process, and a
  signal without a handler kills.  Every call may fail for reasons of its own; which ones do is
  part of the input.
\<close>

section \<open>Names in the file system\<close>

text \<open>A socket with the process that bound it and its permission bits; anything else that may be there.\<close>

datatype node = SocketNode nat nat | FileNode | DirNode | DanglingLink

type_synonym nodes = "path \<rightharpoonup> node"

text \<open>\<open>Path::exists\<close> follows links.\<close>

definition node_exists :: "nodes \<Rightarrow> path \<Rightarrow> bool" where
  "node_exists N p \<longleftrightarrow> N p \<noteq> None \<and> N p \<noteq> Some DanglingLink"

definition unlink :: "string option \<Rightarrow> path \<Rightarrow> nodes \<Rightarrow> (string + unit) \<times> nodes" where
  "unlink refused p N =
     (case refused of
        Some err \<Rightarrow> (Inl err, N)
      | None \<Rightarrow>
          (case N p of
             None \<Rightarrow> (Inl ''No such file or directory'', N)
           | Some DirNode \<Rightarrow> (Inl ''Is a directory'', N)
           | Some _ \<Rightarrow> (Inr (), N(p := None))))"

definition bind_socket :: "string option \<Rightarrow> nat \<Rightarrow> nat \<Rightarrow> path \<Rightarrow> nodes \<Rightarrow> (string + unit) \<times> nodes" where
  "bind_socket refused pid mode_bits p N =
     (case refused of
        Some err \<Rightarrow> (Inl err, N)
      | None \<Rightarrow>
          (case N p of
             Some _ \<Rightarrow> (Inl ''Address already in use'', N)
           | None \<Rightarrow> (Inr (), N(p \<mapsto> SocketNode pid mode_bits))))"

definition chmod :: "string option \<Rightarrow> nat \<Rightarrow> path \<Rightarrow> nodes \<Rightarrow> (string + unit) \<times> nodes" where
  "chmod refused mode_bits p N =
     (case refused of
        Some err \<Rightarrow> (Inl err, N)
      | None \<Rightarrow>
          (case N p of
             None \<Rightarrow> (Inl ''No such file or directory'', N)
           | Some (SocketNode pid _) \<Rightarrow> (Inr (), N(p \<mapsto> SocketNode pid mode_bits))
           | Some _ \<Rightarrow> (Inr (), N)))"

section \<open>The control socket\<close>

text \<open>Which of the calls fail, and the mode the process's umask gives a new socket.\<close>

record faults =
  ft_unlink :: "string option"
  ft_bind :: "string option"
  ft_chmod :: "string option"
  ft_new_mode :: nat

text \<open>\<open>0o600\<close>.\<close>

definition socket_mode :: nat where
  "socket_mode = 384"

definition control_listen :: "faults \<Rightarrow> nat \<Rightarrow> path \<Rightarrow> nodes \<Rightarrow> (string + unit) \<times> nodes" where
  "control_listen ft pid p N =
     andThen (if node_exists N p then unlink (ft_unlink ft) p N else (Inr (), N)) (\<lambda>_ N.
     andThen (bind_socket (ft_bind ft) pid (ft_new_mode ft) p N) (\<lambda>_ N.
     chmod (ft_chmod ft) socket_mode p N))"

text \<open>The task of the control socket: not yet run, accepting, or over.\<close>

datatype control_task = ControlPending | ControlListening | ControlOver

text \<open>What the accept loop selects: a connection (or why there is none), or a change of the channel.\<close>

datatype 'c accept_input = Accepted "string + 'c" | LibraryChanged | SenderGone

text \<open>One turn of the loop; accepted connections are tasks of their own, which run \<open>talk\<close>.\<close>

definition control_turn :: "string option \<Rightarrow> path \<Rightarrow> 'c accept_input \<Rightarrow> nodes \<Rightarrow> control_task \<times> 'c list \<times> nodes" where
  "control_turn refused p inp N =
     (case inp of
        Accepted (Inr c) \<Rightarrow> (ControlListening, [c], N)
      | Accepted (Inl _) \<Rightarrow> (ControlListening, [], N)
      | LibraryChanged \<Rightarrow> (ControlListening, [], N)
      | SenderGone \<Rightarrow> (ControlOver, [], snd (unlink refused p N)))"

section \<open>Shutdown signals\<close>

datatype os_signal = Sigint | Sigterm

text \<open>
  The future \<open>shutdown_signal\<close> when it is first polled: waiting for either signal, for \<open>SIGINT\<close>
  alone, or parked in \<open>pending()\<close>.  A \<open>ctrl_c()\<close> that cannot install its handler is ready at
  once, so it wins the \<open>select!\<close>.
\<close>

datatype shutdown_wait = WaitEither | WaitInterrupt | Parked | ShutDown

definition shutdown_signal :: "bool \<Rightarrow> bool \<Rightarrow> shutdown_wait" where
  "shutdown_signal interrupt_ok terminate_ok =
     (if \<not> terminate_ok then (if interrupt_ok then WaitInterrupt else Parked)
      else (if interrupt_ok then WaitEither else Parked))"

fun shutdown_poll :: "shutdown_wait \<Rightarrow> os_signal \<Rightarrow> shutdown_wait" where
  "shutdown_poll WaitEither sig = ShutDown"
| "shutdown_poll WaitInterrupt Sigint = ShutDown"
| "shutdown_poll WaitInterrupt Sigterm = WaitInterrupt"
| "shutdown_poll Parked sig = Parked"
| "shutdown_poll ShutDown sig = ShutDown"

fun handled :: "bool \<Rightarrow> bool \<Rightarrow> os_signal \<Rightarrow> bool" where
  "handled interrupt_ok terminate_ok Sigint = interrupt_ok"
| "handled interrupt_ok terminate_ok Sigterm = terminate_ok"

section \<open>The process\<close>

text \<open>The HTTP side: the listener is not bound yet, or it serves until the future is ready; or the process is gone.\<close>

datatype http_side = Binding | Serving shutdown_wait | Exited "string + unit" | Killed os_signal

text \<open>What a process does not choose: its id, its addresses, and whether its handlers can be installed.\<close>

record launch =
  su_pid :: nat
  su_socket :: path
  su_bind :: string
  su_data_dir :: path
  su_interrupt_ok :: bool
  su_terminate_ok :: bool

record ('u, 'c) process =
  pr_http :: http_side
  pr_control :: control_task
  pr_connections :: "'c list"
  pr_replies :: "server_reply list"
  pr_served :: "'u served"

record os =
  os_nodes :: nodes
  os_ports :: "string \<rightharpoonup> nat"

datatype ('u, 'c) process_input =
    ControlRuns faults
  | ControlInput "string option" "'c accept_input"
  | ServerBinds "string option" "string option" \<comment> \<open>why bind fails, why the socket's removal does\<close>
  | HttpRequest "'u site" string route db
  | Signalled os_signal "string option" \<comment> \<open>why the socket's removal fails\<close>

definition process_gone :: "('u, 'c) process \<Rightarrow> bool" where
  "process_gone P \<longleftrightarrow> (case pr_http P of Exited _ \<Rightarrow> True | Killed _ \<Rightarrow> True | _ \<Rightarrow> False)"

definition fresh_process :: "'u metrics \<Rightarrow> ('u, 'c) process" where
  "fresh_process m = \<lparr>pr_http = Binding, pr_control = ControlPending, pr_connections = [], pr_replies = [],
     pr_served = \<lparr>sd_http_requests = 0, sd_metrics = m\<rparr>\<rparr>"

text \<open>The kernel closes what a process held; the socket's name stays.\<close>

definition release :: "nat \<Rightarrow> os \<Rightarrow> os" where
  "release pid w = w\<lparr>os_ports := (\<lambda>a. if os_ports w a = Some pid then None else os_ports w a)\<rparr>"

text \<open>\<open>run\<close> after \<open>serve\<close> has returned: the socket's name is removed, its error ignored.\<close>

definition exit_run :: "launch \<Rightarrow> string option \<Rightarrow> string + unit \<Rightarrow> ('u, 'c) process \<times> os \<Rightarrow> ('u, 'c) process \<times> os" where
  "exit_run su refused r Pw =
     (case Pw of (P, w) \<Rightarrow>
        (P\<lparr>pr_http := Exited r\<rparr>,
         release (su_pid su) (w\<lparr>os_nodes := snd (unlink refused (su_socket su) (os_nodes w))\<rparr>)))"

definition bind_http :: "launch \<Rightarrow> string option \<Rightarrow> string option \<Rightarrow> ('u, 'c) process \<times> os \<Rightarrow> ('u, 'c) process \<times> os" where
  "bind_http su refused unlink_refused Pw =
     (case Pw of (P, w) \<Rightarrow>
        (case (refused, os_ports w (su_bind su)) of
           (Some err, _) \<Rightarrow> exit_run su unlink_refused (Inl err) (P, w)
         | (None, Some _) \<Rightarrow> exit_run su unlink_refused (Inl ''Address already in use'') (P, w)
         | (None, None) \<Rightarrow>
             (P\<lparr>pr_http := Serving (shutdown_signal (su_interrupt_ok su) (su_terminate_ok su))\<rparr>,
              w\<lparr>os_ports := (os_ports w)(su_bind su \<mapsto> su_pid su)\<rparr>)))"

text \<open>The handlers are installed when the future is first polled, which is when serving starts.\<close>

definition take_signal :: "launch \<Rightarrow> os_signal \<Rightarrow> string option \<Rightarrow> ('u, 'c) process \<times> os \<Rightarrow> ('u, 'c) process \<times> os" where
  "take_signal su sig refused Pw =
     (case Pw of (P, w) \<Rightarrow>
        (case pr_http P of
           Serving sw \<Rightarrow>
             if \<not> handled (su_interrupt_ok su) (su_terminate_ok su) sig
             then (P\<lparr>pr_http := Killed sig\<rparr>, release (su_pid su) w)
             else if shutdown_poll sw sig = ShutDown then exit_run su refused (Inr ()) (P, w)
             else (P\<lparr>pr_http := Serving (shutdown_poll sw sig)\<rparr>, w)
         | _ \<Rightarrow> (P\<lparr>pr_http := Killed sig\<rparr>, release (su_pid su) w)))"

text \<open>
  One input.  An input that the process is not waiting for changes nothing.  A request that was
  accepted is answered, also when the shutdown comes next: serving drains before it returns.
\<close>

definition process_step :: "launch \<Rightarrow> ('u, 'c) process_input \<Rightarrow> ('u, 'c) process \<times> os \<Rightarrow> ('u, 'c) process \<times> os" where
  "process_step su inp Pw =
     (case Pw of (P, w) \<Rightarrow>
        if process_gone P then (P, w)
        else (case inp of
           ControlRuns ft \<Rightarrow>
             if pr_control P = ControlPending then
               (case control_listen ft (su_pid su) (su_socket su) (os_nodes w) of
                  (Inl _, N) \<Rightarrow> (P\<lparr>pr_control := ControlOver\<rparr>, w\<lparr>os_nodes := N\<rparr>)
                | (Inr _, N) \<Rightarrow> (P\<lparr>pr_control := ControlListening\<rparr>, w\<lparr>os_nodes := N\<rparr>))
             else (P, w)
         | ControlInput refused ai \<Rightarrow>
             if pr_control P = ControlListening then
               (case control_turn refused (su_socket su) ai (os_nodes w) of
                  (task, cs, N) \<Rightarrow>
                    (P\<lparr>pr_control := task, pr_connections := pr_connections P @ cs\<rparr>, w\<lparr>os_nodes := N\<rparr>))
             else (P, w)
         | ServerBinds refused unlink_refused \<Rightarrow>
             if pr_http P = Binding then bind_http su refused unlink_refused (P, w) else (P, w)
         | HttpRequest S verb r d \<Rightarrow>
             (case pr_http P of
                Serving _ \<Rightarrow>
                  (case respond S (su_data_dir su) verb r d (pr_served P) of
                     (response, sd) \<Rightarrow> (P\<lparr>pr_replies := pr_replies P @ [response], pr_served := sd\<rparr>, w))
              | _ \<Rightarrow> (P, w))
         | Signalled sig refused \<Rightarrow> take_signal su sig refused (P, w)))"

definition process_run :: "launch \<Rightarrow> ('u, 'c) process_input list \<Rightarrow> ('u, 'c) process \<times> os \<Rightarrow> ('u, 'c) process \<times> os" where
  "process_run su inputs = fold (process_step su) inputs"

section \<open>Facts about names\<close>

lemma unlink_elsewhere: "q \<noteq> p \<Longrightarrow> snd (unlink refused p N) q = N q"
  by (simp add: unlink_def split: option.split node.split)

lemma unlink_frees: "refused = None \<Longrightarrow> snd (unlink refused p N) p = None \<or> snd (unlink refused p N) p = Some DirNode"
  by (simp add: unlink_def split: option.split node.split)

lemma unlink_no_dir: "N p \<noteq> Some DirNode \<Longrightarrow> snd (unlink refused p N) p \<noteq> Some DirNode"
  by (simp add: unlink_def split: option.split node.split)

lemma control_listen_elsewhere: "q \<noteq> p \<Longrightarrow> snd (control_listen ft pid p N) q = N q"
  by (auto simp: control_listen_def andThen_def unlink_def bind_socket_def chmod_def
      split: option.split node.split sum.split prod.split)

lemma control_listen_bound: "control_listen ft pid p N = (Inr u, N') \<Longrightarrow> N' p = Some (SocketNode pid socket_mode)"
  by (auto simp: control_listen_def andThen_def unlink_def bind_socket_def chmod_def
      split: option.splits node.splits sum.splits prod.splits if_splits)

lemma control_listen_no_dir: "N p \<noteq> Some DirNode \<Longrightarrow> snd (control_listen ft pid p N) p \<noteq> Some DirNode"
  by (auto simp: control_listen_def andThen_def unlink_def bind_socket_def chmod_def
      split: option.split node.split sum.split prod.split)

lemma control_turn_elsewhere: "control_turn refused p inp N = (task, cs, N') \<Longrightarrow> q \<noteq> p \<Longrightarrow> N' q = N q"
  by (auto simp: control_turn_def unlink_elsewhere split: accept_input.splits sum.splits)

lemma control_turn_listening: "control_turn refused p inp N = (ControlListening, cs, N') \<Longrightarrow> N' = N"
  by (auto simp: control_turn_def split: accept_input.splits sum.splits)

lemma control_turn_no_dir: "control_turn refused p inp N = (task, cs, N') \<Longrightarrow> N p \<noteq> Some DirNode \<Longrightarrow> N' p \<noteq> Some DirNode"
  by (auto simp: control_turn_def unlink_no_dir split: accept_input.splits sum.splits)

section \<open>Facts about a process\<close>

text \<open>What a process never does to its surroundings, and what it has while it runs.\<close>

definition process_inv :: "launch \<Rightarrow> os \<Rightarrow> ('u, 'c) process \<times> os \<Rightarrow> bool" where
  "process_inv su w0 Pw \<longleftrightarrow>
     (case Pw of (P, w) \<Rightarrow>
       (\<forall>q. q \<noteq> su_socket su \<longrightarrow> os_nodes w q = os_nodes w0 q) \<and>
       (\<forall>a k. k \<noteq> su_pid su \<longrightarrow> os_ports w a = Some k \<longleftrightarrow> os_ports w0 a = Some k) \<and>
       (\<forall>a. os_ports w a = Some (su_pid su) \<longleftrightarrow> a = su_bind su \<and> (\<exists>sw. pr_http P = Serving sw)) \<and>
       (pr_control P = ControlListening \<and> \<not> process_gone P \<longrightarrow>
          os_nodes w (su_socket su) = Some (SocketNode (su_pid su) socket_mode)))"

text \<open>Inputs that do not keep the process from removing its socket.\<close>

fun removal_allowed :: "('u, 'c) process_input \<Rightarrow> bool" where
  "removal_allowed (ServerBinds refused unlink_refused) = (unlink_refused = None)"
| "removal_allowed (Signalled sig refused) = (refused = None)"
| "removal_allowed _ = True"

lemma release_ports: "os_ports (release pid w) a = Some k \<longleftrightarrow> k \<noteq> pid \<and> os_ports w a = Some k"
  by (auto simp: release_def)

lemma release_nodes [simp]: "os_nodes (release pid w) = os_nodes w"
  by (simp add: release_def)

lemma exit_run_inv:
  "process_inv su w0 (P, w) \<Longrightarrow> process_inv su w0 (exit_run su refused r (P, w))"
  by (simp add: process_inv_def exit_run_def release_ports process_gone_def unlink_elsewhere)

lemma killed_inv:
  "process_inv su w0 (P, w) \<Longrightarrow> process_inv su w0 (P\<lparr>pr_http := Killed sig\<rparr>, release (su_pid su) w)"
  by (simp add: process_inv_def release_ports process_gone_def)

lemma bind_http_inv:
  assumes "process_inv su w0 (P, w)" "pr_http P = Binding"
  shows "process_inv su w0 (bind_http su refused unlink_refused (P, w))"
proof (cases "refused = None \<and> os_ports w (su_bind su) = None")
  case True
  then have "os_ports w0 (su_bind su) \<noteq> Some k" if "k \<noteq> su_pid su" for k
    using assms(1) that True unfolding process_inv_def by simp (metis option.distinct(1))
  with True assms show ?thesis by (auto simp: bind_http_def process_inv_def process_gone_def)
next
  case False
  then show ?thesis using exit_run_inv [OF assms(1)]
    by (auto simp: bind_http_def simp del: split_paired_Ex split: option.split)
qed

lemma take_signal_inv:
  "process_inv su w0 (P, w) \<Longrightarrow> process_inv su w0 (take_signal su sig refused (P, w))"
  using exit_run_inv [of su w0 P w] killed_inv [of su w0 P w]
  by (auto simp: take_signal_def process_inv_def process_gone_def split: http_side.split)

lemma process_step_inv:
  assumes "process_inv su w0 (P, w)"
  shows "process_inv su w0 (process_step su inp (P, w))"
proof (cases "process_gone P")
  case False
  show ?thesis
  proof (cases inp)
    case (ControlRuns ft)
    then show ?thesis using assms False
      by (auto simp: process_step_def process_inv_def process_gone_def
          dest: control_listen_bound [of ft "su_pid su" "su_socket su" "os_nodes w"]
          split: sum.split prod.split)
        (metis control_listen_elsewhere snd_conv)+
  next
    case (ControlInput refused ai)
    obtain task cs N where turn: "control_turn refused (su_socket su) ai (os_nodes w) = (task, cs, N)" by (rule prod_cases3)
    then have "\<forall>q. q \<noteq> su_socket su \<longrightarrow> N q = os_nodes w q" "task = ControlListening \<longrightarrow> N = os_nodes w"
      using control_turn_elsewhere control_turn_listening by blast+
    with ControlInput assms False turn show ?thesis by (auto simp: process_step_def process_inv_def process_gone_def)
  next
    case (ServerBinds refused unlink_refused)
    with assms False bind_http_inv [OF assms] show ?thesis by (simp add: process_step_def)
  next
    case (HttpRequest S verb r d)
    with assms False show ?thesis
      by (auto simp: process_step_def process_inv_def process_gone_def split: http_side.split prod.split)
  next
    case (Signalled sig refused)
    with assms False take_signal_inv [OF assms] show ?thesis by (simp add: process_step_def)
  qed
qed (use assms in \<open>simp add: process_step_def\<close>)

lemma process_run_inv: "process_inv su w0 Pw \<Longrightarrow> process_inv su w0 (process_run su inputs Pw)"
proof (induction inputs arbitrary: Pw)
  case (Cons inp inputs)
  then show ?case using process_step_inv [of su w0 "fst Pw" "snd Pw" inp] by (simp add: process_run_def)
qed (simp add: process_run_def)

lemma fresh_inv: "\<forall>a. os_ports w a \<noteq> Some (su_pid su) \<Longrightarrow> process_inv su w (fresh_process m, w)"
  by (simp add: process_inv_def fresh_process_def)

definition name_free :: "launch \<Rightarrow> ('u, 'c) process \<times> os \<Rightarrow> bool" where
  "name_free su Pw \<longleftrightarrow>
     (\<exists>r. pr_http (fst Pw) = Exited r) \<longrightarrow>
       os_nodes (snd Pw) (su_socket su) = None \<or> os_nodes (snd Pw) (su_socket su) = Some DirNode"

lemma exit_run_free:
  "os_nodes (snd (exit_run su None r Pw)) (su_socket su) \<noteq> Some DirNode \<Longrightarrow>
     os_nodes (snd (exit_run su None r Pw)) (su_socket su) = None"
  using unlink_frees [of None "su_socket su" "os_nodes (snd Pw)"] by (auto simp: exit_run_def split_beta)

lemma process_step_free:
  assumes "name_free su (P, w)" "removal_allowed inp"
  shows "name_free su (process_step su inp (P, w))"
proof (cases "process_gone P")
  case False
  then have "pr_http P \<noteq> Exited r" for r by (auto simp: process_gone_def)
  with assms False show ?thesis
    by (cases inp) (auto simp: process_step_def take_signal_def bind_http_def name_free_def intro: exit_run_free
        split: http_side.split sum.split prod.split option.split)
qed (use assms in \<open>simp add: process_step_def\<close>)

lemma process_run_free:
  "name_free su Pw \<Longrightarrow> list_all removal_allowed inputs \<Longrightarrow> name_free su (process_run su inputs Pw)"
proof (induction inputs arbitrary: Pw)
  case (Cons inp inputs)
  then show ?case using process_step_free [of su "fst Pw" "snd Pw" inp] by (simp add: process_run_def)
qed (simp add: process_run_def)

text \<open>While nobody ends it, a serving process goes on serving and answers every request.\<close>

fun is_signal :: "('u, 'c) process_input \<Rightarrow> bool" where
  "is_signal (Signalled sig refused) = True"
| "is_signal _ = False"

fun answer_all :: "path \<Rightarrow> ('u, 'c) process_input list \<Rightarrow> 'u served \<Rightarrow> server_reply list \<times> 'u served" where
  "answer_all dir [] sd = ([], sd)"
| "answer_all dir (HttpRequest S verb r d # inputs) sd =
     (case respond S dir verb r d sd of (response, sd) \<Rightarrow>
        (case answer_all dir inputs sd of (rs, sd) \<Rightarrow> (response # rs, sd)))"
| "answer_all dir (_ # inputs) sd = answer_all dir inputs sd"

lemma run_serving:
  assumes "list_all (\<lambda>inp. \<not> is_signal inp) inputs" "pr_http P = Serving sw" "process_run su inputs (P, w) = (P', w')"
  shows "pr_http P' = Serving sw \<and> os_ports w' = os_ports w \<and>
    pr_replies P' = pr_replies P @ fst (answer_all (su_data_dir su) inputs (pr_served P)) \<and>
    pr_served P' = snd (answer_all (su_data_dir su) inputs (pr_served P))"
  using assms
proof (induction inputs arbitrary: P w)
  case (Cons inp inputs)
  obtain P1 w1 where step: "process_step su inp (P, w) = (P1, w1)" by fastforce
  have "pr_http P1 = Serving sw \<and> os_ports w1 = os_ports w \<and>
      pr_replies P1 = pr_replies P @ fst (answer_all (su_data_dir su) [inp] (pr_served P)) \<and>
      pr_served P1 = snd (answer_all (su_data_dir su) [inp] (pr_served P))"
    using step Cons.prems(1,2)
    by (cases inp) (auto simp: process_step_def process_gone_def split: sum.splits prod.splits if_splits)
  moreover have "answer_all dir (inp # inputs) sd =
      (case answer_all dir [inp] sd of (rs, sd) \<Rightarrow> (case answer_all dir inputs sd of (rs', sd) \<Rightarrow> (rs @ rs', sd)))" for dir sd
    by (cases inp) (auto split: prod.split)
  moreover have "process_run su inputs (P1, w1) = (P', w')" using Cons.prems(3) step by (simp add: process_run_def)
  ultimately show ?case using Cons.IH [of P1 w1] Cons.prems(1) by (auto split: prod.split)
qed (simp add: process_run_def)

lemma answer_all_counts:
  "sd_http_requests (snd (answer_all dir inputs sd)) =
     sd_http_requests sd + of_nat (length (fst (answer_all dir inputs sd)))"
proof (induction dir inputs sd rule: answer_all.induct)
  case (2 dir S verb r d inputs sd)
  obtain response sd' where "respond S dir verb r d sd = (response, sd')" by fastforce
  moreover from this have "sd_http_requests sd' = sd_http_requests sd + 1" by (auto simp: respond_def Let_def)
  ultimately show ?case using 2 by (simp add: split_beta)
qed simp_all

lemma run_snoc: "process_run su (xs @ [inp]) Pw = process_step su inp (process_run su xs Pw)"
  by (simp add: process_run_def)

lemma sigterms_ignored:
  assumes "su_terminate_ok su" "\<forall>inp \<in> set inputs. \<forall>refused. inp \<noteq> Signalled Sigint refused" "pr_http P = Serving Parked"
  shows "pr_http (fst (process_run su inputs (P, w))) = Serving Parked"
  using assms(2,3)
proof (induction inputs arbitrary: P w)
  case (Cons inp inputs)
  obtain P1 w1 where step: "process_step su inp (P, w) = (P1, w1)" by fastforce
  have "pr_http P1 = Serving Parked"
  proof (cases inp)
    case (Signalled sig refused)
    with Cons.prems(1) have "sig = Sigterm" by (cases sig) auto
    with step Signalled Cons.prems(2) assms(1) show ?thesis by (auto simp: process_step_def process_gone_def take_signal_def)
  qed (use step Cons.prems(2) in \<open>auto simp: process_step_def process_gone_def split: sum.splits prod.splits if_splits\<close>)
  with Cons step show ?case by (simp add: process_run_def)
qed (simp add: process_run_def)

text \<open>Until the server binds, nothing but the control task acts, and it leaves no directory behind.\<close>

fun is_bind :: "('u, 'c) process_input \<Rightarrow> bool" where
  "is_bind (ServerBinds refused unlink_refused) = True"
| "is_bind _ = False"

lemma run_binding:
  assumes "list_all (\<lambda>inp. \<not> is_signal inp \<and> \<not> is_bind inp) inputs" "pr_http P = Binding"
    "os_nodes w (su_socket su) \<noteq> Some DirNode" "process_run su inputs (P, w) = (P', w')"
  shows "pr_http P' = Binding \<and> os_ports w' = os_ports w \<and> os_nodes w' (su_socket su) \<noteq> Some DirNode"
  using assms
proof (induction inputs arbitrary: P w)
  case (Cons inp inputs)
  obtain P1 w1 where step: "process_step su inp (P, w) = (P1, w1)" by fastforce
  have "pr_http P1 = Binding \<and> os_ports w1 = os_ports w \<and> os_nodes w1 (su_socket su) \<noteq> Some DirNode"
  proof (cases inp)
    case (ControlRuns ft)
    with step Cons.prems control_listen_no_dir [of "os_nodes w" "su_socket su" ft "su_pid su"] show ?thesis
      by (auto simp: process_step_def process_gone_def split: sum.splits prod.splits if_splits)
  next
    case (ControlInput refused ai)
    with step Cons.prems control_turn_no_dir [of refused "su_socket su" ai "os_nodes w"] show ?thesis
      by (auto simp: process_step_def process_gone_def split: prod.splits if_splits)
  qed (use step Cons.prems in \<open>auto simp: process_step_def process_gone_def\<close>)
  moreover have "process_run su inputs (P1, w1) = (P', w')" using Cons.prems(4) step by (simp add: process_run_def)
  ultimately show ?case using Cons.IH [of P1 w1] Cons.prems(1) by simp
qed (simp add: process_run_def)

section \<open>Properties\<close>



text \<open>
  C38: A second daemon that cannot start takes the running one's control socket away.  Another
  process serves at the address and listens at the socket; a second one with the same
  configuration fails with \<open>Address already in use\<close>, whether its control task ran before or not
  and however that ended, and on its way out removes the name of the first one's socket.
\<close>

theorem second_start_takes_socket:
  assumes "os_ports w (su_bind su) = Some other" "\<forall>a. os_ports w a \<noteq> Some (su_pid su)"
    "os_nodes w (su_socket su) = Some (SocketNode other socket_mode)"
    "list_all (\<lambda>inp. \<not> is_signal inp \<and> \<not> is_bind inp) inputs"
  shows "\<exists>P' w'. process_run su (inputs @ [ServerBinds None None]) (fresh_process m, w) = (P', w') \<and>
    pr_http P' = Exited (Inl ''Address already in use'') \<and> os_ports w' = os_ports w \<and> os_nodes w' (su_socket su) = None"
proof -
  obtain P1 w1 where run: "process_run su inputs (fresh_process m, w) = (P1, w1)" by fastforce
  have "pr_http (fresh_process m) = Binding" "os_nodes w (su_socket su) \<noteq> Some DirNode"
    by (simp_all add: fresh_process_def assms(3))
  note waiting = run_binding [OF assms(4) this run]
  then have "process_run su (inputs @ [ServerBinds None None]) (fresh_process m, w) =
      exit_run su None (Inl ''Address already in use'') (P1, w1)"
    by (simp add: run_snoc run process_step_def process_gone_def bind_http_def assms(1))
  moreover have "snd (unlink None (su_socket su) (os_nodes w1)) (su_socket su) = None"
    using waiting unlink_frees [of None "su_socket su" "os_nodes w1"] unlink_no_dir [of "os_nodes w1" "su_socket su" None] by auto
  moreover have "os_ports (release (su_pid su) (w1\<lparr>os_nodes := N\<rparr>)) = os_ports w" for N
    using waiting assms(2) by (auto simp: release_def fun_eq_iff)
  ultimately show ?thesis by (simp add: exit_run_def)
qed

section \<open>Witnesses\<close>

definition demo_launch :: launch where
  "demo_launch = \<lparr>su_pid = 7, su_socket = ''/run/splicefeed.sock'', su_bind = ''0.0.0.0:3000'', su_data_dir = ''/data'',
     su_interrupt_ok = True, su_terminate_ok = True\<rparr>"

definition no_faults :: faults where
  "no_faults = \<lparr>ft_unlink = None, ft_bind = None, ft_chmod = None, ft_new_mode = 493\<rparr>"

text \<open>A stale socket of a process that is gone, and one of a daemon that is running.\<close>

definition stale_os :: os where
  "stale_os = \<lparr>os_nodes = [''/run/splicefeed.sock'' \<mapsto> SocketNode 3 socket_mode], os_ports = Map.empty\<rparr>"

definition busy_os :: os where
  "busy_os = stale_os\<lparr>os_ports := [''0.0.0.0:3000'' \<mapsto> 3]\<rparr>"



theorem second_start_takes_socket_witness:
  "\<forall>m :: tuple_url metrics. os_nodes (snd (process_run demo_launch ([ControlRuns no_faults] @ [ServerBinds None None])
      (fresh_process m :: (tuple_url, unit) process, busy_os))) ''/run/splicefeed.sock'' = None"
proof
  fix m :: "tuple_url metrics"
  let ?run = "process_run demo_launch ([ControlRuns no_faults] @ [ServerBinds None None])
      (fresh_process m :: (tuple_url, unit) process, busy_os)"
  have "\<exists>P' w'. ?run = (P', w') \<and> pr_http P' = Exited (Inl ''Address already in use'') \<and>
      os_ports w' = os_ports busy_os \<and> os_nodes w' (su_socket demo_launch) = None"
    by (rule second_start_takes_socket [of _ _ 3]) (simp_all add: busy_os_def stale_os_def demo_launch_def)
  then show "os_nodes (snd ?run) ''/run/splicefeed.sock'' = None" by (auto simp: demo_launch_def)
qed

end
