(* ===== verification/Spec2Isabelle.thy ===== *)
theory Spec2Isabelle
  imports Config Retention Lifecycle Migrate Download Feeds Difm Ipc Library Library_Steps Library_Downloads
    Library_Retention Library_Facts Intact_Facts Sync_Events Sync_Outcome Conditional Interleaving Crash Transfers Report Reload Scheduler Jitter
    Telemetry Control Server Tui Cli Commands Daemon
begin

text \<open>
  A model of \<open>splicefeed\<close>, which turns premium radio shows into podcast feeds: it polls a
  provider for a show's episodes, downloads the ones a retention policy keeps, records all of
  it in SQLite, and writes RSS from what it recorded.

  \<^bold>\<open>Parts.\<close>  Each theory models one part of the program, with its state, its operations and
  the facts that make it correct.

  \<^item> \<open>Prelude\<close>, \<open>Strings_Paths\<close>, \<open>Float64\<close>: results, machine integers, strings as UTF-8 bytes,
    Unix paths, and IEEE doubles as far as a retention cap in gigabytes needs them.
  \<^item> \<open>Domain\<close> (\<open>core/src/domain.rs\<close>): identifiers with their parsers, the episode state machine,
    error classes, MIME types, URL redaction, metadata crossing the provider boundary.
  \<^item> \<open>Config\<close> (\<open>core/src/config.rs\<close>): layering, defaults and validation.  TOML decoding and
    platform directories are arguments of \<open>load\<close>.
  \<^item> \<open>Retention\<close> (\<open>core/src/retention.rs\<close>): the planner on \<open>u64\<close> and \<open>u32\<close>, and the greedy walk on
    numbers that it equals while sizes add up below \<open>2 ^ 64\<close>.
  \<^item> \<open>Storage\<close>, \<open>Storage_Inv\<close>, \<open>Storage_Spec\<close>, \<open>Lifecycle\<close> (\<open>core/src/storage.rs\<close>): the two tables as
    lists of raw rows; every method of \<open>Storage\<close> as a function on them; the database
    invariant; the view of the tables as a map from episodes to records, on which each
    operation has a short specification that it refines; and histories of operations.
  \<^item> \<open>Migrate\<close> (\<open>core/src/storage.rs\<close>): schema versions, the statements of a migration, and the
    states a killed process leaves.
  \<^item> \<open>Download\<close> (\<open>core/src/download.rs\<close>): the file system, one transfer attempt over the reply and
    the disk errors it meets, and the retry loop (\<open>max_retries\<close> is its bound).
  \<^item> \<open>Feeds\<close> (\<open>core/src/rss.rs\<close>, \<open>core/src/opml.rs\<close>) and \<open>Ipc\<close> (\<open>core/src/ipc.rs\<close>): documents as element
    trees, and the messages and events of the control socket.
  \<^item> \<open>Provider\<close>, \<open>Wire\<close>, \<open>Difm\<close> (\<open>providers/src\<close>): the provider trait as a record of methods, the wire
    types and their conversion, the DI.FM provider over HTTP replies, the quarantine and the
    registry.
  \<^item> \<open>Library\<close>, \<open>Library_Steps\<close>, \<open>Library_Downloads\<close>, \<open>Library_Retention\<close>, \<open>Library_Facts\<close>
    (\<open>splicefeed/src/lib.rs\<close>): sync, downloads, retention, artwork, verification, feeds, opening
    and reloading, as functions on a state of database, files and broadcast events; then what a
    sync does to the database, what a download and a retention pass do to records and files
    together, and what failed polls, limits, verification and feeds come to.
  \<^item> \<open>Intact\<close>, \<open>Intact_Facts\<close>: where every file of a library lives, and that no history of syncs and
    verifications damages a cached one; what \<open>verify --fix\<close> leaves, and what ids that share a
    file name do to each other.
  \<^item> \<open>Sync_Events\<close>: the events a completed sync broadcasts, against its report and the metrics.
    \<open>Sync_Outcome\<close>: when a sync fails, and which episodes it tries to download.
    \<open>Conditional\<close>: what the stored listing validator stands for, as long as \<open>fetch_last\<close> is kept (it
    is sent for the page of the present limit, under whatever limit it was got).
  \<^item> \<open>Interleaving\<close>: the downloads of one sync as sequences of atomic steps, with every
    interleaving of them, and progress writes that race the end of a download.
    \<open>Transfers\<close> has the limits on them: permits, buffers, and what reloads share.
    \<open>Crash\<close> kills the process between two steps of its downloads, or of a retention pass.
  \<^item> \<open>Report\<close> (\<open>daemon/src/report.rs\<close>): the report that \<open>status\<close>, \<open>/debug\<close> and the terminal view share.
  \<^item> \<open>Reload\<close> (\<open>daemon/src/ops.rs\<close>, \<open>daemon/src/reload.rs\<close>): a round over all shows, the guard of
    restart-only settings, the watch channel with the served library, and the SIGHUP loop.
  \<^item> \<open>Scheduler\<close> (\<open>daemon/src/scheduler.rs\<close> and the tasks \<open>main.rs\<close> spawns): the poll loops, their
    manager, the initial round, SIGHUPs and shutdown as one step relation over all interleavings.
    \<open>Jitter\<close> has the length of a timer, in doubles.
  \<^item> \<open>Telemetry\<close> (\<open>daemon/src/telemetry.rs\<close>): counters and the event pump.
  \<^item> \<open>Control\<close> (\<open>daemon/src/control.rs\<close>): snapshots, rates in IEEE doubles, the directory walk, and a
    connection line by line.
  \<^item> \<open>Server\<close> (\<open>daemon/src/server.rs\<close>): the HTTP handlers, the route table and the middleware.
  \<^item> \<open>Tui\<close> (\<open>daemon/src/tui.rs\<close>): the live view's state, loop, socket reader and keyboard thread, and a frame as texts
    and styles.
  \<^item> \<open>Cli\<close>, \<open>Commands\<close> (\<open>daemon/src/main.rs\<close>): the commands and what they print, the man pages, and
    which arguments run what.
  \<^item> \<open>Daemon\<close> (\<open>control::serve\<close>, \<open>server::serve\<close>, \<open>shutdown_signal\<close> and the end of \<open>run\<close>): the daemon as
    a process with a socket file, an address and signals, beside other processes.

  \<^bold>\<open>State and errors.\<close>  A Rust \<open>Result\<close> is a sum with the error on the left; a method that
  changes state takes it and returns the next one, also when it fails.  A storage operation
  that fails leaves the database as it was, since its transaction is dropped.  The connection's
  mutex makes the operations of all tasks one sequence; \<open>Lifecycle\<close> speaks about every such
  sequence.  \<open>Library\<close> takes the concurrent downloads of one sync one after the other, in an
  order chosen by the surroundings; \<open>Interleaving\<close> shows that running them at once ends the same.  \<open>Scheduler\<close> lets the syncs of all tasks interleave at their
  storage operations; \<open>sync_is_work\<close> shows that a whole sync is such a sequence of steps.

  \<^bold>\<open>What is a parameter.\<close>  Code outside the repository is an argument of the definitions that
  use it: URLs (\<open>url_ops\<close>), the text of times and hashes (\<open>codec\<close>, with \<open>codec_ok\<close>: what was
  printed parses back), HTTP replies and disk errors (\<open>transfer\<close>, \<open>upstream\<close>, \<open>fs\<close>), JSON decoders
  (\<open>json_ops\<close>), the clock.  Every property with such a hypothesis has an instance where it holds.

  \<^bold>\<open>Interfaces.\<close>  \<open>retention_planner\<close> (any split of candidates) is interpreted by \<open>Retention\<close>,
  \<open>episode_source\<close> (what a listing promises the sync engine) by \<open>Difm\<close>, \<open>lifecycle_store\<close> (a
  store that follows the episode state machine, with its histories) by \<open>Lifecycle\<close>,
  \<open>independent_steps\<close> (steps that commute when they are apart) by \<open>Interleaving\<close>, and
  \<open>settling_system\<close> (steps that keep an invariant and go down in a well-founded order) by
  \<open>Scheduler\<close> and \<open>Transfers\<close>.

  \<^bold>\<open>What the lemmas show.\<close>  \<open>Storage_Inv\<close>: every operation keeps the invariant, and reading a
  database that has it never fails.  \<open>Storage_Spec\<close>: decoding commutes with every update.
  \<open>Lifecycle\<close>: states move only along allowed transitions, tombstones survive.  \<open>Download\<close>:
  transfers are all or nothing.  \<open>Difm\<close>: listings are bounded, ordered and tolerant, and errors
  are free of credentials.  \<open>Library_Steps\<close>: what \<open>sync\<close> does to the database is a history of
  storage operations on its own show, so the facts about histories hold of the program.
  \<open>Crash\<close>: a prefix of an interleaving is an interleaving of prefixes, each of which keeps the
  records sound; what a planner has doomed stays doomed when a part of it is gone.
  \<open>Reload\<close>: no list of SIGHUPs breaks the served library.  \<open>Scheduler\<close>: an invariant of the daemon
  under every interleaving, and a measure (a reload is pending; the manager's phase; the phases
  of the loops) that every step but a timer decreases, so a reload takes effect and a closed
  channel ends the scheduler.  \<open>Jitter\<close>: rounding to nearest is monotone, across binades and into
  the subnormal range, and so are products and sums.  \<open>Daemon\<close>: what a process never touches,
  and how signals end it.  \<open>Control\<close>, \<open>Server\<close>, \<open>Tui\<close>, \<open>Cli\<close>: what each interface shows is what the
  database holds, and the view hears exactly the events the daemon delivers.

  \<^bold>\<open>Bounds and lists.\<close>  Loops that wait for the outside (the event pump, the view, a connection,
  the SIGHUP loop) are recursive on the list of what arrives; at its end they are still waiting.
  The retry loop of a download is bounded by \<open>max_retries\<close>.  No definition needs fuel.

  \<^bold>\<open>Not modelled.\<close>  Argument parsing and the rendering of completions and man pages (\<open>clap\<close>); the
  router of \<open>axum\<close>, its connections and their draining, and the file service with its range
  requests (\<open>tower-http\<close>); the drawing of the view (\<open>ratatui\<close>); the text of
  feed documents, the JSON of messages, the metrics exposition and log output, which other
  crates produce; tests.
\<close>

end
